(* ===== verification/Prelude.thy ===== *)
theory Prelude
  imports Main "HOL-Library.Word"
begin

text \<open>
  Shared vocabulary of the development: how a C++ function that can stop the
  program is written as a value (\<open>res\<close>), raw memory as lists of bytes
  (\<open>memcpy_at\<close>), the byte order of integers in memory (\<open>le_bytes\<close>,
  \<open>of_le\<close>) and the byte-order functions of \<^verbatim>\<open><arpa/inet.h>\<close>.  The
  host is little-endian, as are the targets of \<^verbatim>\<open>CMakePresets.json\<close> (x86-64
  and the Raspberry Pi).
\<close>

unbundle bit_operations_syntax

named_theorems inv_pres \<open>operations keep the invariants of their component\<close>
named_theorems frame \<open>what an operation leaves unchanged\<close>
named_theorems mem_simps \<open>reading back what was copied into raw memory\<close>

section \<open>Results of operations that may stop the program\<close>

text \<open>
  The ways in which the program stops other than by returning: a failing
  \<^verbatim>\<open>assert\<close> (the library is built without \<^verbatim>\<open>NDEBUG\<close>), a call of \<^verbatim>\<open>abort\<close>
  or of \<^verbatim>\<open>exit\<close>, an access outside a container or object (undefined in C++), a call of an
  empty \<^verbatim>\<open>std::function\<close>.  The last one is of no operation of the library: a check of the
  model has found a call that its client must not make.
\<close>

datatype failure =
    Assertion_failed
  | Aborted
  | Exited int
  | Undefined_behaviour
  | Bad_function_call
  | Call_not_allowed

type_synonym 'a res = "failure + 'a"

definition bindE :: "'a res \<Rightarrow> ('a \<Rightarrow> 'b res) \<Rightarrow> 'b res" where
  "bindE m f = (case m of Inl e \<Rightarrow> Inl e | Inr x \<Rightarrow> f x)"

definition assertE :: "bool \<Rightarrow> unit res" where
  "assertE b = (if b then Inr () else Inl Assertion_failed)"

text \<open>The values of \<^verbatim>\<open>error::Error\<close> (of the logging library) that the code names.\<close>

datatype error_code = OK | ERROR_UNKNOWN | MMAP_FAILED | HOSTNAME_RESOLVE_FAILED | Other_error nat

lemma bindE_simps [simp]:
  "bindE (Inl e) f = Inl e"
  "bindE (Inr x) f = f x"
  by (simp_all add: bindE_def)

lemma bindE_eq_Inr [simp]: "bindE m f = Inr y \<longleftrightarrow> (\<exists>x. m = Inr x \<and> f x = Inr y)"
  by (cases m) simp_all

lemma bindE_eq_Inl: "bindE m f = Inl e \<longleftrightarrow> m = Inl e \<or> (\<exists>x. m = Inr x \<and> f x = Inl e)"
  by (cases m) simp_all

lemma assertE_simps [simp]:
  "assertE True = Inr ()"
  "assertE False = Inl Assertion_failed"
  "assertE b = Inr u \<longleftrightarrow> b"
  "assertE b = Inl e \<longleftrightarrow> \<not> b \<and> e = Assertion_failed"
  by (auto simp: assertE_def)

lemma bindE_cong:
  "m = m' \<Longrightarrow> (\<And>x. m' = Inr x \<Longrightarrow> f x = f' x) \<Longrightarrow> bindE m f = bindE m' f'"
  by (cases m') simp_all

text \<open>A sequence of operations stops at the first failure, as the program would.\<close>

primrec foldE :: "('s \<Rightarrow> 'x \<Rightarrow> 's res) \<Rightarrow> 's \<Rightarrow> 'x list \<Rightarrow> 's res" where
  "foldE f s [] = Inr s"
| "foldE f s (x # xs) = bindE (f s x) (\<lambda>s'. foldE f s' xs)"

lemma foldE_append [simp]: "foldE f s (xs @ ys) = bindE (foldE f s xs) (\<lambda>s'. foldE f s' ys)"
proof (induction xs arbitrary: s)
  case (Cons x xs)
  then show ?case by (cases "f s x") simp_all
qed simp

text \<open>An invariant of one operation is one of the sequence.\<close>

lemma foldE_inv:
  assumes step: "\<And>s x s'. I s \<Longrightarrow> f s x = Inr s' \<Longrightarrow> I s'"
  shows "I s \<Longrightarrow> foldE f s xs = Inr s' \<Longrightarrow> I s'"
  by (induction xs arbitrary: s) (auto dest: step)

section \<open>Raw memory\<close>

type_synonym byte = "8 word"

text \<open>\<^verbatim>\<open>memcpy(buf + off, data, n)\<close> on an array.\<close>

definition memcpy_at :: "nat \<Rightarrow> 'a list \<Rightarrow> 'a list \<Rightarrow> 'a list" where
  "memcpy_at off data buf = take off buf @ data @ drop (off + length data) buf"

lemma length_memcpy_at [simp]:
  "off + length data \<le> length buf \<Longrightarrow> length (memcpy_at off data buf) = length buf"
  by (simp add: memcpy_at_def)

lemma take_memcpy_at [mem_simps]:
  "off \<le> length buf \<Longrightarrow> take (off + length data) (memcpy_at off data buf) = take off buf @ data"
  by (simp add: memcpy_at_def)

lemma take_memcpy_at_0 [mem_simps]: "take (length data) (memcpy_at 0 data buf) = data"
  by (simp add: memcpy_at_def)

lemma drop_memcpy_at [mem_simps]:
  "off + length data \<le> length buf \<Longrightarrow> off + length data \<le> k \<Longrightarrow>
     drop k (memcpy_at off data buf) = drop k buf"
  by (simp add: memcpy_at_def)

lemma memcpy_at_read [mem_simps]:
  "off \<le> length buf \<Longrightarrow> take (length data) (drop off (memcpy_at off data buf)) = data"
  by (simp add: memcpy_at_def)

lemma take_memcpy_at_before [mem_simps]:
  "k \<le> off \<Longrightarrow> off \<le> length buf \<Longrightarrow> take k (memcpy_at off data buf) = take k buf"
  by (simp add: memcpy_at_def min_absorb1)

section \<open>Integers in memory\<close>

text \<open>The \<open>n\<close> bytes of a machine integer in the memory of a little-endian host.\<close>

definition le_bytes :: "nat \<Rightarrow> 'a::len word \<Rightarrow> byte list" where
  "le_bytes n w = map (\<lambda>i. ucast (drop_bit (8 * i) w)) [0..<n]"

text \<open>The integer that such a host reads from a run of bytes.\<close>

fun of_le :: "byte list \<Rightarrow> 'a::len word" where
  "of_le [] = 0"
| "of_le (b # bs) = ucast b OR push_bit 8 (of_le bs)"

lemma length_le_bytes [simp]: "length (le_bytes n w) = n"
  by (simp add: le_bytes_def)

lemma nth_le_bytes: "i < n \<Longrightarrow> le_bytes n w ! i = ucast (drop_bit (8 * i) w)"
  by (simp add: le_bytes_def)

lemma bit_of_le:
  "bit (of_le bs :: 'a::len word) k \<longleftrightarrow>
     k < LENGTH('a) \<and> k div 8 < length bs \<and> bit (bs ! (k div 8)) (k mod 8)"
proof (induction bs arbitrary: k)
  case Nil
  then show ?case by simp
next
  case (Cons b bs)
  show ?case
  proof (cases "k < 8")
    case True
    then show ?thesis by (auto simp: bit_simps)
  next
    case False
    then have k: "k div 8 = Suc ((k - 8) div 8)" "k mod 8 = (k - 8) mod 8"
      by (simp_all add: le_div_geq le_mod_geq)
    have "\<not> bit b k" using False bit_imp_le_length[of b k] by auto
    then show ?thesis using False Cons.IH[of "k - 8"] by (auto simp: bit_simps k)
  qed
qed

text \<open>Reading back what was stored, in both directions.\<close>

lemma of_le_le_bytes [simp]:
  assumes "LENGTH('a) \<le> 8 * n"
  shows "of_le (le_bytes n w) = (w :: 'a::len word)"
proof (rule bit_word_eqI)
  fix k assume k: "k < LENGTH('a)"
  with assms have "k div 8 < n" by (simp add: div_less_iff_less_mult)
  with k show "bit (of_le (le_bytes n w) :: 'a word) k = bit w k"
    by (simp add: bit_of_le nth_le_bytes bit_simps)
qed

lemma le_bytes_of_le:
  assumes "8 * length bs \<le> LENGTH('a)"
  shows "le_bytes (length bs) (of_le bs :: 'a::len word) = bs"
proof (rule nth_equalityI)
  fix i assume "i < length (le_bytes (length bs) (of_le bs :: 'a word))"
  then have i: "i < length bs" by simp
  show "le_bytes (length bs) (of_le bs :: 'a word) ! i = bs ! i"
  proof (rule bit_word_eqI)
    fix k assume "k < LENGTH(8)"
    then have k: "k < 8" by simp
    from k have "(8 * i + k) div 8 = i" "(8 * i + k) mod 8 = k" by simp_all
    moreover have "8 * i + k < LENGTH('a)" using i k assms by linarith
    ultimately show "bit (le_bytes (length bs) (of_le bs :: 'a word) ! i) k = bit (bs ! i) k"
      using i k by (simp add: nth_le_bytes bit_simps bit_of_le)
  qed
qed simp

section \<open>Byte order\<close>

text \<open>
  \<^verbatim>\<open>htons\<close>/\<^verbatim>\<open>ntohs\<close> and \<^verbatim>\<open>htonl\<close>/\<^verbatim>\<open>ntohl\<close> on a little-endian host reverse the
  bytes of the integer.
\<close>

definition htons :: "16 word \<Rightarrow> 16 word" where
  "htons v = of_le (rev (le_bytes 2 v))"

definition htonl :: "32 word \<Rightarrow> 32 word" where
  "htonl v = of_le (rev (le_bytes 4 v))"

definition ntohs :: "16 word \<Rightarrow> 16 word" where "ntohs v = htons v"

definition ntohl :: "32 word \<Rightarrow> 32 word" where "ntohl v = htonl v"

lemma le_bytes_htons: "le_bytes 2 (htons v) = rev (le_bytes 2 v)"
  using le_bytes_of_le[of "rev (le_bytes 2 v)", where 'a = 16] by (simp add: htons_def)

lemma le_bytes_htonl: "le_bytes 4 (htonl v) = rev (le_bytes 4 v)"
  using le_bytes_of_le[of "rev (le_bytes 4 v)", where 'a = 32] by (simp add: htonl_def)

lemma htons_htons [simp]: "htons (htons v) = v"
  by (subst htons_def) (simp add: le_bytes_htons)

lemma htonl_htonl [simp]: "htonl (htonl v) = v"
  by (subst htonl_def) (simp add: le_bytes_htonl)

lemma htons_inject [simp]: "htons v = htons w \<longleftrightarrow> v = w"
  by (metis htons_htons)

lemma ntohs_htons [simp]: "ntohs (htons v) = v" "htons (ntohs v) = v"
  by (simp_all add: ntohs_def)

lemma ntohl_htonl [simp]: "ntohl (htonl v) = v" "htonl (ntohl v) = v"
  by (simp_all add: ntohl_def)

section \<open>Characters and bytes\<close>

text \<open>A \<^verbatim>\<open>std::string\<close> is a \<open>string\<close>; its memory is one byte per character.\<close>

definition bytes_of_string :: "string \<Rightarrow> byte list" where
  "bytes_of_string s = map of_char s"

definition string_of_bytes :: "byte list \<Rightarrow> string" where
  "string_of_bytes bs = map (\<lambda>b. char_of (unat b)) bs"

lemma length_bytes_of_string [simp]: "length (bytes_of_string s) = length s"
  by (simp add: bytes_of_string_def)

lemma length_string_of_bytes [simp]: "length (string_of_bytes bs) = length bs"
  by (simp add: string_of_bytes_def)

lemma string_of_bytes_append [simp]:
  "string_of_bytes (xs @ ys) = string_of_bytes xs @ string_of_bytes ys"
  by (simp add: string_of_bytes_def)

lemma bytes_of_string_append [simp]:
  "bytes_of_string (xs @ ys) = bytes_of_string xs @ bytes_of_string ys"
  by (simp add: bytes_of_string_def)

lemma unat_of_char: "unat (of_char c :: byte) = of_char c"
proof -
  have b: "(of_char c :: nat) < 256" by simp
  have "(of_char c :: byte) = of_nat (of_char c)"
    by (cases c) (simp add: of_char_def)
  then show ?thesis using b by (simp add: unat_of_nat)
qed

lemma string_of_bytes_of_string [simp]: "string_of_bytes (bytes_of_string s) = s"
  by (induction s) (simp_all add: string_of_bytes_def bytes_of_string_def unat_of_char)

end
