(* ===== verification/SendPacket.thy ===== *)
theory SendPacket
  imports Prelude
begin

text \<open>
  \<^verbatim>\<open>include/iuring/SendPacket.hpp\<close>: the fixed buffer of 4096 bytes into which a
  client writes what is to be sent.  The buffer of a new packet is not
  initialised; its content is the argument \<open>junk\<close> of the constructor.
  The contract that the work items and the sockets rely on is the locale
  \<open>byte_sink\<close>, interpreted on the operations of the class at the end.
\<close>

section \<open>The class\<close>

record send_packet =
  m_size :: nat
  m_buf :: "byte list"

definition BUF_SIZE :: nat where "BUF_SIZE = 4096"

definition new_send_packet :: "byte list \<Rightarrow> send_packet" where
  "new_send_packet junk = \<lparr>m_size = 0, m_buf = junk\<rparr>"

text \<open>
  \<^verbatim>\<open>append(const uint8_t*, size_t)\<close>: the assertion demands one byte of room more
  than is needed.
\<close>

definition append_bytes :: "send_packet \<Rightarrow> byte list \<Rightarrow> send_packet res" where
  "append_bytes sp d =
     bindE (assertE (m_size sp + length d < length (m_buf sp))) (\<lambda>_.
       Inr (sp\<lparr>m_buf := memcpy_at (m_size sp) d (m_buf sp), m_size := m_size sp + length d\<rparr>))"

definition append_byte :: "send_packet \<Rightarrow> byte \<Rightarrow> send_packet res" where
  "append_byte sp b = append_bytes sp [b]"

definition append_uint16 :: "send_packet \<Rightarrow> 16 word \<Rightarrow> send_packet res" where
  "append_uint16 sp v = (let n = ntohs v in append_bytes sp (le_bytes 2 n))"

definition append_uint32 :: "send_packet \<Rightarrow> 32 word \<Rightarrow> send_packet res" where
  "append_uint32 sp v = (let n = ntohl v in append_bytes sp (le_bytes 4 n))"

text \<open>\<^verbatim>\<open>template <typename T> append(const T&)\<close>; \<open>obj\<close> are the bytes of the object.\<close>

definition append_object :: "send_packet \<Rightarrow> byte list \<Rightarrow> send_packet res" where
  "append_object sp obj = append_bytes sp obj"

definition append_string :: "send_packet \<Rightarrow> string \<Rightarrow> send_packet res" where
  "append_string sp s = append_bytes sp (bytes_of_string s)"

text \<open>
  \<^verbatim>\<open>append(const char*)\<close>; \<open>mem\<close> is the memory from the pointer on, \<^verbatim>\<open>strlen\<close> runs to
  the first zero byte (and out of the object if there is none).
\<close>

definition append_cstr :: "send_packet \<Rightarrow> byte list \<Rightarrow> send_packet res" where
  "append_cstr sp mem =
     (if 0 \<in> set mem then append_bytes sp (takeWhile (\<lambda>b. b \<noteq> 0) mem)
      else Inl Undefined_behaviour)"

text \<open>
  \<^verbatim>\<open>emplace_back<T>(args...)\<close>: the memory of the new object is cleared, then the
  constructor \<open>ctor\<close> runs in place on its \<open>sizeof_T\<close> bytes.
\<close>

definition emplace_back :: "nat \<Rightarrow> (byte list \<Rightarrow> byte list) \<Rightarrow> send_packet \<Rightarrow> send_packet res" where
  "emplace_back sizeof_T ctor sp =
     bindE (assertE (m_size sp + sizeof_T < length (m_buf sp))) (\<lambda>_.
       let cleared = memcpy_at (m_size sp) (replicate sizeof_T 0) (m_buf sp);
           obj = ctor (take sizeof_T (drop (m_size sp) cleared))
       in Inr (sp\<lparr>m_buf := memcpy_at (m_size sp) obj cleared, m_size := m_size sp + sizeof_T\<rparr>))"

definition reset :: "send_packet \<Rightarrow> send_packet" where
  "reset sp = sp\<lparr>m_buf := memcpy_at 0 (replicate (m_size sp) 0) (m_buf sp), m_size := 0\<rparr>"

definition clean_proper :: "send_packet \<Rightarrow> send_packet" where
  "clean_proper sp = sp\<lparr>m_size := 0, m_buf := replicate (length (m_buf sp)) 0\<rparr>"

definition packet_size :: "send_packet \<Rightarrow> nat" where
  "packet_size sp = m_size sp"

definition packet_data :: "send_packet \<Rightarrow> byte list" where
  "packet_data sp = m_buf sp"

definition packet_to_string :: "send_packet \<Rightarrow> string" where
  "packet_to_string sp = string_of_bytes (take (m_size sp) (m_buf sp))"

lemmas append_defs = append_byte_def append_uint16_def append_uint32_def append_object_def
  append_string_def append_cstr_def

section \<open>Invariant and contents\<close>

definition packet_inv :: "send_packet \<Rightarrow> bool" where
  "packet_inv sp \<longleftrightarrow> length (m_buf sp) = BUF_SIZE \<and> m_size sp < BUF_SIZE"

text \<open>What \<^verbatim>\<open>sendmsg\<close> and \<^verbatim>\<open>send\<close> are given: \<^verbatim>\<open>size()\<close> bytes from \<^verbatim>\<open>data()\<close>.\<close>

definition contents :: "send_packet \<Rightarrow> byte list" where
  "contents sp = take (packet_size sp) (packet_data sp)"

lemma packet_inv_new: "length junk = BUF_SIZE \<Longrightarrow> packet_inv (new_send_packet junk)"
  by (simp add: packet_inv_def new_send_packet_def BUF_SIZE_def)

lemma contents_new [simp]: "contents (new_send_packet junk) = []"
  by (simp add: contents_def new_send_packet_def packet_size_def)

lemma append_bytes_cases:
  "append_bytes sp d =
     (if m_size sp + length d < length (m_buf sp)
      then Inr (sp\<lparr>m_buf := memcpy_at (m_size sp) d (m_buf sp), m_size := m_size sp + length d\<rparr>)
      else Inl Assertion_failed)"
  by (simp add: append_bytes_def)

lemma append_bytes_inv [inv_pres]:
  "packet_inv sp \<Longrightarrow> append_bytes sp d = Inr sp' \<Longrightarrow> packet_inv sp'"
  by (auto simp: append_bytes_cases packet_inv_def split: if_splits)

lemma append_bytes_contents:
  "packet_inv sp \<Longrightarrow> append_bytes sp d = Inr sp' \<Longrightarrow> contents sp' = contents sp @ d"
  by (auto simp: append_bytes_cases packet_inv_def contents_def packet_size_def packet_data_def
        mem_simps split: if_splits)

lemma reset_inv [inv_pres]: "packet_inv sp \<Longrightarrow> packet_inv (reset sp)"
  by (simp add: packet_inv_def reset_def BUF_SIZE_def)

lemma clean_proper_inv [inv_pres]: "packet_inv sp \<Longrightarrow> packet_inv (clean_proper sp)"
  by (simp add: packet_inv_def clean_proper_def BUF_SIZE_def)

lemma contents_reset [simp]: "contents (reset sp) = []"
  by (simp add: contents_def reset_def packet_size_def)

lemma contents_clean_proper [simp]: "contents (clean_proper sp) = []"
  by (simp add: contents_def clean_proper_def packet_size_def)

lemma length_contents: "packet_inv sp \<Longrightarrow> length (contents sp) = packet_size sp"
  by (simp add: contents_def packet_inv_def packet_size_def packet_data_def)

lemma emplace_back_is_append:
  assumes "packet_inv sp" and "length (ctor (replicate n 0)) = n"
  shows "emplace_back n ctor sp = append_bytes sp (ctor (replicate n 0))"
proof -
  have "take n (drop (m_size sp) (memcpy_at (m_size sp) (replicate n 0) (m_buf sp))) = replicate n 0"
    using memcpy_at_read[of "m_size sp" "m_buf sp" "replicate n (0::byte)"] assms(1)
    by (simp add: packet_inv_def)
  then show ?thesis using assms
    by (simp add: emplace_back_def append_bytes_def Let_def packet_inv_def memcpy_at_def)
qed

section \<open>The contract\<close>

locale byte_sink =
  fixes append :: "'s \<Rightarrow> byte list \<Rightarrow> 's res"
    and reset :: "'s \<Rightarrow> 's"
    and content :: "'s \<Rightarrow> byte list"
    and invar :: "'s \<Rightarrow> bool"
    and capacity :: nat
  assumes append_fits: "invar s \<Longrightarrow> length (content s) + length d < capacity \<Longrightarrow>
      \<exists>s'. append s d = Inr s' \<and> invar s' \<and> content s' = content s @ d"
    and append_full: "invar s \<Longrightarrow> capacity \<le> length (content s) + length d \<Longrightarrow>
      append s d = Inl Assertion_failed"
    and reset_empty: "invar s \<Longrightarrow> invar (reset s) \<and> content (reset s) = []"
begin

text \<open>Writing several pieces in a row stops at the first that does not fit.\<close>

lemma append_all_fits:
  "invar s \<Longrightarrow> length (content s) + length (concat ds) < capacity \<Longrightarrow>
     \<exists>s'. foldE append s ds = Inr s' \<and> invar s' \<and> content s' = content s @ concat ds"
proof (induction ds arbitrary: s)
  case Nil
  then show ?case by simp
next
  case (Cons d ds)
  then obtain s1 where s1: "append s d = Inr s1" "invar s1" "content s1 = content s @ d"
    using append_fits[of s d] by auto
  with Cons.prems Cons.IH[of s1] show ?case by simp
qed

lemma append_all_full:
  "invar s \<Longrightarrow> length (content s) < capacity \<Longrightarrow>
   capacity \<le> length (content s) + length (concat ds) \<Longrightarrow>
     foldE append s ds = Inl Assertion_failed"
proof (induction ds arbitrary: s)
  case Nil
  then show ?case by simp
next
  case (Cons d ds)
  show ?case
  proof (cases "length (content s) + length d < capacity")
    case True
    then obtain s1 where "append s d = Inr s1" "invar s1" "content s1 = content s @ d"
      using append_fits[of s d] Cons.prems(1) by auto
    with Cons True show ?thesis by simp
  next
    case False
    with Cons.prems show ?thesis by (simp add: append_full)
  qed
qed

end

interpretation pkt: byte_sink append_bytes reset contents packet_inv BUF_SIZE
proof
  fix s and d :: "byte list"
  assume i: "packet_inv s" and l: "length (contents s) + length d < BUF_SIZE"
  then obtain s' where "append_bytes s d = Inr s'"
    by (simp add: append_bytes_cases length_contents packet_size_def packet_inv_def)
  with i show "\<exists>s'. append_bytes s d = Inr s' \<and> packet_inv s' \<and> contents s' = contents s @ d"
    by (blast intro: append_bytes_inv append_bytes_contents)
next
  fix s and d :: "byte list"
  assume "packet_inv s" and "BUF_SIZE \<le> length (contents s) + length d"
  then show "append_bytes s d = Inl Assertion_failed"
    by (simp add: append_bytes_cases length_contents packet_size_def packet_inv_def)
next
  fix s
  assume "packet_inv s"
  then show "packet_inv (reset s) \<and> contents (reset s) = []"
    by (simp add: reset_inv)
qed

section \<open>Properties\<close>

text \<open>
  C36: Any sequence of pieces can be written to a packet exactly if the total stays below
  4096 bytes (one byte less than the buffer holds); then the packet holds its earlier
  contents followed by the pieces in order, otherwise the first piece that does not fit
  stops the program.
\<close>

theorem append_pieces:
  assumes "packet_inv sp"
  shows "if length (contents sp) + length (concat pieces) < 4096
     then \<exists>sp'. foldE append_bytes sp pieces = Inr sp' \<and> packet_inv sp' \<and>
            contents sp' = contents sp @ concat pieces
     else foldE append_bytes sp pieces = Inl Assertion_failed"
proof -
  have "length (contents sp) < BUF_SIZE"
    using assms by (simp add: length_contents packet_inv_def packet_size_def)
  with pkt.append_all_fits[OF assms] pkt.append_all_full[OF assms] show ?thesis
    by (auto simp: BUF_SIZE_def not_less)
qed

lemma ntoh_bytes: "le_bytes 2 (ntohs v) = rev (le_bytes 2 v)" "le_bytes 4 (ntohl w) = rev (le_bytes 4 w)"
  by (simp_all add: ntohs_def ntohl_def le_bytes_htons le_bytes_htonl)

text \<open>
  Integers are written in network byte order: after \<^verbatim>\<open>append_uint16\<close> and
  \<^verbatim>\<open>append_uint32\<close> the packet ends with the bytes of the integer, the most significant one
  first.
\<close>

lemma append_integers_big_endian:
  assumes "packet_inv sp" and "length (contents sp) + 6 < 4096"
  shows "\<exists>sp1 sp2. append_uint16 sp v = Inr sp1 \<and> append_uint32 sp1 w = Inr sp2 \<and> packet_inv sp2 \<and>
     contents sp2 = contents sp @ [ucast (drop_bit 8 v), ucast v,
       ucast (drop_bit 24 w), ucast (drop_bit 16 w), ucast (drop_bit 8 w), ucast w]"
proof -
  have l: "length (contents sp) + length (le_bytes 2 (ntohs v)) < BUF_SIZE" using assms(2) by (simp add: BUF_SIZE_def)
  from pkt.append_fits[OF assms(1) l] obtain sp1 where
    1: "append_bytes sp (le_bytes 2 (ntohs v)) = Inr sp1" "packet_inv sp1"
      "contents sp1 = contents sp @ le_bytes 2 (ntohs v)" by blast
  have "length (contents sp1) + length (le_bytes 4 (ntohl w)) < BUF_SIZE"
    using assms(2) 1(3) by (simp add: BUF_SIZE_def)
  from pkt.append_fits[OF 1(2) this] obtain sp2 where
    2: "append_bytes sp1 (le_bytes 4 (ntohl w)) = Inr sp2" "packet_inv sp2"
      "contents sp2 = contents sp1 @ le_bytes 4 (ntohl w)" by blast
  have "rev (le_bytes 2 v) = [ucast (drop_bit 8 v), ucast v]"
    "rev (le_bytes 4 w) = [ucast (drop_bit 24 w), ucast (drop_bit 16 w), ucast (drop_bit 8 w), ucast w]"
    by (simp_all add: le_bytes_def upt_rec)
  with 1 2 show ?thesis by (simp add: append_uint16_def append_uint32_def ntoh_bytes)
qed

text \<open>
  After a reset the packet is empty, every byte that was in use is zero, and the rest
  of the buffer is as it was; so nothing that was sent can be sent again by a later,
  shorter use of the same item.
\<close>

lemma reset_clears_what_was_used:
  assumes "packet_inv sp"
  shows "packet_inv (reset sp) \<and> contents (reset sp) = [] \<and>
     (\<forall>i < BUF_SIZE. packet_data (reset sp) ! i = (if i < packet_size sp then 0 else packet_data sp ! i))"
proof -
  have "m_size sp \<le> length (m_buf sp)" "length (m_buf sp) = BUF_SIZE"
    using assms by (simp_all add: packet_inv_def)
  then show ?thesis
    using pkt.reset_empty[OF assms]
    by (auto simp: reset_def packet_data_def packet_size_def memcpy_at_def nth_append)
qed

text \<open>
  A string shorter than the buffer that is written to an emptied packet is what
  \<^verbatim>\<open>to_string\<close> gives back.
\<close>

lemma string_round_trip:
  assumes "packet_inv sp" and "length s < 4096"
  shows "\<exists>sp'. append_string (reset sp) s = Inr sp' \<and> packet_to_string sp' = s"
proof -
  have "packet_inv (reset sp)" "contents (reset sp) = []" using pkt.reset_empty[OF assms(1)] by simp_all
  with pkt.append_fits[of "reset sp" "bytes_of_string s"] assms(2) obtain sp' where
    "append_bytes (reset sp) (bytes_of_string s) = Inr sp'" "contents sp' = bytes_of_string s"
    by (auto simp: BUF_SIZE_def)
  then show ?thesis
    by (simp add: append_string_def packet_to_string_def contents_def packet_size_def packet_data_def)
qed

text \<open>An empty packet in cleared memory.\<close>

definition empty_packet :: send_packet where
  "empty_packet = new_send_packet (replicate BUF_SIZE 0)"

lemma empty_packet [simp]: "packet_inv empty_packet" "contents empty_packet = []"
  by (simp_all add: empty_packet_def packet_inv_new)

theorem append_pieces_witness:
  "foldE append_bytes empty_packet [replicate 4000 1, replicate 96 2] = Inl Assertion_failed"
  using append_pieces[OF empty_packet(1), of "[replicate 4000 1, replicate 96 2]"] by simp

end
