(* ===== verification/NetworkProtocols.thy ===== *)
theory NetworkProtocols
  imports Prelude
begin

text \<open>
  \<^verbatim>\<open>include/iuring/NetworkProtocols.hpp\<close> and \<^verbatim>\<open>SocketPortID.hpp\<close>: the enumerations
  of the interface.  An \<^verbatim>\<open>enum class\<close> over a fixed integer type is that integer
  type with named constants, since a cast may give it any value of the type (the
  code casts arbitrary port numbers to \<^verbatim>\<open>SocketPortID\<close>).  Also the constants of
  the Linux interface that the code compares against.
\<close>

section \<open>Sockets\<close>

datatype SocketKind =
    MULTICAST_PACKET_SOCKET
  | SERVER_STREAM_SOCKET
  | UNICAST_CLIENT_SOCKET

datatype SocketType =
    SocketType_UNKNOWN
  | IPV4_UDP
  | IPV4_TCP
  | IPV6_UDP
  | IPV6_TCP

type_synonym SocketPortID = "16 word"

definition UNENCRYPTED_WEB_PORT :: SocketPortID where "UNENCRYPTED_WEB_PORT = 80"
definition PTP_PORT_EVENT :: SocketPortID where "PTP_PORT_EVENT = 319"
definition PTP_PORT_GENERAL :: SocketPortID where "PTP_PORT_GENERAL = 320"
definition ENCRYPTED_WEB_PORT :: SocketPortID where "ENCRYPTED_WEB_PORT = 443"
definition LAST_PRIVILEDGED_PORT_ID :: SocketPortID where "LAST_PRIVILEDGED_PORT_ID = 1024"
definition RTP_AUDIO_PORT :: SocketPortID where "RTP_AUDIO_PORT = 5004"
definition MDNS_PORT :: SocketPortID where "MDNS_PORT = 5353"
definition LOCAL_WEB_PORT :: SocketPortID where "LOCAL_WEB_PORT = 8443"
definition SAP_PORT_EVENT :: SocketPortID where "SAP_PORT_EVENT = 9875"
definition PORT_UNKNOWN :: SocketPortID where "PORT_UNKNOWN = 0xffff"

lemmas port_defs = UNENCRYPTED_WEB_PORT_def PTP_PORT_EVENT_def PTP_PORT_GENERAL_def
  ENCRYPTED_WEB_PORT_def LAST_PRIVILEDGED_PORT_ID_def RTP_AUDIO_PORT_def MDNS_PORT_def
  LOCAL_WEB_PORT_def SAP_PORT_EVENT_def PORT_UNKNOWN_def

section \<open>Quality of service\<close>

type_synonym timetolive_t = "8 word"

definition PTP_TTL :: timetolive_t where "PTP_TTL = 16"
definition RTP_TTL :: timetolive_t where "RTP_TTL = 32"
definition NORMAL_TTL :: timetolive_t where "NORMAL_TTL = 58"
definition MDNS_TTL :: timetolive_t where "MDNS_TTL = 255"

text \<open>The enumerators of \<^verbatim>\<open>dscp_t\<close>, in the order of the source, with their values.\<close>

type_synonym dscp_t = "8 word"

definition CS0 :: dscp_t where "CS0 = 0"
definition CS1 :: dscp_t where "CS1 = 8"
definition CS2 :: dscp_t where "CS2 = 16"
definition CS3 :: dscp_t where "CS3 = 24"
definition CS4 :: dscp_t where "CS4 = 32"
definition CS5 :: dscp_t where "CS5 = 40"
definition CS6 :: dscp_t where "CS6 = 48"
definition CS7 :: dscp_t where "CS7 = 56"
definition AF11 :: dscp_t where "AF11 = 10"
definition AF12 :: dscp_t where "AF12 = 12"
definition AF13 :: dscp_t where "AF13 = 14"
definition AF21 :: dscp_t where "AF21 = 18"
definition AF22 :: dscp_t where "AF22 = 20"
definition AF23 :: dscp_t where "AF23 = 22"
definition AF31 :: dscp_t where "AF31 = 26"
definition AF32 :: dscp_t where "AF32 = 28"
definition AF33 :: dscp_t where "AF33 = 30"
definition AF41 :: dscp_t where "AF41 = 34"
definition AF42 :: dscp_t where "AF42 = 36"
definition AF43 :: dscp_t where "AF43 = 38"
definition VOICE_ADMIT :: dscp_t where "VOICE_ADMIT = 44"
definition EXPEDITED_FORWARDING :: dscp_t where "EXPEDITED_FORWARDING = 46"
definition BEST_EFFORT :: dscp_t where "BEST_EFFORT = CS0"
definition AES67_PTP_EVENT :: dscp_t where "AES67_PTP_EVENT = EXPEDITED_FORWARDING"
definition AES67_PTP_GENERAL :: dscp_t where "AES67_PTP_GENERAL = BEST_EFFORT"
definition AES67_RTP :: dscp_t where "AES67_RTP = AF41"
definition RAV_DANTE_PTP_EVENT :: dscp_t where "RAV_DANTE_PTP_EVENT = CS6"
definition RAV_DANTE_PTP_GENERAL :: dscp_t where "RAV_DANTE_PTP_GENERAL = BEST_EFFORT"
definition RAV_DANTE_RTP :: dscp_t where "RAV_DANTE_RTP = EXPEDITED_FORWARDING"

lemmas dscp_defs = CS0_def CS1_def CS2_def CS3_def CS4_def CS5_def CS6_def CS7_def AF11_def AF12_def AF13_def
  AF21_def AF22_def AF23_def AF31_def AF32_def AF33_def AF41_def AF42_def AF43_def
  VOICE_ADMIT_def EXPEDITED_FORWARDING_def BEST_EFFORT_def AES67_PTP_EVENT_def AES67_PTP_GENERAL_def
  AES67_RTP_def RAV_DANTE_PTP_EVENT_def RAV_DANTE_PTP_GENERAL_def RAV_DANTE_RTP_def

definition dscp_classes :: "dscp_t list" where
  "dscp_classes = [CS0, CS1, CS2, CS3, CS4, CS5, CS6, CS7, AF11, AF12, AF13,
     AF21, AF22, AF23, AF31, AF32, AF33, AF41, AF42, AF43,
     VOICE_ADMIT, EXPEDITED_FORWARDING, BEST_EFFORT, AES67_PTP_EVENT, AES67_PTP_GENERAL,
     AES67_RTP, RAV_DANTE_PTP_EVENT, RAV_DANTE_PTP_GENERAL, RAV_DANTE_RTP]"

text \<open>Every named class fits into the six bits of the DSCP field.\<close>

lemma dscp_classes_six_bits: "\<forall>d \<in> set dscp_classes. unat d < 64"
  by (simp add: dscp_classes_def dscp_defs)

section \<open>Constants of the Linux interface\<close>

definition AF_INET :: "16 word" where "AF_INET = 2"
definition AF_INET6 :: "16 word" where "AF_INET6 = 10"

definition EAGAIN :: int where "EAGAIN = 11"
definition EFAULT :: int where "EFAULT = 14"
definition EINVAL :: int where "EINVAL = 22"
definition ECONNRESET :: int where "ECONNRESET = 104"
definition ENOBUFS :: int where "ENOBUFS = 105"

text \<open>\<^verbatim>\<open>EAI_INTR\<close> of \<^verbatim>\<open><netdb.h>\<close> is a resolver error, not an \<^verbatim>\<open>errno\<close> value.\<close>

definition EAI_INTR :: int where "EAI_INTR = -104"

lemmas errno_defs = EAGAIN_def EFAULT_def EINVAL_def ECONNRESET_def ENOBUFS_def EAI_INTR_def

definition IORING_CQE_F_BUFFER :: "32 word" where "IORING_CQE_F_BUFFER = 1"
definition IORING_CQE_F_MORE :: "32 word" where "IORING_CQE_F_MORE = 2"

definition IOSQE_IO_LINK :: "8 word" where "IOSQE_IO_LINK = 4"
definition IOSQE_BUFFER_SELECT :: "8 word" where "IOSQE_BUFFER_SELECT = 32"

definition MSG_TRUNC :: "32 word" where "MSG_TRUNC = 0x20"

definition IPPROTO_IP :: int where "IPPROTO_IP = 0"
definition IP_TOS :: int where "IP_TOS = 1"
definition IP_TTL :: int where "IP_TTL = 2"

definition sizeof_sockaddr_in :: nat where "sizeof_sockaddr_in = 16"
definition sizeof_sockaddr_in6 :: nat where "sizeof_sockaddr_in6 = 28"
definition sizeof_sockaddr_storage :: nat where "sizeof_sockaddr_storage = 128"

lemmas sizeof_defs = sizeof_sockaddr_in_def sizeof_sockaddr_in6_def sizeof_sockaddr_storage_def

end
