(* ===== verification/IPAddress.thy ===== *)
theory IPAddress
  imports NetworkProtocols
begin

text \<open>
  \<^verbatim>\<open>include/iuring/IPAddress.hpp\<close> and \<^verbatim>\<open>src/IPAddress.cpp\<close>: an address is an optional
  \<^verbatim>\<open>sockaddr_in\<close> and an optional \<^verbatim>\<open>sockaddr_in6\<close>.  The socket address structures have
  the layout of Linux; ports are kept in network byte order in them, as in the code.
  Memory that the code leaves uninitialised is an argument \<open>junk\<close> of the definition.
\<close>

section \<open>Socket address structures\<close>

record sockaddr_in =
  sin_family :: "16 word"
  sin_port :: "16 word"
  sin_addr :: "32 word"  \<comment> \<open>\<^verbatim>\<open>s_addr\<close>, as the host reads it\<close>
  sin_zero :: "64 word"

text \<open>The union \<^verbatim>\<open>__in6_u\<close>, in its view as four 32-bit words.\<close>

record in6_addr =
  u6_addr32_0 :: "32 word"
  u6_addr32_1 :: "32 word"
  u6_addr32_2 :: "32 word"
  u6_addr32_3 :: "32 word"

record sockaddr_in6 =
  sin6_family :: "16 word"
  sin6_port :: "16 word"
  sin6_flowinfo :: "32 word"
  sin6_addr :: in6_addr
  sin6_scope_id :: "32 word"

definition in6_bytes :: "in6_addr \<Rightarrow> byte list" where
  "in6_bytes a = le_bytes 4 (u6_addr32_0 a) @ le_bytes 4 (u6_addr32_1 a)
     @ le_bytes 4 (u6_addr32_2 a) @ le_bytes 4 (u6_addr32_3 a)"

definition in6_of_bytes :: "byte list \<Rightarrow> in6_addr" where
  "in6_of_bytes bs = \<lparr>u6_addr32_0 = of_le (take 4 bs), u6_addr32_1 = of_le (take 4 (drop 4 bs)),
     u6_addr32_2 = of_le (take 4 (drop 8 bs)), u6_addr32_3 = of_le (take 4 (drop 12 bs))\<rparr>"

definition sockaddr_in_bytes :: "sockaddr_in \<Rightarrow> byte list" where
  "sockaddr_in_bytes sa = le_bytes 2 (sin_family sa) @ le_bytes 2 (sin_port sa)
     @ le_bytes 4 (sin_addr sa) @ le_bytes 8 (sin_zero sa)"

definition sockaddr_in6_bytes :: "sockaddr_in6 \<Rightarrow> byte list" where
  "sockaddr_in6_bytes sa = le_bytes 2 (sin6_family sa) @ le_bytes 2 (sin6_port sa)
     @ le_bytes 4 (sin6_flowinfo sa) @ in6_bytes (sin6_addr sa) @ le_bytes 4 (sin6_scope_id sa)"

text \<open>
  \<^verbatim>\<open>*(sockaddr_in*) p\<close> and \<^verbatim>\<open>*(sockaddr_in6*) p\<close>: what a read through a cast pointer gives.
\<close>

definition sockaddr_in_of_bytes :: "byte list \<Rightarrow> sockaddr_in" where
  "sockaddr_in_of_bytes bs = \<lparr>sin_family = of_le (take 2 bs), sin_port = of_le (take 2 (drop 2 bs)),
     sin_addr = of_le (take 4 (drop 4 bs)), sin_zero = of_le (take 8 (drop 8 bs))\<rparr>"

definition sockaddr_in6_of_bytes :: "byte list \<Rightarrow> sockaddr_in6" where
  "sockaddr_in6_of_bytes bs = \<lparr>sin6_family = of_le (take 2 bs), sin6_port = of_le (take 2 (drop 2 bs)),
     sin6_flowinfo = of_le (take 4 (drop 4 bs)), sin6_addr = in6_of_bytes (take 16 (drop 8 bs)),
     sin6_scope_id = of_le (take 4 (drop 24 bs))\<rparr>"

lemma length_sockaddr_bytes [simp]:
  "length (in6_bytes a) = 16"
  "length (sockaddr_in_bytes sa) = sizeof_sockaddr_in"
  "length (sockaddr_in6_bytes sa6) = sizeof_sockaddr_in6"
  by (simp_all add: in6_bytes_def sockaddr_in_bytes_def sockaddr_in6_bytes_def sizeof_defs)

text \<open>A structure is read back from the memory it was copied to, whatever follows it there.\<close>

lemma in6_of_bytes_append [simp]: "in6_of_bytes (in6_bytes a) = a"
  by (simp add: in6_of_bytes_def in6_bytes_def)

lemma sockaddr_in_of_bytes_append [simp]:
  "sockaddr_in_of_bytes (sockaddr_in_bytes sa @ rest) = sa"
  by (simp add: sockaddr_in_of_bytes_def sockaddr_in_bytes_def)

lemma sockaddr_in6_of_bytes_append [simp]:
  "sockaddr_in6_of_bytes (sockaddr_in6_bytes sa @ rest) = sa"
  by (simp add: sockaddr_in6_of_bytes_def sockaddr_in6_bytes_def)

section \<open>The class\<close>

record IPAddress =
  m_in4 :: "sockaddr_in option"
  m_in6 :: "sockaddr_in6 option"

definition IPAddress_default :: IPAddress where
  "IPAddress_default = \<lparr>m_in4 = None, m_in6 = None\<rparr>"

text \<open>
  \<^verbatim>\<open>IPAddress(const in_addr&, SocketPortID)\<close>: the \<^verbatim>\<open>memset\<close> clears \<^verbatim>\<open>sizeof(sa)\<close> bytes,
  which is the size of the \<^verbatim>\<open>in_addr\<close> argument (4) and not of the structure (16), so
  \<^verbatim>\<open>sin_zero\<close> keeps the \<open>junk\<close> of the stack.
\<close>

definition IPAddress_of_in_addr :: "byte list \<Rightarrow> 32 word \<Rightarrow> SocketPortID \<Rightarrow> IPAddress" where
  "IPAddress_of_in_addr junk sa port =
     (let sa_in = sockaddr_in_of_bytes (memcpy_at 0 (replicate 4 0) junk);
          sa_in = sa_in\<lparr>sin_family := AF_INET\<rparr>;
          sa_in = sa_in\<lparr>sin_port := htons port\<rparr>;
          sa_in = sa_in\<lparr>sin_addr := sa\<rparr>
      in \<lparr>m_in4 = Some sa_in, m_in6 = None\<rparr>)"

text \<open>
  \<^verbatim>\<open>IPAddress(const in6_addr&, SocketPortID)\<close>: here \<^verbatim>\<open>sizeof(sa)\<close> is 16 and the structure
  has 28 bytes, so \<^verbatim>\<open>sin6_scope_id\<close> stays uninitialised.
\<close>

definition IPAddress_of_in6_addr :: "byte list \<Rightarrow> in6_addr \<Rightarrow> SocketPortID \<Rightarrow> IPAddress" where
  "IPAddress_of_in6_addr junk sa port =
     (let sa_in = sockaddr_in6_of_bytes (memcpy_at 0 (replicate 16 0) junk);
          sa_in = sa_in\<lparr>sin6_family := AF_INET6\<rparr>;
          sa_in = sa_in\<lparr>sin6_port := htons port\<rparr>;
          sa_in = sa_in\<lparr>sin6_addr := sa\<rparr>
      in \<lparr>m_in4 = None, m_in6 = Some sa_in\<rparr>)"

definition IPAddress_of_sockaddr_in :: "sockaddr_in \<Rightarrow> IPAddress" where
  "IPAddress_of_sockaddr_in sa = \<lparr>m_in4 = Some sa, m_in6 = None\<rparr>"

definition IPAddress_of_sockaddr_in6 :: "sockaddr_in6 \<Rightarrow> IPAddress" where
  "IPAddress_of_sockaddr_in6 sa = \<lparr>m_in4 = None, m_in6 = Some sa\<rparr>"

text \<open>
  \<^verbatim>\<open>IPAddress(const sockaddr_storage&, socklen_t)\<close>, with the two conditional operators
  as they are written: each field is absent exactly when the length is its own size.
\<close>

definition IPAddress_of_storage :: "byte list \<Rightarrow> nat \<Rightarrow> IPAddress res" where
  "IPAddress_of_storage sa len =
     (let a = \<lparr>m_in4 = (if len = sizeof_sockaddr_in then None else Some (sockaddr_in_of_bytes sa)),
               m_in6 = (if len = sizeof_sockaddr_in6 then None else Some (sockaddr_in6_of_bytes sa))\<rparr>
      in bindE (assertE (len = sizeof_sockaddr_in \<or> len = sizeof_sockaddr_in6)) (\<lambda>_. Inr a))"

text \<open>The two readers: the socket address of the family, or no pointer.\<close>

definition get_ipv4 :: "IPAddress \<Rightarrow> sockaddr_in option" where
  [simp]: "get_ipv4 a = m_in4 a"

definition get_ipv6 :: "IPAddress \<Rightarrow> sockaddr_in6 option" where
  [simp]: "get_ipv6 a = m_in6 a"

text \<open>A pointer to the inside of the object is the memory it points to and the way to write it.\<close>

definition get_mut_ipv4 :: "IPAddress \<Rightarrow> (sockaddr_in \<times> (sockaddr_in \<Rightarrow> IPAddress)) option" where
  [simp]: "get_mut_ipv4 a = (case m_in4 a of
     Some sa \<Rightarrow> Some (sa, \<lambda>sa'. a\<lparr>m_in4 := Some sa'\<rparr>)
   | None \<Rightarrow> None)"

definition get_mut_ipv6 :: "IPAddress \<Rightarrow> (sockaddr_in6 \<times> (sockaddr_in6 \<Rightarrow> IPAddress)) option" where
  [simp]: "get_mut_ipv6 a = (case m_in6 a of
     Some sa \<Rightarrow> Some (sa, \<lambda>sa'. a\<lparr>m_in6 := Some sa'\<rparr>)
   | None \<Rightarrow> None)"

definition set_port :: "IPAddress \<Rightarrow> SocketPortID \<Rightarrow> IPAddress res" where
  "set_port a port =
     (case get_mut_ipv4 a of
        Some (sa, write) \<Rightarrow> Inr (write (sa\<lparr>sin_port := htons port\<rparr>))
      | None \<Rightarrow> (case get_mut_ipv6 a of
          Some (sa, write) \<Rightarrow> Inr (write (sa\<lparr>sin6_port := htons port\<rparr>))
        | None \<Rightarrow> Inl Aborted))"

definition get_port :: "IPAddress \<Rightarrow> SocketPortID res" where
  "get_port a =
     (case get_ipv4 a of
        Some sa \<Rightarrow> Inr (htons (sin_port sa))
      | None \<Rightarrow> (case get_ipv6 a of
          Some sa \<Rightarrow> Inr (htons (sin6_port sa))
        | None \<Rightarrow> Inl Aborted))"

definition valid :: "IPAddress \<Rightarrow> bool" where
  "valid a \<longleftrightarrow> get_ipv4 a \<noteq> None \<or> get_ipv6 a \<noteq> None"

text \<open>
  \<^verbatim>\<open>data_sockaddr\<close> and \<^verbatim>\<open>size_sockaddr\<close>: a pointer is the memory it points to.
\<close>

definition data_sockaddr :: "IPAddress \<Rightarrow> byte list res" where
  "data_sockaddr a =
     (case get_ipv4 a of
        Some sa \<Rightarrow> Inr (sockaddr_in_bytes sa)
      | None \<Rightarrow> (case get_ipv6 a of Some sa \<Rightarrow> Inr (sockaddr_in6_bytes sa) | None \<Rightarrow> Inl Aborted))"

definition size_sockaddr :: "IPAddress \<Rightarrow> nat res" where
  "size_sockaddr a =
     (case get_ipv4 a of
        Some sa \<Rightarrow> Inr sizeof_sockaddr_in
      | None \<Rightarrow> (case get_ipv6 a of Some sa \<Rightarrow> Inr sizeof_sockaddr_in6 | None \<Rightarrow> Inl Aborted))"

definition data_addr :: "IPAddress \<Rightarrow> byte list res" where
  "data_addr a =
     (case get_ipv4 a of
        Some sa \<Rightarrow> Inr (le_bytes 4 (sin_addr sa))
      | None \<Rightarrow> (case get_ipv6 a of Some sa \<Rightarrow> Inr (in6_bytes (sin6_addr sa)) | None \<Rightarrow> Inl Aborted))"

definition size_addr :: "IPAddress \<Rightarrow> nat res" where
  "size_addr a =
     (case get_ipv4 a of
        Some sa \<Rightarrow> Inr 4
      | None \<Rightarrow> (case get_ipv6 a of Some sa \<Rightarrow> Inr 16 | None \<Rightarrow> Inl Aborted))"

definition get_hash :: "IPAddress \<Rightarrow> 64 word res" where
  "get_hash a =
     (case get_ipv4 a of
        Some sa \<Rightarrow> Inr (ucast (sin_addr sa))
      | None \<Rightarrow> (case get_ipv6 a of
          Some sa \<Rightarrow>
            (let a0 = ucast (u6_addr32_0 (sin6_addr sa)); a1 = ucast (u6_addr32_1 (sin6_addr sa));
                 a2 = ucast (u6_addr32_2 (sin6_addr sa)); a3 = ucast (u6_addr32_3 (sin6_addr sa))
             in Inr (push_bit 0 a0 OR push_bit 32 a1 OR push_bit 0 a2 OR push_bit 32 a3))
        | None \<Rightarrow> Inl Aborted))"

text \<open>\<^verbatim>\<open>operator ==\<close>; \<^verbatim>\<open>memcmp\<close> of two addresses of the same type compares their bytes.\<close>

definition ip_eq :: "IPAddress \<Rightarrow> IPAddress \<Rightarrow> bool" where
  "ip_eq a b =
     (case (m_in4 a, m_in4 b) of
        (Some v1, Some v2) \<Rightarrow>
          sin_port v1 = sin_port v2 \<and>
          le_bytes 4 (sin_addr v1) = le_bytes 4 (sin_addr v2) \<and>
          sin_family v1 = sin_family v2
      | _ \<Rightarrow> (case (m_in6 a, m_in6 b) of
          (Some v1, Some v2) \<Rightarrow>
            sin6_port v1 = sin6_port v2 \<and>
            in6_bytes (sin6_addr v1) = in6_bytes (sin6_addr v2) \<and>
            sin6_family v1 = sin6_family v2
        | _ \<Rightarrow> False))"

text \<open>\<^verbatim>\<open>operator <\<close>\<close>

definition ip_less :: "IPAddress \<Rightarrow> IPAddress \<Rightarrow> bool res" where
  "ip_less a b = bindE (get_hash a) (\<lambda>h1. bindE (get_hash b) (\<lambda>h2. Inr (h1 < h2)))"

section \<open>What the class promises\<close>

text \<open>
  Every constructor but the one from \<^verbatim>\<open>sockaddr_storage\<close> makes an address of one family.
\<close>

definition one_family :: "IPAddress \<Rightarrow> bool" where
  "one_family a \<longleftrightarrow> (m_in4 a = None) \<noteq> (m_in6 a = None)"

lemma one_family_constructors [intro, simp]:
  "one_family (IPAddress_of_in_addr junk sa p)" "one_family (IPAddress_of_in6_addr junk sa6 p)"
  "one_family (IPAddress_of_sockaddr_in s)" "one_family (IPAddress_of_sockaddr_in6 s6)"
  by (simp_all add: one_family_def IPAddress_of_in_addr_def IPAddress_of_in6_addr_def
      IPAddress_of_sockaddr_in_def IPAddress_of_sockaddr_in6_def Let_def)

lemma one_family_cases [consumes 1, case_names v4 v6]:
  assumes "one_family a"
  obtains sa where "a = IPAddress_of_sockaddr_in sa"
    | sa where "a = IPAddress_of_sockaddr_in6 sa"
  using assms
  by (cases a; cases "m_in4 a"; cases "m_in6 a")
    (auto simp: one_family_def IPAddress_of_sockaddr_in_def IPAddress_of_sockaddr_in6_def)

lemmas address_constructors = IPAddress_of_sockaddr_in_def IPAddress_of_sockaddr_in6_def
lemmas address_readers = set_port_def get_port_def valid_def data_sockaddr_def size_sockaddr_def
  data_addr_def size_addr_def get_hash_def

lemma le_bytes_inject:
  assumes "LENGTH('a) \<le> 8 * n"
  shows "le_bytes n (v :: 'a::len word) = le_bytes n w \<longleftrightarrow> v = w"
  using of_le_le_bytes[OF assms, of v] of_le_le_bytes[OF assms, of w] by metis

lemma in6_bytes_inject [simp]: "in6_bytes a = in6_bytes b \<longleftrightarrow> a = b"
  by (metis in6_of_bytes_append)

lemma le_bytes_4_inject [simp]: "le_bytes 4 (v :: 32 word) = le_bytes 4 w \<longleftrightarrow> v = w"
  by (rule le_bytes_inject) simp

lemma in_addr_memory:
  assumes "length junk = sizeof_sockaddr_in"
  shows "data_sockaddr (IPAddress_of_in_addr junk sa p)
    = Inr (le_bytes 2 AF_INET @ rev (le_bytes 2 p) @ le_bytes 4 sa @ drop 8 junk)"
proof -
  have "le_bytes 8 (of_le (drop 8 junk) :: 64 word) = drop 8 junk"
    using le_bytes_of_le[of "drop 8 junk", where 'a = 64] assms by (simp add: sizeof_defs)
  moreover have "drop 4 (memcpy_at 0 (replicate 4 0) junk) = drop 4 junk"
    using assms by (simp add: memcpy_at_def)
  ultimately show ?thesis
    using assms by (simp add: data_sockaddr_def IPAddress_of_in_addr_def sockaddr_in_of_bytes_def
        sockaddr_in_bytes_def le_bytes_htons memcpy_at_def sizeof_defs)
qed

lemma memory_read_back:
  "bindE (data_sockaddr (IPAddress_of_in_addr junk sa p))
     (\<lambda>m. Inr (IPAddress_of_sockaddr_in (sockaddr_in_of_bytes m)))
   = Inr (IPAddress_of_in_addr junk sa p)"
  "bindE (data_sockaddr (IPAddress_of_in6_addr junk6 sa6 p))
     (\<lambda>m. Inr (IPAddress_of_sockaddr_in6 (sockaddr_in6_of_bytes m)))
   = Inr (IPAddress_of_in6_addr junk6 sa6 p)"
  using sockaddr_in_of_bytes_append[where rest = "[]"] sockaddr_in6_of_bytes_append[where rest = "[]"]
  by (simp_all add: data_sockaddr_def IPAddress_of_in_addr_def IPAddress_of_in6_addr_def
      address_constructors del: sockaddr_in_of_bytes_append sockaddr_in6_of_bytes_append)

lemma in6_addr_memory:
  assumes "length junk = sizeof_sockaddr_in6"
  shows "data_sockaddr (IPAddress_of_in6_addr junk sa p)
    = Inr (le_bytes 2 AF_INET6 @ rev (le_bytes 2 p) @ [0, 0, 0, 0] @ in6_bytes sa @ drop 24 junk)"
proof -
  have "le_bytes 4 (of_le (drop 24 junk) :: 32 word) = drop 24 junk"
    using le_bytes_of_le[of "drop 24 junk", where 'a = 32] assms by (simp add: sizeof_defs)
  moreover have "le_bytes 4 (0 :: 32 word) = [0, 0, 0, 0]"
    by (simp add: le_bytes_def upt_rec)
  moreover have "replicate 4 (0 :: byte) = [0, 0, 0, 0]" by (simp add: eval_nat_numeral)
  ultimately show ?thesis
    using assms by (simp add: data_sockaddr_def IPAddress_of_in6_addr_def sockaddr_in6_of_bytes_def
        sockaddr_in6_bytes_def le_bytes_htons memcpy_at_def sizeof_defs)
qed

lemma socket_address_prefix:
  "take 4 (sockaddr_in_bytes s) = take 4 (sockaddr_in_bytes t)
     \<longleftrightarrow> sin_family s = sin_family t \<and> sin_port s = sin_port t"
  "take 4 (sockaddr_in6_bytes s6) = take 4 (sockaddr_in6_bytes t6)
     \<longleftrightarrow> sin6_family s6 = sin6_family t6 \<and> sin6_port s6 = sin6_port t6"
  by (simp_all add: sockaddr_in_bytes_def sockaddr_in6_bytes_def le_bytes_inject)

text \<open>The address with the two halves of its four words exchanged.\<close>

definition swap_halves :: "sockaddr_in6 \<Rightarrow> sockaddr_in6" where
  "swap_halves s = s\<lparr>sin6_addr :=
     \<lparr>u6_addr32_0 = u6_addr32_2 (sin6_addr s), u6_addr32_1 = u6_addr32_3 (sin6_addr s),
      u6_addr32_2 = u6_addr32_0 (sin6_addr s), u6_addr32_3 = u6_addr32_1 (sin6_addr s)\<rparr>\<rparr>"

lemma one_family_hash: "\<exists>h. \<forall>a. one_family a \<longrightarrow> get_hash a = Inr (h a)"
proof (intro exI allI impI)
  fix a assume "one_family a"
  then show "get_hash a = Inr ((\<lambda>a. projr (get_hash a)) a)"
    by (cases rule: one_family_cases) (simp_all add: get_hash_def address_constructors Let_def)
qed

lemma hash_swap_halves:
  "get_hash (IPAddress_of_sockaddr_in6 (swap_halves s)) = get_hash (IPAddress_of_sockaddr_in6 s)"
  by (simp add: get_hash_def address_constructors swap_halves_def Let_def ac_simps)

lemma equal_same_hash:
  assumes "ip_eq a b" and "one_family a" and "one_family b"
  shows "get_hash a = get_hash b"
  using assms by (auto simp: ip_eq_def get_hash_def one_family_def split: option.splits)

lemma ucast_32_64_inject [simp]: "(ucast (v :: 32 word) :: 64 word) = ucast w \<longleftrightarrow> v = w"
proof
  assume "(ucast v :: 64 word) = ucast w"
  then have "(ucast (ucast v :: 64 word) :: 32 word) = ucast (ucast w :: 64 word)" by simp
  then show "v = w" by (simp add: ucast_up_ucast_id is_up)
qed simp

lemma hash_v4:
  assumes "m_in4 a \<noteq> None" and "m_in4 b \<noteq> None"
  shows "get_hash a = get_hash b \<longleftrightarrow> data_addr a = data_addr b"
  using assms by (auto simp: get_hash_def data_addr_def)

text \<open>
  \<^verbatim>\<open>set_port\<close> then \<^verbatim>\<open>get_port\<close> gives the port back, in whatever family, and changes
  nothing else: the address and its length stay, and setting the former port again
  restores the whole value.  On an address of no family both abort.
\<close>

lemma set_port_get_port:
  "if valid a
   then (\<exists>a' old. set_port a p = Inr a' \<and> get_port a' = Inr p
          \<and> data_addr a' = data_addr a \<and> size_sockaddr a' = size_sockaddr a
          \<and> get_port a = Inr old \<and> set_port a' old = Inr a)
   else set_port a p = Inl Aborted \<and> get_port a = Inl Aborted"
  by (cases a; cases "m_in4 a"; cases "m_in6 a") (auto simp: address_readers)

text \<open>
  C39: The memory of an address built from an \<^verbatim>\<open>in_addr\<close> or an \<^verbatim>\<open>in6_addr\<close> and a port, as it
  goes to the kernel: family, port in network order and address are right for every
  argument, reading the memory back gives the same structure, but the trailing bytes
  (\<^verbatim>\<open>sin_zero\<close>, \<^verbatim>\<open>sin6_scope_id\<close>) are whatever the stack held, since \<^verbatim>\<open>memset\<close>
  clears \<^verbatim>\<open>sizeof(sa)\<close> bytes of the wrong object.
\<close>

theorem constructed_address_memory:
  assumes "length junk = sizeof_sockaddr_in" and "length junk6 = sizeof_sockaddr_in6"
  shows "data_sockaddr (IPAddress_of_in_addr junk sa p)
           = Inr (le_bytes 2 AF_INET @ rev (le_bytes 2 p) @ le_bytes 4 sa @ drop 8 junk)
       \<and> data_sockaddr (IPAddress_of_in6_addr junk6 sa6 p)
           = Inr (le_bytes 2 AF_INET6 @ rev (le_bytes 2 p) @ [0, 0, 0, 0] @ in6_bytes sa6 @ drop 24 junk6)
       \<and> bindE (data_sockaddr (IPAddress_of_in_addr junk sa p))
           (\<lambda>m. Inr (IPAddress_of_sockaddr_in (sockaddr_in_of_bytes m)))
         = Inr (IPAddress_of_in_addr junk sa p)
       \<and> bindE (data_sockaddr (IPAddress_of_in6_addr junk6 sa6 p))
           (\<lambda>m. Inr (IPAddress_of_sockaddr_in6 (sockaddr_in6_of_bytes m)))
         = Inr (IPAddress_of_in6_addr junk6 sa6 p)"
  by (intro conjI in_addr_memory[OF assms(1)] in6_addr_memory[OF assms(2)] memory_read_back)

theorem constructed_address_memory_witness:
  "data_sockaddr (IPAddress_of_in_addr (replicate 16 0xcc) 0x0100007f 8080)
     = Inr ([2, 0] @ [0x1f, 0x90] @ [0x7f, 0, 0, 1] @ replicate 8 0xcc)"
proof -
  have eqs: "le_bytes 2 AF_INET = [2, 0]" "rev (le_bytes 2 (8080 :: 16 word)) = [0x1f, 0x90]"
    "le_bytes 4 (0x0100007f :: 32 word) = [0x7f, 0, 0, 1]"
    by (simp_all add: AF_INET_def) code_simp+
  show ?thesis
    using constructed_address_memory[of "replicate 16 0xcc" "replicate 28 0xcc",
        where sa = "0x0100007f" and p = 8080]
    unfolding eqs by (simp add: sizeof_defs)
qed

text \<open>
  Equality of addresses of one family: two are equal exactly when the kind of socket
  address, the family and port stored in it (its first four bytes) and the address agree
  byte by byte; the other fields of the structures do not matter.
\<close>

lemma address_equality:
  assumes "one_family a" and "one_family b"
  shows "ip_eq a b \<longleftrightarrow>
     (\<exists>m m'. data_sockaddr a = Inr m \<and> data_sockaddr b = Inr m' \<and> take 4 m = take 4 m'
        \<and> length m = length m')
     \<and> data_addr a = data_addr b"
  using assms(1)
proof (cases rule: one_family_cases)
  case (v4 sa)
  from assms(2) show ?thesis
    by (cases rule: one_family_cases)
      (auto simp: v4 ip_eq_def address_constructors data_sockaddr_def data_addr_def
        socket_address_prefix sizeof_defs)
next
  case (v6 sa)
  from assms(2) show ?thesis
    by (cases rule: one_family_cases)
      (auto simp: v6 ip_eq_def address_constructors data_sockaddr_def data_addr_def
        socket_address_prefix sizeof_defs)
qed

text \<open>
  C40: \<^verbatim>\<open>operator <\<close> is a strict weak order on the addresses of one family, and equal
  addresses are equivalent in it, so ordered containers are well behaved.  It does not
  agree with \<^verbatim>\<open>operator ==\<close>: it identifies IPv4 addresses whatever their ports, and
  identifies every IPv6 address with the one whose halves are swapped.
\<close>

theorem address_order:
  assumes "one_family a" and "one_family b" and "one_family c"
  shows "ip_less a a = Inr False
    \<and> (ip_less a b = Inr True \<and> ip_less b c = Inr True \<longrightarrow> ip_less a c = Inr True)
    \<and> (ip_less a b = Inr False \<and> ip_less b c = Inr False \<longrightarrow> ip_less a c = Inr False)
    \<and> (ip_eq a b \<longrightarrow> ip_less a b = Inr False)
    \<and> (m_in4 a \<noteq> None \<and> m_in4 b \<noteq> None \<longrightarrow>
         (ip_less a b = Inr False \<and> ip_less b a = Inr False \<longleftrightarrow> data_addr a = data_addr b))
    \<and> (\<forall>s. a = IPAddress_of_sockaddr_in6 s \<longrightarrow>
         ip_less a (IPAddress_of_sockaddr_in6 (swap_halves s)) = Inr False
         \<and> ip_less (IPAddress_of_sockaddr_in6 (swap_halves s)) a = Inr False)"
proof -
  obtain h where h: "\<And>x. one_family x \<Longrightarrow> get_hash x = Inr (h x)"
    using one_family_hash by blast
  have less: "ip_less x y = Inr (h x < h y)" if "one_family x" "one_family y" for x y
    by (simp add: ip_less_def h that)
  have swap: "h (IPAddress_of_sockaddr_in6 (swap_halves s)) = h (IPAddress_of_sockaddr_in6 s)" for s
    using h[of "IPAddress_of_sockaddr_in6 (swap_halves s)"] h[of "IPAddress_of_sockaddr_in6 s"]
    by (simp add: hash_swap_halves)
  have eq: "h a = h b" if "ip_eq a b" using equal_same_hash[OF that assms(1,2)] h assms by simp
  have v4: "h a = h b \<longleftrightarrow> data_addr a = data_addr b" if "m_in4 a \<noteq> None" "m_in4 b \<noteq> None"
    using hash_v4[OF that] h assms by simp
  show ?thesis using eq v4 by (auto simp: less assms swap)
qed

theorem address_order_witness:
  "ip_less (IPAddress_of_in_addr (replicate 16 0) 7 80) (IPAddress_of_in_addr (replicate 16 0) 7 443)
     = Inr False
   \<and> ip_less (IPAddress_of_in_addr (replicate 16 0) 7 443) (IPAddress_of_in_addr (replicate 16 0) 7 80)
     = Inr False"
  using address_order[of "IPAddress_of_in_addr (replicate 16 0) 7 80"
      "IPAddress_of_in_addr (replicate 16 0) 7 443" "IPAddress_of_in_addr (replicate 16 0) 7 80"]
  by (auto simp: data_addr_def IPAddress_of_in_addr_def one_family_def)

end
