(* ===== verification/Socket.thy ===== *)
theory Socket
  imports IPAddress
begin

text \<open>
  \<^verbatim>\<open>include/iuring/ISocket.hpp\<close>: the part of a socket that every implementation
  shares.  Type, port, kind and descriptor are set by the constructor and never
  change; the connection data is an opaque reference that the library only stores.
\<close>

record isocket =
  m_type :: SocketType
  m_port :: SocketPortID
  m_kind :: SocketKind
  m_fd :: int
  m_connection_data :: "nat option"

definition ISocket_new :: "SocketType \<Rightarrow> SocketPortID \<Rightarrow> SocketKind \<Rightarrow> int \<Rightarrow> isocket" where
  "ISocket_new type port kind fd =
     \<lparr>m_type = type, m_port = port, m_kind = kind, m_fd = fd, m_connection_data = None\<rparr>"

definition get_fd :: "isocket \<Rightarrow> int" where "get_fd s = m_fd s"

definition get_socket_port :: "isocket \<Rightarrow> SocketPortID" where "get_socket_port s = m_port s"

definition get_kind :: "isocket \<Rightarrow> SocketKind" where "get_kind s = m_kind s"

definition get_socket_type :: "isocket \<Rightarrow> SocketType" where "get_socket_type s = m_type s"

definition is_stream :: "isocket \<Rightarrow> bool" where
  "is_stream s =
     (case m_type s of
        IPV4_TCP \<Rightarrow> True
      | IPV6_TCP \<Rightarrow> True
      | SocketType_UNKNOWN \<Rightarrow> False
      | IPV4_UDP \<Rightarrow> False
      | IPV6_UDP \<Rightarrow> False)"

definition set_connection_data :: "nat option \<Rightarrow> isocket \<Rightarrow> isocket" where
  "set_connection_data d s = s\<lparr>m_connection_data := d\<rparr>"

definition get_connection_data :: "isocket \<Rightarrow> nat option" where
  "get_connection_data s = m_connection_data s"

lemmas socket_accessors = get_fd_def get_socket_port_def get_kind_def get_socket_type_def
  get_connection_data_def

lemma set_connection_data_frame [frame]:
  "get_connection_data (set_connection_data d s) = d"
  "get_fd (set_connection_data d s) = get_fd s"
  "get_kind (set_connection_data d s) = get_kind s"
  "get_socket_type (set_connection_data d s) = get_socket_type s"
  "get_socket_port (set_connection_data d s) = get_socket_port s"
  "is_stream (set_connection_data d s) = is_stream s"
  by (simp_all add: socket_accessors set_connection_data_def is_stream_def)

end
