(* ===== verification/WorkItem.thy ===== *)
theory WorkItem
  imports SendPacket Socket
begin

text \<open>
  \<^verbatim>\<open>include/iuring/IWorkItem.hpp\<close>, \<^verbatim>\<open>CompletionCallbacks.hpp\<close>, \<^verbatim>\<open>ReceivedMessage.hpp\<close>,
  \<^verbatim>\<open>src/WorkItem.hpp\<close> and \<^verbatim>\<open>src/WorkItem.cpp\<close>: one request to the kernel with the
  memory it refers to and the callback of its completion.  The object a work item
  is submitted to (the interface \<^verbatim>\<open>IOUringInterface\<close>) is the argument \<open>ring_submit\<close>,
  running a client's callback is the argument \<open>invoke\<close>.
\<close>

section \<open>Callbacks and their arguments\<close>

datatype ReceivePostAction = NONE | RE_SUBMIT

record ReceivedMessage =
  rm_data :: nat  \<comment> \<open>the address of the payload\<close>
  rm_size :: nat
  rm_source_address :: IPAddress

definition get_source_address :: "ReceivedMessage \<Rightarrow> IPAddress" where
  "get_source_address m = rm_source_address m"

definition msg_begin :: "ReceivedMessage \<Rightarrow> nat" where "msg_begin m = rm_data m"

definition msg_get_size :: "ReceivedMessage \<Rightarrow> nat" where "msg_get_size m = rm_size m"

definition msg_end :: "ReceivedMessage \<Rightarrow> nat" where "msg_end m = rm_data m + rm_size m"

definition msg_is_empty :: "ReceivedMessage \<Rightarrow> bool" where "msg_is_empty m \<longleftrightarrow> msg_get_size m = 0"

definition msg_to_string :: "(nat \<Rightarrow> byte) \<Rightarrow> ReceivedMessage \<Rightarrow> string" where
  "msg_to_string mem m = string_of_bytes (map mem [msg_begin m ..< msg_begin m + msg_get_size m])"

datatype cb_arg =
    AcceptResult int IPAddress
  | SendResult int
  | ConnectResult int IPAddress
  | CloseResult int
  | Received ReceivedMessage

text \<open>
  A \<^verbatim>\<open>std::function\<close> is empty (\<open>None\<close>) or some function of the client, known by its
  name.  The variant \<^verbatim>\<open>m_callback\<close> has the source's five alternatives.
\<close>

type_synonym func = "nat option"

datatype callback =
    Connect_cb func
  | Accept_cb func
  | Recv_cb func
  | Send_cb func
  | Close_cb func

text \<open>Running a client's function: it may change the state \<open>'s\<close> of the program.\<close>

type_synonym 's invoker = "nat \<Rightarrow> cb_arg \<Rightarrow> 's \<Rightarrow> ('s \<times> ReceivePostAction) res"

definition call_func :: "'s invoker \<Rightarrow> func \<Rightarrow> cb_arg \<Rightarrow> 's \<Rightarrow> ('s \<times> ReceivePostAction) res" where
  "call_func invoke f x s = (case f of None \<Rightarrow> Inl Bad_function_call | Some n \<Rightarrow> invoke n x s)"

section \<open>Parameters of the kernel request\<close>

record DatagramSendParameters =
  destination_address :: IPAddress
  dscp :: dscp_t
  ttl :: timetolive_t

datatype name_ptr = Name_null | Name_buffer_for_uring | Name_sa_in4 | Name_sa_in6

datatype iov_ptr = Iov_null | Iov_send_packet

record iovec =
  iov_base :: iov_ptr
  iov_len :: nat

record msghdr =
  msg_name :: name_ptr
  msg_namelen :: nat
  msg_iov_set :: bool  \<comment> \<open>\<^verbatim>\<open>msg_iov\<close> points to the array \<^verbatim>\<open>m_msg_iov\<close>, else it is null\<close>
  msg_iovlen :: nat
  msg_control_set :: bool  \<comment> \<open>\<^verbatim>\<open>msg_control\<close> points to \<^verbatim>\<open>m_control\<close>, else it is null\<close>
  msg_controllen :: nat
  msg_flags :: int

definition msghdr_zero :: msghdr where
  "msghdr_zero = \<lparr>msg_name = Name_null, msg_namelen = 0, msg_iov_set = False, msg_iovlen = 0,
     msg_control_set = False, msg_controllen = 0, msg_flags = 0\<rparr>"

section \<open>The class\<close>

datatype work_type =
    UNKNOWN
  | ACCEPT
  | SEND_STREAM_DATA
  | SEND_WORKPACKET
  | RECV
  | CONNECT
  | CLOSE

datatype item_state = IN_USE | FREE

record work_item =
  m_work_type :: work_type
  m_params :: DatagramSendParameters
  m_state :: item_state
  m_send_packet :: send_packet
  m_id :: nat
  m_callback :: callback
  m_control :: "byte list"
  m_socket :: isocket
  m_msg :: msghdr
  m_msg_iov :: iovec
  m_sa :: IPAddress
  m_buffer_for_uring :: "byte list"
  m_accept_sock_len :: nat
  m_connect_sock_len :: nat
  m_descr :: string
  m_link_to_next_request :: bool

text \<open>
  The constructor; the members without an initialiser keep what is in \<open>junk\<close> (the
  fields of \<^verbatim>\<open>m_params\<close> other than the address, the bytes of the send packet,
  \<^verbatim>\<open>m_control\<close>, \<^verbatim>\<open>m_msg\<close>, \<^verbatim>\<open>m_buffer_for_uring\<close>).  The variant starts as its first
  alternative with an empty function.
\<close>

definition WorkItem_new :: "work_item \<Rightarrow> nat \<Rightarrow> string \<Rightarrow> isocket \<Rightarrow> work_item" where
  "WorkItem_new junk i descr s = junk\<lparr>
     m_work_type := UNKNOWN,
     m_params := (m_params junk)\<lparr>destination_address := IPAddress_default\<rparr>,
     m_state := IN_USE,
     m_send_packet := new_send_packet (m_buf (m_send_packet junk)),
     m_id := i,
     m_callback := Connect_cb None,
     m_socket := s,
     m_msg_iov := \<lparr>iov_base = Iov_null, iov_len = 0\<rparr>,
     m_sa := IPAddress_default,
     m_accept_sock_len := 0,
     m_connect_sock_len := 0,
     m_descr := descr,
     m_link_to_next_request := False\<rparr>"

definition get_id :: "work_item \<Rightarrow> nat" where "get_id wi = m_id wi"

definition get_socket :: "work_item \<Rightarrow> isocket" where "get_socket wi = m_socket wi"

definition get_descr :: "work_item \<Rightarrow> string" where "get_descr wi = m_descr wi"

definition get_socket_address :: "work_item \<Rightarrow> IPAddress" where "get_socket_address wi = m_sa wi"

definition is_free :: "work_item \<Rightarrow> bool" where
  "is_free wi \<longleftrightarrow> m_state wi = FREE"

definition mark_in_use :: "work_item \<Rightarrow> work_item res" where
  "mark_in_use wi = bindE (assertE (m_state wi = FREE)) (\<lambda>_. Inr (wi\<lparr>m_state := IN_USE\<rparr>))"

definition mark_is_free :: "work_item \<Rightarrow> work_item res" where
  "mark_is_free wi = bindE (assertE (m_state wi = IN_USE)) (\<lambda>_. Inr (wi\<lparr>m_state := FREE\<rparr>))"

fun type_to_string :: "work_type \<Rightarrow> string" where
  "type_to_string ACCEPT = ''accept''"
| "type_to_string CONNECT = ''connect''"
| "type_to_string RECV = ''recv''"
| "type_to_string SEND_STREAM_DATA = ''send_stream_data''"
| "type_to_string SEND_WORKPACKET = ''send_workpacket''"
| "type_to_string UNKNOWN = ''unknown''"
| "type_to_string CLOSE = ''close''"

definition get_type_str :: "work_item \<Rightarrow> string" where
  "get_type_str wi = type_to_string (m_work_type wi)"

definition item_is_stream :: "work_item \<Rightarrow> bool" where
  "item_is_stream wi = is_stream (m_socket wi)"

definition clean_send_packet :: "work_item \<Rightarrow> work_item" where
  "clean_send_packet wi = wi\<lparr>m_send_packet := reset (m_send_packet wi)\<rparr>"

text \<open>\<^verbatim>\<open>get_send_packet\<close> hands out the packet, emptied; every call empties it again.\<close>

definition get_send_packet :: "work_item \<Rightarrow> work_item" where
  "get_send_packet wi = wi\<lparr>m_send_packet := reset (m_send_packet wi)\<rparr>"

definition get_raw_send_packet :: "work_item \<Rightarrow> send_packet" where
  "get_raw_send_packet wi = m_send_packet wi"

definition is_recv_request :: "work_item \<Rightarrow> bool" where
  "is_recv_request wi \<longleftrightarrow> m_work_type wi = RECV"

definition next_request_should_wait_for_this_request :: "work_item \<Rightarrow> bool" where
  "next_request_should_wait_for_this_request wi = m_link_to_next_request wi"

section \<open>Submitting\<close>

type_synonym 'n submitter = "work_item \<Rightarrow> 'n \<Rightarrow> (work_item \<times> 'n) res"

definition submit_recv_item :: "'n submitter \<Rightarrow> func \<Rightarrow> 'n submitter" where
  "submit_recv_item ring_submit cb wi n =
     ring_submit (wi\<lparr>m_callback := Recv_cb cb, m_work_type := RECV\<rparr>) n"

definition submit_packet :: "'n submitter \<Rightarrow> DatagramSendParameters \<Rightarrow> func \<Rightarrow> 'n submitter" where
  "submit_packet ring_submit params cb wi n =
     ring_submit (wi\<lparr>m_params := params, m_callback := Send_cb cb, m_work_type := SEND_WORKPACKET\<rparr>) n"

definition submit_stream_data :: "'n submitter \<Rightarrow> func \<Rightarrow> 'n submitter" where
  "submit_stream_data ring_submit cb wi n =
     ring_submit (wi\<lparr>m_callback := Send_cb cb, m_work_type := SEND_STREAM_DATA\<rparr>) n"

definition submit_accept_item :: "'n submitter \<Rightarrow> func \<Rightarrow> 'n submitter" where
  "submit_accept_item ring_submit cb wi n =
     ring_submit (wi\<lparr>m_callback := Accept_cb cb, m_work_type := ACCEPT\<rparr>) n"

text \<open>
  \<^verbatim>\<open>submit(const IPAddress&, const connect_callback_func_t&)\<close> copies the target into
  the memory the kernel will read.
\<close>

definition submit_connect_item :: "'n submitter \<Rightarrow> IPAddress \<Rightarrow> func \<Rightarrow> 'n submitter" where
  "submit_connect_item ring_submit target cb wi n =
     bindE (size_sockaddr target) (\<lambda>len.
     let wi = wi\<lparr>m_connect_sock_len := len\<rparr> in
     bindE (assertE (length (m_buffer_for_uring wi) \<ge> m_connect_sock_len wi)) (\<lambda>_.
     bindE (data_sockaddr target) (\<lambda>sa.
     let wi = wi\<lparr>m_buffer_for_uring := memcpy_at 0 (take len sa) (m_buffer_for_uring wi)\<rparr>
     in ring_submit (wi\<lparr>m_callback := Connect_cb cb, m_work_type := CONNECT\<rparr>) n)))"

definition submit_close_item :: "'n submitter \<Rightarrow> func \<Rightarrow> 'n submitter" where
  "submit_close_item ring_submit cb wi n =
     ring_submit (wi\<lparr>m_callback := Close_cb cb, m_work_type := CLOSE\<rparr>) n"

lemmas submit_item_defs = submit_recv_item_def submit_packet_def submit_stream_data_def
  submit_accept_item_def submit_connect_item_def submit_close_item_def

section \<open>Completing\<close>

text \<open>
  Each \<^verbatim>\<open>call_..._callback\<close> asserts that the variant holds the alternative it needs.
  What the callback returns is only used by \<^verbatim>\<open>call_recv_callback\<close>.  The argument \<open>this\<close>
  applies a change to the object itself, wherever the state of the program holds it:
  \<^verbatim>\<open>call_send_callback\<close> empties the packet after the client's function has run.
\<close>

definition item_call_send_callback ::
  "'s invoker \<Rightarrow> ((work_item \<Rightarrow> work_item) \<Rightarrow> 's \<Rightarrow> 's) \<Rightarrow> work_item \<Rightarrow> int \<Rightarrow> 's
     \<Rightarrow> ('s \<times> ReceivePostAction) res" where
  "item_call_send_callback invoke this wi status s =
     (case m_callback wi of
        Send_cb call \<Rightarrow> bindE (call_func invoke call (SendResult status) s) (\<lambda>(s', act).
          Inr (this clean_send_packet s', act))
      | _ \<Rightarrow> Inl Assertion_failed)"

definition item_call_close_callback ::
  "'s invoker \<Rightarrow> work_item \<Rightarrow> int \<Rightarrow> 's \<Rightarrow> ('s \<times> ReceivePostAction) res" where
  "item_call_close_callback invoke wi status s =
     (case m_callback wi of
        Close_cb call \<Rightarrow> call_func invoke call (CloseResult status) s
      | _ \<Rightarrow> Inl Assertion_failed)"

definition item_call_recv_callback ::
  "'s invoker \<Rightarrow> work_item \<Rightarrow> ReceivedMessage \<Rightarrow> 's \<Rightarrow> ('s \<times> ReceivePostAction) res" where
  "item_call_recv_callback invoke wi payload s =
     (case m_callback wi of
        Recv_cb call \<Rightarrow> call_func invoke call (Received payload) s
      | _ \<Rightarrow> Inl Assertion_failed)"

definition item_call_accept_callback ::
  "'s invoker \<Rightarrow> work_item \<Rightarrow> int \<Rightarrow> IPAddress \<Rightarrow> 's \<Rightarrow> ('s \<times> ReceivePostAction) res" where
  "item_call_accept_callback invoke wi fd addr s =
     (case m_callback wi of
        Accept_cb call \<Rightarrow> call_func invoke call (AcceptResult fd addr) s
      | _ \<Rightarrow> Inl Assertion_failed)"

definition item_call_connect_callback ::
  "'s invoker \<Rightarrow> work_item \<Rightarrow> int \<Rightarrow> IPAddress \<Rightarrow> 's \<Rightarrow> ('s \<times> ReceivePostAction) res" where
  "item_call_connect_callback invoke wi status addr s =
     (case m_callback wi of
        Connect_cb call \<Rightarrow> call_func invoke call (ConnectResult status addr) s
      | _ \<Rightarrow> Inl Assertion_failed)"

lemmas item_call_defs = item_call_send_callback_def item_call_close_callback_def
  item_call_recv_callback_def item_call_accept_callback_def item_call_connect_callback_def

section \<open>What is known of an accepted connection\<close>

text \<open>\<^verbatim>\<open>get_type\<close> and \<^verbatim>\<open>get_port\<close> of an \<^verbatim>\<open>AcceptResult\<close>; the port is the raw field.\<close>

definition accept_get_type :: "IPAddress \<Rightarrow> SocketType" where
  "accept_get_type a =
     (if m_in4 a \<noteq> None then IPV4_TCP
      else if m_in6 a \<noteq> None then IPV6_TCP
      else SocketType_UNKNOWN)"

definition accept_get_port :: "IPAddress \<Rightarrow> SocketPortID" where
  "accept_get_port a =
     (case m_in4 a of
        Some sa \<Rightarrow> sin_port sa
      | None \<Rightarrow> (case m_in6 a of Some sa \<Rightarrow> sin6_port sa | None \<Rightarrow> PORT_UNKNOWN))"

section \<open>Consistency of an item\<close>

text \<open>
  The alternative of the callback that fits the type of the work, and the memory
  sizes of the class.
\<close>

fun callback_fits :: "work_type \<Rightarrow> callback \<Rightarrow> bool" where
  "callback_fits ACCEPT (Accept_cb f) = True"
| "callback_fits CONNECT (Connect_cb f) = True"
| "callback_fits RECV (Recv_cb f) = True"
| "callback_fits SEND_STREAM_DATA (Send_cb f) = True"
| "callback_fits SEND_WORKPACKET (Send_cb f) = True"
| "callback_fits CLOSE (Close_cb f) = True"
| "callback_fits UNKNOWN c = (c = Connect_cb None)"
| "callback_fits t c = False"

definition item_inv :: "work_item \<Rightarrow> bool" where
  "item_inv wi \<longleftrightarrow>
     callback_fits (m_work_type wi) (m_callback wi) \<and>
     packet_inv (m_send_packet wi) \<and>
     length (m_control wi) = 1024 \<and>
     length (m_buffer_for_uring wi) = sizeof_sockaddr_storage \<and>
     \<not> m_link_to_next_request wi"

text \<open>Uninitialised memory is arbitrary, but as large as the members that lie in it.\<close>

definition junk_ok :: "work_item \<Rightarrow> bool" where
  "junk_ok junk \<longleftrightarrow>
     length (m_buf (m_send_packet junk)) = BUF_SIZE \<and>
     length (m_control junk) = 1024 \<and>
     length (m_buffer_for_uring junk) = sizeof_sockaddr_storage"

lemma item_inv_new [inv_pres]: "junk_ok junk \<Longrightarrow> item_inv (WorkItem_new junk i descr s)"
  by (simp add: item_inv_def junk_ok_def WorkItem_new_def packet_inv_new)

lemma WorkItem_new_simps [simp]:
  "m_id (WorkItem_new junk i descr s) = i"
  "m_state (WorkItem_new junk i descr s) = IN_USE"
  "m_work_type (WorkItem_new junk i descr s) = UNKNOWN"
  "m_socket (WorkItem_new junk i descr s) = s"
  "\<not> is_free (WorkItem_new junk i descr s)"
  by (simp_all add: WorkItem_new_def is_free_def)

lemma item_inv_state [simp]: "item_inv (wi\<lparr>m_state := st\<rparr>) \<longleftrightarrow> item_inv wi"
  by (simp add: item_inv_def)

lemma item_inv_packet [inv_pres]:
  "item_inv wi \<Longrightarrow> packet_inv sp \<Longrightarrow> item_inv (wi\<lparr>m_send_packet := sp\<rparr>)"
  by (simp add: item_inv_def)

lemma item_inv_get_send_packet [inv_pres]: "item_inv wi \<Longrightarrow> item_inv (get_send_packet wi)"
  by (simp add: item_inv_def get_send_packet_def reset_inv)

section \<open>Memory for concrete runs\<close>

text \<open>An item in cleared memory and a socket, from which concrete runs start.\<close>

definition zero_socket :: isocket where
  "zero_socket = ISocket_new IPV4_TCP LOCAL_WEB_PORT UNICAST_CLIENT_SOCKET 42"

definition zero_item :: work_item where
  "zero_item = \<lparr>m_work_type = UNKNOWN,
     m_params = \<lparr>destination_address = IPAddress_default, dscp = 0, ttl = 0\<rparr>,
     m_state = IN_USE, m_send_packet = \<lparr>m_size = 0, m_buf = replicate BUF_SIZE 0\<rparr>, m_id = 0,
     m_callback = Connect_cb None, m_control = replicate 1024 0, m_socket = zero_socket,
     m_msg = msghdr_zero, m_msg_iov = \<lparr>iov_base = Iov_null, iov_len = 0\<rparr>, m_sa = IPAddress_default,
     m_buffer_for_uring = replicate sizeof_sockaddr_storage 0, m_accept_sock_len = 0,
     m_connect_sock_len = 0, m_descr = [], m_link_to_next_request = False\<rparr>"

lemma zero_item_ok [simp]: "junk_ok zero_item"
  by (simp add: junk_ok_def zero_item_def)

end
