(* ===== verification/WorkPool.thy ===== *)
theory WorkPool
  imports WorkItem
begin

text \<open>
  \<^verbatim>\<open>src/WorkPool.hpp\<close> and \<^verbatim>\<open>src/WorkPool.cpp\<close>: the table of work items.  The items are
  shared objects: the table holds pointers, a client keeps pointers of its own, and
  the memory of an item outlives its slot.  So the state has a heap of items, which
  only grows (a pointer is an index of it), beside the class's two members, the vector
  of slots and the stack of free identifiers.  Every operation takes the mutex of the
  pool first, so a run of several threads is a sequence of whole operations.
\<close>

section \<open>The class\<close>

record pool =
  heap :: "work_item list"
  m_work_items :: "nat option list"
  m_free_ids :: "nat list"  \<comment> \<open>the stack, its top first\<close>

definition WorkPool_new :: pool where
  "WorkPool_new = \<lparr>heap = [], m_work_items = [], m_free_ids = []\<rparr>"

definition deref :: "pool \<Rightarrow> nat \<Rightarrow> work_item" where
  "deref p a = heap p ! a"

definition store :: "nat \<Rightarrow> work_item \<Rightarrow> pool \<Rightarrow> pool" where
  "store a wi p = p\<lparr>heap := (heap p)[a := wi]\<rparr>"

text \<open>
  \<^verbatim>\<open>get_work_item\<close>: the assertion lets the identifier one past the end through, where
  the access to the vector is undefined.
\<close>

definition get_work_item :: "pool \<Rightarrow> nat \<Rightarrow> nat option res" where
  "get_work_item p wid =
     bindE (assertE (wid \<le> length (m_work_items p))) (\<lambda>_.
     if wid = length (m_work_items p) then Inl Undefined_behaviour
     else (case m_work_items p ! wid of
         None \<Rightarrow> Inr None
       | Some a \<Rightarrow> bindE (assertE (\<not> is_free (deref p a))) (\<lambda>_. Inr (Some a))))"

definition free_work_item :: "pool \<Rightarrow> nat \<Rightarrow> pool res" where
  "free_work_item p wid =
     bindE (assertE (wid \<le> length (m_work_items p))) (\<lambda>_.
     if wid = length (m_work_items p) then Inl Undefined_behaviour
     else (case m_work_items p ! wid of
         None \<Rightarrow> Inl Assertion_failed
       | Some a \<Rightarrow>
           bindE (assertE (\<not> is_free (deref p a))) (\<lambda>_.
           bindE (mark_is_free (deref p a)) (\<lambda>wi.
           let p1 = store a wi p in
           Inr (p1\<lparr>m_work_items := (m_work_items p1)[wid := None],
                   m_free_ids := wid # m_free_ids p1\<rparr>)))))"

text \<open>
  \<^verbatim>\<open>internal_alloc_work_item\<close>: a new slot at the end when the stack is empty, else the
  slot on top of the stack.  The new object is at the next free place of the heap.
\<close>

definition internal_alloc_work_item ::
  "work_item \<Rightarrow> isocket \<Rightarrow> string \<Rightarrow> pool \<Rightarrow> (nat \<times> pool) res" where
  "internal_alloc_work_item junk socket descr p =
     (let a = length (heap p) in
      case m_free_ids p of
        [] \<Rightarrow>
          (let wid = length (m_work_items p);
               ret = WorkItem_new junk wid descr socket
           in bindE (assertE (\<not> is_free ret)) (\<lambda>_.
              Inr (a, p\<lparr>heap := heap p @ [ret], m_work_items := m_work_items p @ [Some a]\<rparr>)))
      | wid # rest \<Rightarrow>
          (let ret = WorkItem_new junk wid descr socket
           in bindE (assertE (\<not> is_free ret)) (\<lambda>_.
              if wid < length (m_work_items p)
              then Inr (a, p\<lparr>heap := heap p @ [ret], m_free_ids := rest,
                             m_work_items := (m_work_items p)[wid := Some a]\<rparr>)
              else Inl Undefined_behaviour)))"

text \<open>
  The public allocators submit the new item at once, but for \<^verbatim>\<open>alloc_send_work_item\<close>,
  whose caller fills the packet first.  \<open>submit_item\<close> is the overload of
  \<^verbatim>\<open>WorkItem::submit\<close> they call; it works on the object in the heap.
\<close>

definition submit_at :: "'n submitter \<Rightarrow> nat \<Rightarrow> pool \<times> 'n \<Rightarrow> (pool \<times> 'n) res" where
  "submit_at submit_item a = (\<lambda>(p, n).
     bindE (submit_item (deref p a) n) (\<lambda>(wi, n'). Inr (store a wi p, n')))"

definition alloc_send_work_item ::
  "work_item \<Rightarrow> isocket \<Rightarrow> string \<Rightarrow> pool \<Rightarrow> (nat \<times> pool) res" where
  "alloc_send_work_item junk socket descr p = internal_alloc_work_item junk socket descr p"

definition alloc_recv_work_item ::
  "'n submitter \<Rightarrow> work_item \<Rightarrow> isocket \<Rightarrow> func \<Rightarrow> string \<Rightarrow> pool \<times> 'n \<Rightarrow> (nat \<times> pool \<times> 'n) res" where
  "alloc_recv_work_item ring_submit junk socket callback descr = (\<lambda>(p, n).
     bindE (internal_alloc_work_item junk socket descr p) (\<lambda>(wi, p1).
     bindE (submit_at (submit_recv_item ring_submit callback) wi (p1, n)) (\<lambda>pn. Inr (wi, pn))))"

definition alloc_accept_work_item ::
  "'n submitter \<Rightarrow> work_item \<Rightarrow> isocket \<Rightarrow> func \<Rightarrow> string \<Rightarrow> pool \<times> 'n \<Rightarrow> (nat \<times> pool \<times> 'n) res" where
  "alloc_accept_work_item ring_submit junk socket callback descr = (\<lambda>(p, n).
     bindE (internal_alloc_work_item junk socket descr p) (\<lambda>(wi, p1).
     bindE (submit_at (submit_accept_item ring_submit callback) wi (p1, n)) (\<lambda>pn. Inr (wi, pn))))"

definition alloc_connect_work_item ::
  "'n submitter \<Rightarrow> work_item \<Rightarrow> IPAddress \<Rightarrow> isocket \<Rightarrow> func \<Rightarrow> string \<Rightarrow> pool \<times> 'n
     \<Rightarrow> (nat \<times> pool \<times> 'n) res" where
  "alloc_connect_work_item ring_submit junk target socket callback descr = (\<lambda>(p, n).
     bindE (internal_alloc_work_item junk socket descr p) (\<lambda>(wi, p1).
     bindE (submit_at (submit_connect_item ring_submit target callback) wi (p1, n)) (\<lambda>pn.
       Inr (wi, pn))))"

definition alloc_close_work_item ::
  "'n submitter \<Rightarrow> work_item \<Rightarrow> isocket \<Rightarrow> func \<Rightarrow> string \<Rightarrow> pool \<times> 'n \<Rightarrow> (nat \<times> pool \<times> 'n) res" where
  "alloc_close_work_item ring_submit junk socket callback descr = (\<lambda>(p, n).
     bindE (internal_alloc_work_item junk socket descr p) (\<lambda>(wi, p1).
     bindE (submit_at (submit_close_item ring_submit callback) wi (p1, n)) (\<lambda>pn. Inr (wi, pn))))"

section \<open>Invariant\<close>

text \<open>The item a slot holds, if any: the table as a partial map.\<close>

definition lookup :: "pool \<Rightarrow> nat \<Rightarrow> nat option" where
  "lookup p wid = (if wid < length (m_work_items p) then m_work_items p ! wid else None)"

definition live :: "pool \<Rightarrow> nat set" where
  "live p = {wid. lookup p wid \<noteq> None}"

text \<open>
  An occupied slot points to an object that is in use and knows the slot's number; the
  stack holds every empty slot once; all items are well formed.
\<close>

definition pool_inv :: "pool \<Rightarrow> bool" where
  "pool_inv p \<longleftrightarrow>
     (\<forall>wid a. lookup p wid = Some a \<longrightarrow>
        a < length (heap p) \<and> m_id (deref p a) = wid \<and> m_state (deref p a) = IN_USE) \<and>
     distinct (m_free_ids p) \<and>
     set (m_free_ids p) = {wid. wid < length (m_work_items p) \<and> lookup p wid = None} \<and>
     (\<forall>wi \<in> set (heap p). item_inv wi)"

lemma pool_inv_new [inv_pres]: "pool_inv WorkPool_new"
  by (simp add: pool_inv_def WorkPool_new_def lookup_def)

lemma lookup_less: "lookup p wid = Some a \<Longrightarrow> wid < length (m_work_items p)"
  by (simp add: lookup_def split: if_splits)

lemma live_subset: "live p \<subseteq> {..<length (m_work_items p)}"
  by (auto simp: live_def lookup_def split: if_splits)

lemma finite_live [simp]: "finite (live p)"
  using finite_subset[OF live_subset] by blast

lemma pool_invD:
  assumes "pool_inv p" and "lookup p wid = Some a"
  shows "a < length (heap p)" "m_id (deref p a) = wid" "m_state (deref p a) = IN_USE"
    "\<not> is_free (deref p a)" "item_inv (deref p a)"
  using assms by (auto simp: pool_inv_def is_free_def deref_def)

lemma pool_inv_item: "pool_inv p \<Longrightarrow> a < length (heap p) \<Longrightarrow> item_inv (deref p a)"
  by (simp add: pool_inv_def deref_def)

text \<open>Two slots never share an object.\<close>

lemma lookup_inj: "pool_inv p \<Longrightarrow> lookup p i = Some a \<Longrightarrow> lookup p j = Some a \<Longrightarrow> i = j"
  using pool_invD(2) by metis

section \<open>Functional behaviour\<close>

lemma get_work_item_eq:
  assumes "pool_inv p"
  shows "get_work_item p wid =
     (if wid < length (m_work_items p) then Inr (lookup p wid)
      else if wid = length (m_work_items p) then Inl Undefined_behaviour
      else Inl Assertion_failed)"
proof (cases "lookup p wid")
  case None
  then show ?thesis by (simp add: get_work_item_def lookup_def split: if_splits)
next
  case (Some a)
  then have "m_work_items p ! wid = Some a" and "wid < length (m_work_items p)"
    by (auto simp: lookup_def split: if_splits)
  with Some pool_invD(4)[OF assms Some] show ?thesis
    by (simp add: get_work_item_def)
qed

lemma free_work_item_eq:
  assumes "pool_inv p" and "lookup p wid = Some a"
  shows "free_work_item p wid =
     Inr (p\<lparr>heap := (heap p)[a := (deref p a)\<lparr>m_state := FREE\<rparr>],
            m_work_items := (m_work_items p)[wid := None], m_free_ids := wid # m_free_ids p\<rparr>)"
proof -
  have "m_work_items p ! wid = Some a" and "wid < length (m_work_items p)"
    using assms(2) by (auto simp: lookup_def split: if_splits)
  with pool_invD(3,4)[OF assms] show ?thesis
    by (simp add: free_work_item_def mark_is_free_def store_def Let_def)
qed

text \<open>Freeing an empty slot (a double free) stops the program.\<close>

lemma free_work_item_empty:
  "wid < length (m_work_items p) \<Longrightarrow> lookup p wid = None \<Longrightarrow>
     free_work_item p wid = Inl Assertion_failed"
  by (simp add: free_work_item_def lookup_def)

lemma free_work_item_inv [inv_pres]:
  assumes inv: "pool_inv p" and l: "lookup p wid = Some a" and f: "free_work_item p wid = Inr p'"
  shows "pool_inv p'"
proof -
  have p': "p' = p\<lparr>heap := (heap p)[a := (deref p a)\<lparr>m_state := FREE\<rparr>],
            m_work_items := (m_work_items p)[wid := None], m_free_ids := wid # m_free_ids p\<rparr>"
    using f free_work_item_eq[OF inv l] by simp
  have lk: "lookup p' i = (if i = wid then None else lookup p i)" for i
    using lookup_less[OF l] by (simp add: p' lookup_def nth_list_update)
  have ne: "b \<noteq> a" if "lookup p i = Some b" "i \<noteq> wid" for i b
    using lookup_inj[OF inv _ l] that by blast
  have "wid \<notin> set (m_free_ids p)" using inv l by (simp add: pool_inv_def)
  moreover have "\<forall>wi \<in> set (heap p'). item_inv wi"
    using inv pool_invD[OF inv l]
    by (auto simp: p' pool_inv_def dest!: set_update_subset_insert[THEN subsetD])
  moreover have "deref p' b = deref p b" if "b \<noteq> a" for b
    using that by (simp add: p' deref_def)
  moreover have "length (heap p') = length (heap p)" "m_free_ids p' = wid # m_free_ids p"
    "length (m_work_items p') = length (m_work_items p)"
    by (simp_all add: p')
  ultimately show ?thesis
    using inv ne lookup_less[OF l] unfolding pool_inv_def lk by auto
qed

lemma lookup_free:
  assumes inv: "pool_inv p" and l: "lookup p wid = Some a" and f: "free_work_item p wid = Inr p'"
  shows "lookup p' = (lookup p)(wid := None)"
  using f free_work_item_eq[OF inv l] lookup_less[OF l]
  by (auto simp: lookup_def nth_list_update fun_eq_iff)

text \<open>The identifier of the next item.\<close>

definition next_id :: "pool \<Rightarrow> nat" where
  "next_id p = (case m_free_ids p of [] \<Rightarrow> length (m_work_items p) | wid # _ \<Rightarrow> wid)"

lemma next_id_not_live: "pool_inv p \<Longrightarrow> lookup p (next_id p) = None"
  by (cases "m_free_ids p") (auto simp: next_id_def pool_inv_def lookup_def[of p "length _"])

lemma internal_alloc_eq:
  assumes "pool_inv p"
  shows "\<exists>p'. internal_alloc_work_item junk socket descr p = Inr (length (heap p), p') \<and>
     heap p' = heap p @ [WorkItem_new junk (next_id p) descr socket] \<and>
     lookup p' = (lookup p)(next_id p \<mapsto> length (heap p)) \<and>
     m_free_ids p' = tl (m_free_ids p) \<and>
     length (m_work_items p') = max (length (m_work_items p)) (Suc (next_id p))"
proof (cases "m_free_ids p")
  case Nil
  then show ?thesis
    by (auto simp: internal_alloc_work_item_def Let_def next_id_def lookup_def nth_append fun_eq_iff)
next
  case (Cons wid rest)
  then have "wid < length (m_work_items p)" using assms by (auto simp: pool_inv_def)
  with Cons show ?thesis
    by (auto simp: internal_alloc_work_item_def Let_def next_id_def lookup_def nth_list_update
        fun_eq_iff)
qed

lemma internal_alloc_inv [inv_pres]:
  assumes inv: "pool_inv p" and j: "junk_ok junk"
    and al: "internal_alloc_work_item junk socket descr p = Inr (a, p')"
  shows "pool_inv p'"
proof -
  from internal_alloc_eq[OF inv, of junk socket descr] al
  have a: "a = length (heap p)" and h: "heap p' = heap p @ [WorkItem_new junk (next_id p) descr socket]"
    and lk: "lookup p' = (lookup p)(next_id p \<mapsto> length (heap p))"
    and fr: "m_free_ids p' = tl (m_free_ids p)"
    and ln: "length (m_work_items p') = max (length (m_work_items p)) (Suc (next_id p))"
    by auto
  have old: "deref p' b = deref p b" if "b < length (heap p)" for b
    using that by (simp add: deref_def h nth_append)
  have "set (tl (m_free_ids p)) = set (m_free_ids p) - {next_id p}"
    using inv next_id_not_live[OF inv]
    by (cases "m_free_ids p") (auto simp: next_id_def pool_inv_def lookup_def[of p "length _"])
  moreover have "\<not> next_id p < length (m_work_items p) \<Longrightarrow> next_id p = length (m_work_items p)"
    using inv by (auto simp: next_id_def pool_inv_def split: list.splits)
  ultimately have "set (m_free_ids p') = {wid. wid < length (m_work_items p') \<and> lookup p' wid = None}"
    using inv by (auto simp: fr lk ln pool_inv_def max_def split: if_splits)
  moreover have "distinct (m_free_ids p')" using inv by (simp add: fr pool_inv_def distinct_tl)
  moreover have "\<forall>wi \<in> set (heap p'). item_inv wi" using inv j by (auto simp: h pool_inv_def item_inv_new)
  moreover have "b < length (heap p') \<and> m_id (deref p' b) = wid \<and> m_state (deref p' b) = IN_USE"
    if "lookup p' wid = Some b" for wid b
  proof (cases "wid = next_id p")
    case True
    with that show ?thesis by (auto simp: lk h deref_def)
  next
    case False
    with that have "lookup p wid = Some b" by (simp add: lk)
    with inv old[of b] show ?thesis by (auto simp: h pool_inv_def less_SucI)
  qed
  ultimately show ?thesis unfolding pool_inv_def by blast
qed

text \<open>Writing back an object that keeps its number and state changes no slot.\<close>

lemma lookup_store [simp]: "lookup (store a wi p) = lookup p"
  by (simp add: store_def lookup_def fun_eq_iff)

lemma store_simps [simp]:
  "m_work_items (store a wi p) = m_work_items p"
  "m_free_ids (store a wi p) = m_free_ids p"
  "length (heap (store a wi p)) = length (heap p)"
  "a < length (heap p) \<Longrightarrow> deref (store a wi p) a = wi"
  "b \<noteq> a \<Longrightarrow> deref (store a wi p) b = deref p b"
  by (simp_all add: store_def deref_def)

lemma store_inv [inv_pres]:
  assumes "pool_inv p" and "item_inv wi" and "m_id wi = m_id (deref p a)"
    and "m_state wi = m_state (deref p a)"
  shows "pool_inv (store a wi p)"
proof (cases "a < length (heap p)")
  case True
  have "deref (store a wi p) b = (if b = a then wi else deref p b)" for b
    using True by simp
  moreover have "\<forall>w \<in> set (heap (store a wi p)). item_inv w"
    using assms(1,2) by (auto simp: store_def pool_inv_def dest!: set_update_subset_insert[THEN subsetD])
  ultimately show ?thesis using assms unfolding pool_inv_def by auto
next
  case False
  then show ?thesis using assms(1) by (simp add: store_def list_update_beyond)
qed

section \<open>What the allocators rely on\<close>

text \<open>
  What an item keeps while it is handed to a ring: its number, its state, what it is and
  whom it calls back.  The interface \<^verbatim>\<open>IOUringInterface\<close> promises this of its \<^verbatim>\<open>submit\<close>.
\<close>

definition same_request :: "work_item \<Rightarrow> work_item \<Rightarrow> bool" where
  "same_request wi wi' \<longleftrightarrow> m_id wi' = m_id wi \<and> m_state wi' = m_state wi \<and>
     m_work_type wi' = m_work_type wi \<and> m_callback wi' = m_callback wi \<and> m_socket wi' = m_socket wi"

lemma same_request_refl [simp]: "same_request wi wi"
  by (simp add: same_request_def)

text \<open>The weaker promise of an overload of \<^verbatim>\<open>WorkItem::submit\<close>, which sets type and callback.\<close>

definition keeps_item :: "'n submitter \<Rightarrow> bool" where
  "keeps_item f \<longleftrightarrow> (\<forall>wi n wi' n'. item_inv wi \<longrightarrow> f wi n = Inr (wi', n') \<longrightarrow>
     item_inv wi' \<and> m_id wi' = m_id wi \<and> m_state wi' = m_state wi \<and> m_socket wi' = m_socket wi)"

lemma keeps_itemD:
  "keeps_item f \<Longrightarrow> item_inv wi \<Longrightarrow> f wi n = Inr (wi', n') \<Longrightarrow>
     item_inv wi' \<and> m_id wi' = m_id wi \<and> m_state wi' = m_state wi \<and> m_socket wi' = m_socket wi"
  unfolding keeps_item_def by blast

locale io_ring =
  fixes ring_submit :: "'n submitter"
  assumes submit_keeps: "item_inv wi \<Longrightarrow> ring_submit wi n = Inr (wi', n') \<Longrightarrow>
      item_inv wi' \<and> same_request wi wi'"
begin

text \<open>
  The overloads of \<^verbatim>\<open>WorkItem::submit\<close> set the type of the work and the callback, and hand
  the item over.
\<close>

lemma recv_item:
  assumes "item_inv wi" and "submit_recv_item ring_submit cb wi n = Inr (wi', n')"
  shows "item_inv wi'" "m_id wi' = m_id wi" "m_state wi' = m_state wi" "m_socket wi' = m_socket wi"
    "m_work_type wi' = RECV" "m_callback wi' = Recv_cb cb"
  using assms submit_keeps[of "wi\<lparr>m_callback := Recv_cb cb, m_work_type := RECV\<rparr>" n wi' n']
  by (auto simp: submit_recv_item_def item_inv_def same_request_def)

lemma accept_item:
  assumes "item_inv wi" and "submit_accept_item ring_submit cb wi n = Inr (wi', n')"
  shows "item_inv wi'" "m_id wi' = m_id wi" "m_state wi' = m_state wi" "m_socket wi' = m_socket wi"
    "m_work_type wi' = ACCEPT" "m_callback wi' = Accept_cb cb"
  using assms submit_keeps[of "wi\<lparr>m_callback := Accept_cb cb, m_work_type := ACCEPT\<rparr>" n wi' n']
  by (auto simp: submit_accept_item_def item_inv_def same_request_def)

lemma close_item:
  assumes "item_inv wi" and "submit_close_item ring_submit cb wi n = Inr (wi', n')"
  shows "item_inv wi'" "m_id wi' = m_id wi" "m_state wi' = m_state wi" "m_socket wi' = m_socket wi"
    "m_work_type wi' = CLOSE" "m_callback wi' = Close_cb cb"
  using assms submit_keeps[of "wi\<lparr>m_callback := Close_cb cb, m_work_type := CLOSE\<rparr>" n wi' n']
  by (auto simp: submit_close_item_def item_inv_def same_request_def)

lemma stream_item:
  assumes "item_inv wi" and "submit_stream_data ring_submit cb wi n = Inr (wi', n')"
  shows "item_inv wi'" "m_id wi' = m_id wi" "m_state wi' = m_state wi" "m_socket wi' = m_socket wi"
    "m_work_type wi' = SEND_STREAM_DATA" "m_callback wi' = Send_cb cb"
  using assms submit_keeps[of "wi\<lparr>m_callback := Send_cb cb, m_work_type := SEND_STREAM_DATA\<rparr>" n wi' n']
  by (auto simp: submit_stream_data_def item_inv_def same_request_def)

lemma packet_item:
  assumes "item_inv wi" and "submit_packet ring_submit ps cb wi n = Inr (wi', n')"
  shows "item_inv wi'" "m_id wi' = m_id wi" "m_state wi' = m_state wi" "m_socket wi' = m_socket wi"
    "m_work_type wi' = SEND_WORKPACKET" "m_callback wi' = Send_cb cb"
  using assms
    submit_keeps[of "wi\<lparr>m_params := ps, m_callback := Send_cb cb, m_work_type := SEND_WORKPACKET\<rparr>" n wi' n']
  by (auto simp: submit_packet_def item_inv_def same_request_def)

lemma connect_item:
  assumes i: "item_inv wi" and s: "submit_connect_item ring_submit target cb wi n = Inr (wi', n')"
  shows "item_inv wi'" "m_id wi' = m_id wi" "m_state wi' = m_state wi" "m_socket wi' = m_socket wi"
    "m_work_type wi' = CONNECT" "m_callback wi' = Connect_cb cb"
proof -
  from s obtain len sa where "len \<le> length (m_buffer_for_uring wi)" and r:
    "ring_submit (wi\<lparr>m_connect_sock_len := len,
        m_buffer_for_uring := memcpy_at 0 (take len sa) (m_buffer_for_uring wi),
        m_callback := Connect_cb cb, m_work_type := CONNECT\<rparr>) n = Inr (wi', n')"
    by (auto simp: submit_connect_item_def Let_def)
  then have "item_inv (wi\<lparr>m_connect_sock_len := len,
        m_buffer_for_uring := memcpy_at 0 (take len sa) (m_buffer_for_uring wi),
        m_callback := Connect_cb cb, m_work_type := CONNECT\<rparr>)"
    using i by (simp add: item_inv_def)
  from submit_keeps[OF this r]
  show "item_inv wi'" "m_id wi' = m_id wi" "m_state wi' = m_state wi" "m_socket wi' = m_socket wi"
    "m_work_type wi' = CONNECT" "m_callback wi' = Connect_cb cb"
    by (auto simp: same_request_def)
qed

lemma overloads_keep:
  "keeps_item ring_submit"
  "keeps_item (submit_recv_item ring_submit cb)"
  "keeps_item (submit_accept_item ring_submit cb)"
  "keeps_item (submit_close_item ring_submit cb)"
  "keeps_item (submit_stream_data ring_submit cb)"
  "keeps_item (submit_packet ring_submit ps cb)"
  "keeps_item (submit_connect_item ring_submit target cb)"
  using submit_keeps unfolding keeps_item_def same_request_def
  by (blast intro: recv_item accept_item close_item stream_item packet_item connect_item)+

end

section \<open>The allocators\<close>

text \<open>
  Every allocator has this shape: a new item, then one of the overloads of
  \<^verbatim>\<open>WorkItem::submit\<close> on it.
\<close>

lemma alloc_and_submit:
  assumes inv: "pool_inv p" and junk: "junk_ok junk"
    and keeps: "keeps_item f"
    and run: "bindE (internal_alloc_work_item junk socket descr p) (\<lambda>(wi, p1).
        bindE (submit_at f wi (p1, n)) (\<lambda>pn. Inr (wi, pn))) = Inr (a, p', n')"
  shows "pool_inv p' \<and> a = length (heap p) \<and> length (heap p') = Suc a \<and>
     lookup p' = (lookup p)(next_id p \<mapsto> a) \<and>
     f (WorkItem_new junk (next_id p) descr socket) n = Inr (deref p' a, n') \<and>
     m_socket (deref p' a) = socket \<and>
     (\<forall>b < length (heap p). deref p' b = deref p b) \<and>
     length (m_work_items p') = max (length (m_work_items p)) (Suc (next_id p))"
proof -
  let ?wi = "WorkItem_new junk (next_id p) descr socket"
  obtain p1 where p1: "internal_alloc_work_item junk socket descr p = Inr (length (heap p), p1)"
    "heap p1 = heap p @ [?wi]" "lookup p1 = (lookup p)(next_id p \<mapsto> length (heap p))"
    "length (m_work_items p1) = max (length (m_work_items p)) (Suc (next_id p))"
    using internal_alloc_eq[OF inv, of junk socket descr] by auto
  have inv1: "pool_inv p1" by (rule internal_alloc_inv[OF inv junk p1(1)])
  have wi: "deref p1 (length (heap p)) = ?wi" by (simp add: deref_def p1(2))
  from run p1(1) wi obtain wi' where r: "f ?wi n = Inr (wi', n')"
    and a: "a = length (heap p)" and p': "p' = store a wi' p1"
    by (auto simp: submit_at_def split_beta)
  from keeps_itemD[OF keeps item_inv_new[OF junk] r]
  have k: "item_inv wi'" "m_id wi' = m_id ?wi" "m_state wi' = m_state ?wi" "m_socket wi' = socket"
    by simp_all
  have inv': "pool_inv p'" unfolding p' by (rule store_inv[OF inv1 k(1)]) (use k wi a in simp_all)
  have "deref p' b = deref p b" if "b < length (heap p)" for b
    using that by (simp add: p' a deref_def p1(2) store_def nth_append)
  moreover have "deref p' a = wi'" by (simp add: p' a p1(2))
  ultimately show ?thesis using inv' p1 r k(4) by (simp add: p' a)
qed

text \<open>Handing over an object that is already in the heap.\<close>

lemma submit_at_existing:
  assumes inv: "pool_inv p" and a: "a < length (heap p)"
    and keeps: "keeps_item f"
    and run: "submit_at f a (p, n) = Inr (p', n')"
  shows "pool_inv p' \<and> lookup p' = lookup p \<and> length (heap p') = length (heap p) \<and>
     m_work_items p' = m_work_items p \<and> f (deref p a) n = Inr (deref p' a, n') \<and>
     (\<forall>b. b \<noteq> a \<longrightarrow> deref p' b = deref p b)"
proof -
  from run obtain wi' where r: "f (deref p a) n = Inr (wi', n')" and p': "p' = store a wi' p"
    by (auto simp: submit_at_def split_beta)
  from keeps_itemD[OF keeps pool_inv_item[OF inv a] r]
  have "item_inv wi'" "m_id wi' = m_id (deref p a)" "m_state wi' = m_state (deref p a)" by simp_all
  then have "pool_inv p'" unfolding p' by (rule store_inv[OF inv])
  with r a show ?thesis by (simp add: p')
qed

section \<open>The table as an abstract map\<close>

text \<open>
  What a client of the pool is promised: a map from identifiers to items, in which an
  allocation binds an identifier that was not bound and a release unbinds one.
\<close>

locale item_table =
  fixes alloc :: "'x \<Rightarrow> 's \<Rightarrow> ('a \<times> 's) res"
    and free :: "'s \<Rightarrow> nat \<Rightarrow> 's res"
    and lookup :: "'s \<Rightarrow> nat \<Rightarrow> 'a option"
    and fresh :: "'s \<Rightarrow> nat"
    and invar :: "'s \<Rightarrow> bool"
    and ok :: "'x \<Rightarrow> bool"
  assumes fresh: "invar s \<Longrightarrow> lookup s (fresh s) = None"
    and alloc: "invar s \<Longrightarrow> ok x \<Longrightarrow>
      \<exists>a s'. alloc x s = Inr (a, s') \<and> invar s' \<and> lookup s' = (lookup s)(fresh s \<mapsto> a)"
    and free: "invar s \<Longrightarrow> lookup s i = Some a \<Longrightarrow>
      \<exists>s'. free s i = Inr s' \<and> invar s' \<and> lookup s' = (lookup s)(i := None)"
begin

text \<open>Releasing what was just allocated gives the old map back.\<close>

lemma alloc_free:
  assumes "invar s" and "ok x"
  shows "\<exists>a s1 s2. alloc x s = Inr (a, s1) \<and> free s1 (fresh s) = Inr s2 \<and> lookup s2 = lookup s"
proof -
  from alloc[OF assms] obtain a s1 where s1: "alloc x s = Inr (a, s1)" "invar s1"
    "lookup s1 = (lookup s)(fresh s \<mapsto> a)" by blast
  then have "lookup s1 (fresh s) = Some a" by simp
  from free[OF s1(2) this] obtain s2 where "free s1 (fresh s) = Inr s2"
    "lookup s2 = (lookup s1)(fresh s := None)" by blast
  moreover have "(lookup s)(fresh s := None) = lookup s"
    using fresh[OF assms(1)] by (simp add: fun_upd_idem)
  ultimately show ?thesis using s1 by auto
qed

text \<open>The other entries do not change under either operation.\<close>

lemma others_unchanged:
  "invar s \<Longrightarrow> ok x \<Longrightarrow> alloc x s = Inr (a, s') \<Longrightarrow> i \<noteq> fresh s \<Longrightarrow> lookup s' i = lookup s i"
  "invar s \<Longrightarrow> lookup s j = Some b \<Longrightarrow> free s j = Inr s' \<Longrightarrow> i \<noteq> j \<Longrightarrow> lookup s' i = lookup s i"
  using alloc[of s x] free[of s j b] by auto

end

interpretation tbl: item_table
  "\<lambda>(junk, socket, descr). internal_alloc_work_item junk socket descr" free_work_item lookup next_id
  pool_inv "\<lambda>(junk, socket, descr). junk_ok junk"
proof
  fix s assume "pool_inv s" then show "lookup s (next_id s) = None" by (rule next_id_not_live)
next
  fix s :: pool and x :: "work_item \<times> isocket \<times> string"
  assume i: "pool_inv s" and j: "case x of (junk, socket, descr) \<Rightarrow> junk_ok junk"
  obtain junk socket descr where x: "x = (junk, socket, descr)" by (cases x)
  from internal_alloc_eq[OF i, of junk socket descr] internal_alloc_inv[OF i, of junk socket descr] j x
  show "\<exists>a s'. (case x of (junk, socket, descr) \<Rightarrow> internal_alloc_work_item junk socket descr) s = Inr (a, s')
      \<and> pool_inv s' \<and> lookup s' = (lookup s)(next_id s \<mapsto> a)"
    by auto
next
  fix s :: pool and i a
  assume "pool_inv s" "lookup s i = Some a"
  then show "\<exists>s'. free_work_item s i = Inr s' \<and> pool_inv s' \<and> lookup s' = (lookup s)(i := None)"
    using free_work_item_eq free_work_item_inv lookup_free by blast
qed

section \<open>Runs of the pool\<close>

text \<open>A run is any sequence of allocations and releases, from any threads.\<close>

datatype pool_op = Alloc work_item isocket string | Release nat

fun pool_step :: "pool \<Rightarrow> pool_op \<Rightarrow> pool res" where
  "pool_step p (Alloc junk socket descr) =
     bindE (internal_alloc_work_item junk socket descr p) (\<lambda>(_, p'). Inr p')"
| "pool_step p (Release wid) = free_work_item p wid"

fun op_ok :: "pool_op \<Rightarrow> bool" where
  "op_ok (Alloc junk socket descr) = junk_ok junk"
| "op_ok (Release wid) = True"

text \<open>The largest number of items that are live at the same time during a run.\<close>

fun peak_live :: "pool \<Rightarrow> pool_op list \<Rightarrow> nat" where
  "peak_live p [] = card (live p)"
| "peak_live p (x # xs) =
     max (card (live p)) (case pool_step p x of Inl _ \<Rightarrow> 0 | Inr p' \<Rightarrow> peak_live p' xs)"

lemma free_work_item_Inr:
  assumes "pool_inv p" and "free_work_item p wid = Inr p'"
  shows "\<exists>a. lookup p wid = Some a"
proof (rule ccontr)
  assume "\<nexists>a. lookup p wid = Some a"
  then have "lookup p wid = None" by simp
  moreover have "wid < length (m_work_items p)"
    using assms(2) by (auto simp: free_work_item_def split: if_splits)
  ultimately show False using assms(2) free_work_item_empty by simp
qed

lemma pool_step_inv [inv_pres]:
  assumes "pool_inv p" and "op_ok x" and "pool_step p x = Inr p'"
  shows "pool_inv p'"
proof (cases x)
  case (Alloc junk socket descr)
  with assms show ?thesis by (auto intro: internal_alloc_inv)
next
  case (Release wid)
  with assms free_work_item_Inr[OF assms(1), of wid p'] show ?thesis
    by (auto intro: free_work_item_inv)
qed

lemma pool_run_inv [inv_pres]:
  "pool_inv p \<Longrightarrow> \<forall>x \<in> set xs. op_ok x \<Longrightarrow> foldE pool_step p xs = Inr p' \<Longrightarrow> pool_inv p'"
  by (induction xs arbitrary: p) (auto intro: pool_step_inv)

text \<open>Every slot is live or on the stack.\<close>

lemma slots_live_free:
  assumes "pool_inv p"
  shows "length (m_work_items p) = card (live p) + length (m_free_ids p)"
proof -
  have "{..<length (m_work_items p)} = live p \<union> set (m_free_ids p)"
    using assms live_subset[of p] by (auto simp: pool_inv_def live_def)
  moreover have "live p \<inter> set (m_free_ids p) = {}"
    using assms by (auto simp: pool_inv_def live_def)
  ultimately have "card {..<length (m_work_items p)} = card (live p) + card (set (m_free_ids p))"
    by (simp add: card_Un_disjoint)
  moreover have "distinct (m_free_ids p)" using assms by (simp add: pool_inv_def)
  then have "card (set (m_free_ids p)) = length (m_free_ids p)" by (rule distinct_card)
  ultimately show ?thesis by simp
qed

lemma pool_step_slots:
  assumes inv: "pool_inv p" and ok: "op_ok x" and s: "pool_step p x = Inr p'"
  shows "length (m_work_items p') = max (length (m_work_items p)) (card (live p'))"
proof -
  have inv': "pool_inv p'" by (rule pool_step_inv[OF inv ok s])
  show ?thesis
  proof (cases x)
    case (Alloc junk socket descr)
    with s internal_alloc_eq[OF inv, of junk socket descr]
    have fr: "m_free_ids p' = tl (m_free_ids p)"
      and ln: "length (m_work_items p') = max (length (m_work_items p)) (Suc (next_id p))"
      by auto
    show ?thesis
    proof (cases "m_free_ids p")
      case Nil
      then show ?thesis using ln fr slots_live_free[OF inv'] by (simp add: next_id_def)
    next
      case (Cons i js)
      with inv have "i < length (m_work_items p)" by (auto simp: pool_inv_def)
      with Cons ln slots_live_free[OF inv'] show ?thesis by (simp add: next_id_def)
    qed
  next
    case (Release wid)
    with s free_work_item_Inr[OF inv, of wid p'] free_work_item_eq[OF inv, of wid]
    have "length (m_work_items p') = length (m_work_items p)" by auto
    with slots_live_free[OF inv'] show ?thesis by simp
  qed
qed

lemma peak_live_ge: "card (live p) \<le> peak_live p xs"
  by (cases xs) simp_all

lemma pool_run_slots:
  "pool_inv p \<Longrightarrow> \<forall>x \<in> set xs. op_ok x \<Longrightarrow> foldE pool_step p xs = Inr p' \<Longrightarrow>
     length (m_work_items p') = max (length (m_work_items p)) (peak_live p xs)"
proof (induction xs arbitrary: p)
  case Nil
  then show ?case using slots_live_free[of p] by simp
next
  case (Cons x xs)
  from Cons.prems(3) obtain p1 where p1: "pool_step p x = Inr p1" and r: "foldE pool_step p1 xs = Inr p'"
    by auto
  have inv1: "pool_inv p1" using Cons.prems(1,2) p1 by (auto intro: pool_step_inv)
  have "length (m_work_items p') = max (length (m_work_items p1)) (peak_live p1 xs)"
    using Cons.IH[OF inv1 _ r] Cons.prems(2) by simp
  moreover have "length (m_work_items p1) = max (length (m_work_items p)) (card (live p1))"
    using pool_step_slots[OF Cons.prems(1) _ p1] Cons.prems(2) by simp
  moreover have "card (live p) \<le> length (m_work_items p)"
    using slots_live_free[OF Cons.prems(1)] by simp
  ultimately show ?case using peak_live_ge[of p1 xs] p1 by simp
qed

section \<open>Properties\<close>

text \<open>
  C25: In every state that a sequence of allocations and releases can reach from the empty
  pool, an allocation succeeds and binds an identifier that was not in use to the new
  object and nothing else; releasing a live identifier succeeds and unbinds just it;
  releasing any other identifier (a double free in particular) stops the program.
\<close>

theorem pool_operations_in_reachable_states:
  assumes "\<forall>x \<in> set xs. op_ok x" and "foldE pool_step WorkPool_new xs = Inr p" and "junk_ok junk"
  shows "(\<exists>wid p'. internal_alloc_work_item junk socket descr p = Inr (length (heap p), p') \<and>
            wid \<notin> live p \<and> lookup p' = (lookup p)(wid \<mapsto> length (heap p)) \<and>
            m_id (deref p' (length (heap p))) = wid) \<and>
         (\<forall>wid. case lookup p wid of
            Some a \<Rightarrow> (\<exists>p'. free_work_item p wid = Inr p' \<and> lookup p' = (lookup p)(wid := None) \<and>
                           is_free (deref p' a))
          | None \<Rightarrow> (\<exists>e. free_work_item p wid = Inl e))"
proof -
  have inv: "pool_inv p" using pool_run_inv[OF pool_inv_new] assms(1,2) by blast
  have "\<exists>p'. free_work_item p wid = Inr p' \<and> lookup p' = (lookup p)(wid := None) \<and> is_free (deref p' a)"
    if l: "lookup p wid = Some a" for wid a
    using free_work_item_eq[OF inv l] lookup_free[OF inv l] pool_invD(1)[OF inv l]
    by (auto simp: deref_def is_free_def)
  moreover have "\<exists>e. free_work_item p wid = Inl e" if "lookup p wid = None" for wid
    using free_work_item_Inr[OF inv, of wid] that by (cases "free_work_item p wid") auto
  ultimately show ?thesis
    using internal_alloc_eq[OF inv, of junk socket descr] next_id_not_live[OF inv]
    by (fastforce simp: live_def deref_def split: option.splits)
qed

text \<open>
  C26: The pool never holds more slots than it ever needed at once: after any run from the
  empty pool, the size of the table is the largest number of items that were live at the
  same time.
\<close>

theorem pool_slots_are_peak:
  assumes "\<forall>x \<in> set xs. op_ok x" and "foldE pool_step WorkPool_new xs = Inr p"
  shows "length (m_work_items p) = peak_live WorkPool_new xs"
  using pool_run_slots[OF pool_inv_new assms] by (simp add: WorkPool_new_def)

text \<open>Two items, the first released, a third that takes its place.\<close>

definition example_run :: "pool_op list" where
  "example_run = [Alloc zero_item zero_socket ''a'', Alloc zero_item zero_socket ''b'', Release 0,
     Alloc zero_item zero_socket ''c'']"

lemma example_run_ok: "\<forall>x \<in> set example_run. op_ok x"
  by (simp add: example_run_def)

lemma example_run_result:
  "foldE pool_step WorkPool_new example_run =
     Inr \<lparr>heap = [(WorkItem_new zero_item 0 ''a'' zero_socket)\<lparr>m_state := FREE\<rparr>,
                 WorkItem_new zero_item 1 ''b'' zero_socket, WorkItem_new zero_item 0 ''c'' zero_socket],
          m_work_items = [Some 2, Some 1], m_free_ids = []\<rparr>"
  by (simp add: example_run_def WorkPool_new_def internal_alloc_work_item_def free_work_item_def
      mark_is_free_def deref_def store_def)

theorem pool_operations_in_reachable_states_witness:
  "\<exists>p. foldE pool_step WorkPool_new example_run = Inr p \<and> lookup p 1 = Some 1 \<and>
     (\<exists>p'. free_work_item p 1 = Inr p' \<and> lookup p' = (lookup p)(1 := None) \<and> is_free (deref p' 1))"
proof -
  obtain p where p: "foldE pool_step WorkPool_new example_run = Inr p" and l: "lookup p 1 = Some 1"
    by (simp add: example_run_result lookup_def)
  have "junk_ok zero_item" by simp
  note r = pool_operations_in_reachable_states[OF example_run_ok p this, of zero_socket "[]"]
  from spec[OF conjunct2[OF r], of 1] p l show ?thesis by auto
qed

theorem pool_slots_are_peak_witness:
  "\<exists>p. foldE pool_step WorkPool_new example_run = Inr p \<and>
     length (m_work_items p) = peak_live WorkPool_new example_run \<and> length (m_work_items p) = 2"
proof -
  obtain p where p: "foldE pool_step WorkPool_new example_run = Inr p"
    and l: "length (m_work_items p) = 2"
    by (simp add: example_run_result)
  from pool_slots_are_peak[OF example_run_ok p] p l show ?thesis by blast
qed

end
