(* ===== verification/Kernel.thy ===== *)
theory Kernel
  imports WorkPool
begin

text \<open>
  The boundary of the library: what it exchanges with liburing and the kernel.  These
  are not part of the repository, so nothing is assumed about them here.  Every call of
  \<^verbatim>\<open>IOUring\<close> that crosses the boundary is an \<open>event\<close>, the state of the ring keeps the
  sequence of its events (\<open>trace\<close>), and the answers come from a parameter \<open>env\<close>, whose
  functions see all earlier events: any behaviour of liburing and the kernel is such an
  \<open>env\<close>.  What the documentation promises of them is a hypothesis where it is needed.
\<close>

section \<open>Requests and completions\<close>

text \<open>
  A submission queue entry after one of the \<^verbatim>\<open>io_uring_prep_...\<close> functions.  The memory
  a request refers to is shown as it is when the entry is prepared.
\<close>

datatype prep =
    Prep_close int  \<comment> \<open>descriptor\<close>
  | Prep_accept int nat int  \<comment> \<open>descriptor, value behind \<^verbatim>\<open>addrlen\<close>, flags\<close>
  | Prep_connect int "byte list" nat  \<comment> \<open>descriptor, address, its length\<close>
  | Prep_recv int nat int  \<comment> \<open>descriptor, length, flags\<close>
  | Prep_recvmsg_multishot int msghdr iovec "32 word"  \<comment> \<open>descriptor, message, its iovec, flags\<close>
  | Prep_send int "byte list" nat int  \<comment> \<open>descriptor, data, length, flags\<close>
  | Prep_sendmsg int msghdr iovec "byte list" "byte list" "byte list" int
      \<comment> \<open>descriptor, message, its iovec, the memory of name, control and data, flags\<close>

record sqe =
  sqe_user_data :: nat
  sqe_prep :: prep
  sqe_flags :: "8 word"
  sqe_buf_group :: nat

text \<open>\<^verbatim>\<open>res\<close> is a C \<^verbatim>\<open>int\<close>: a count, a descriptor, or a negated error number.\<close>

record cqe =
  cqe_user_data :: nat
  cqe_res :: int
  cqe_flags :: "32 word"

text \<open>The header that \<^verbatim>\<open>io_uring_recvmsg_validate\<close> finds in a buffer.\<close>

record recvmsg_out =
  ro_namelen :: nat
  ro_controllen :: nat
  ro_payloadlen :: nat
  ro_flags :: "32 word"

record buf_reg =
  ring_addr :: nat
  ring_entries :: nat
  bgid :: nat
  reg_flags :: nat

section \<open>Events\<close>

text \<open>
  The calls into liburing, the kernel and the client, with their results.  The mask
  argument of \<^verbatim>\<open>io_uring_buf_ring_add\<close> is \<^verbatim>\<open>io_uring_buf_ring_mask(entries)\<close>; the
  event shows \<open>entries\<close>.
\<close>

datatype event =
    Ev_queue_init nat int
  | Ev_ring_dontfork
  | Ev_probe
  | Ev_mmap nat "nat option"
  | Ev_buf_ring_init nat
  | Ev_register_buf_ring buf_reg int
  | Ev_buf_ring_add nat nat nat nat nat
      \<comment> \<open>address, length, buffer number, entries of the ring, offset from the tail\<close>
  | Ev_buf_ring_advance nat
  | Ev_get_sqe bool
  | Ev_sqe sqe
  | Ev_submit int
  | Ev_cqe cqe
  | Ev_no_cqe
  | Ev_cq_advance nat
  | Ev_callback nat cb_arg
  | Ev_acquired nat
  | Ev_queue_exit

section \<open>The environment\<close>

text \<open>
  \<open>e_accept_memory\<close> is what the kernel has written through the two pointers of an accept
  request when its completion is seen, \<open>e_recvmsg_...\<close> are the results of the functions
  \<^verbatim>\<open>io_uring_recvmsg_...\<close> on a buffer, \<open>e_junk\<close> is the uninitialised memory of a new
  work item.
\<close>

record env =
  e_queue_init :: "event list \<Rightarrow> int"
  e_probe :: "event list \<Rightarrow> (int \<times> 16 word) list option"
  e_mmap :: "event list \<Rightarrow> nat option"
  e_register_buf_ring :: "event list \<Rightarrow> int"
  e_errno_to_error :: "int \<Rightarrow> error_code"
  e_get_sqe :: "event list \<Rightarrow> bool"
  e_submit :: "event list \<Rightarrow> int"
  e_peek_cqe :: "event list \<Rightarrow> int \<times> cqe"
  e_accept_memory :: "event list \<Rightarrow> byte list \<times> nat"
  e_recvmsg_validate :: "event list \<Rightarrow> nat \<Rightarrow> int \<Rightarrow> msghdr \<Rightarrow> recvmsg_out option"
  e_recvmsg_name :: "event list \<Rightarrow> nat \<Rightarrow> byte list"
  e_recvmsg_payload :: "event list \<Rightarrow> nat \<Rightarrow> msghdr \<Rightarrow> nat"
  e_recvmsg_payload_length :: "event list \<Rightarrow> nat \<Rightarrow> int \<Rightarrow> msghdr \<Rightarrow> nat"
  e_junk :: "event list \<Rightarrow> work_item"

section \<open>Projections of a trace\<close>

text \<open>The entries handed to the kernel, the callbacks run, and the calls on the buffer ring.\<close>

definition sqes :: "event list \<Rightarrow> sqe list" where
  "sqes tr = List.map_filter (\<lambda>e. case e of Ev_sqe s \<Rightarrow> Some s | _ \<Rightarrow> None) tr"

definition callbacks :: "event list \<Rightarrow> (nat \<times> cb_arg) list" where
  "callbacks tr = List.map_filter (\<lambda>e. case e of Ev_callback f x \<Rightarrow> Some (f, x) | _ \<Rightarrow> None) tr"

definition cqes :: "event list \<Rightarrow> cqe list" where
  "cqes tr = List.map_filter (\<lambda>e. case e of Ev_cqe c \<Rightarrow> Some c | _ \<Rightarrow> None) tr"

fun is_buf_event :: "event \<Rightarrow> bool" where
  "is_buf_event (Ev_buf_ring_add a l b m off) = True"
| "is_buf_event (Ev_buf_ring_advance n) = True"
| "is_buf_event e = False"

lemma projections_simps [simp]:
  "sqes [] = []" "callbacks [] = []" "cqes [] = []"
  "sqes (tr @ tr') = sqes tr @ sqes tr'"
  "callbacks (tr @ tr') = callbacks tr @ callbacks tr'"
  "cqes (tr @ tr') = cqes tr @ cqes tr'"
  "sqes (e # tr) = (case e of Ev_sqe s \<Rightarrow> [s] | _ \<Rightarrow> []) @ sqes tr"
  "callbacks (e # tr) = (case e of Ev_callback f x \<Rightarrow> [(f, x)] | _ \<Rightarrow> []) @ callbacks tr"
  "cqes (e # tr) = (case e of Ev_cqe c \<Rightarrow> [c] | _ \<Rightarrow> []) @ cqes tr"
  by (auto simp: sqes_def callbacks_def cqes_def List.map_filter_def split: event.splits)

section \<open>A concrete environment\<close>

text \<open>
  An environment for the examples of the later theories: everything succeeds and nothing
  completes.  They replace the functions they need.
\<close>

definition quiet_env :: env where
  "quiet_env = \<lparr>e_queue_init = (\<lambda>_. 0), e_probe = (\<lambda>_. Some (map (\<lambda>i. (i, 1)) [0..39])),
     e_mmap = (\<lambda>_. Some 20480), e_register_buf_ring = (\<lambda>_. 0),
     e_errno_to_error = (\<lambda>n. Other_error (nat n)), e_get_sqe = (\<lambda>_. True), e_submit = (\<lambda>_. 1),
     e_peek_cqe = (\<lambda>_. (- EAGAIN, \<lparr>cqe_user_data = 0, cqe_res = 0, cqe_flags = 0\<rparr>)),
     e_accept_memory = (\<lambda>_. ([], 0)), e_recvmsg_validate = (\<lambda>_ _ _ _. None),
     e_recvmsg_name = (\<lambda>_ _. []), e_recvmsg_payload = (\<lambda>_ _ _. 0),
     e_recvmsg_payload_length = (\<lambda>_ _ _ _. 0), e_junk = (\<lambda>_. zero_item)\<rparr>"

lemma quiet_env_simps [simp]:
  "e_queue_init quiet_env tr = 0" "e_probe quiet_env tr = Some (map (\<lambda>i. (i, 1)) [0..39])"
  "e_mmap quiet_env tr = Some 20480" "e_register_buf_ring quiet_env tr = 0"
  "e_get_sqe quiet_env tr = True" "e_submit quiet_env tr = 1" "e_junk quiet_env tr = zero_item"
  "e_accept_memory quiet_env tr = ([], 0)"
  by (simp_all add: quiet_env_def)

end
