(* ===== verification/BufferPool.thy ===== *)
theory BufferPool
  imports Kernel
begin

text \<open>
  The state of \<^verbatim>\<open>IOUring\<close> (\<^verbatim>\<open>src/IOUring.hpp\<close>) and its buffers: the memory of the
  receive buffers, the ring through which they are handed to the kernel
  (\<^verbatim>\<open>setup_buffer_pool\<close>, \<^verbatim>\<open>recycle_buffer\<close>, \<^verbatim>\<open>get_buffer\<close> of \<^verbatim>\<open>src/IOUring.cpp\<close>), and a
  specification of who owns which buffer.
\<close>

section \<open>The class IOUring\<close>

definition DEFAULT_QUEUE_SIZE :: nat where "DEFAULT_QUEUE_SIZE = 64"
definition QD :: nat where "QD = 64"
definition BUF_SHIFT :: nat where "BUF_SHIFT = 12"
definition CQES :: nat where "CQES = QD * 16"
definition BUFFERS :: nat where "BUFFERS = CQES"

definition sizeof_io_uring_buf :: nat where "sizeof_io_uring_buf = 16"

lemmas ring_constants = DEFAULT_QUEUE_SIZE_def QD_def BUF_SHIFT_def CQES_def BUFFERS_def
  sizeof_io_uring_buf_def

record uring =
  m_initialized :: bool
  m_queue_size :: nat
  m_reg :: buf_reg
  buf_ring :: nat  \<comment> \<open>its address, 0 for the null pointer\<close>
  buf_ring_size :: nat
  buf_shift :: nat
  buffer_base :: nat
  m_free_send_ids :: "nat list"  \<comment> \<open>the stack, its top first\<close>
  m_pool :: pool
  trace :: "event list"

definition log_ev :: "event \<Rightarrow> uring \<Rightarrow> uring" where
  "log_ev e st = st\<lparr>trace := trace st @ [e]\<rparr>"

text \<open>The constructor; \<open>m_reg\<close> is uninitialised.\<close>

definition IOUring_new :: "buf_reg \<Rightarrow> nat \<Rightarrow> uring" where
  "IOUring_new junk queue_size =
     \<lparr>m_initialized = False, m_queue_size = queue_size, m_reg = junk, buf_ring = 0,
      buf_ring_size = 0, buf_shift = BUF_SHIFT, buffer_base = 0, m_free_send_ids = [],
      m_pool = WorkPool_new, trace = []\<rparr>"

text \<open>\<^verbatim>\<open>IOUring::create\<close>, and \<^verbatim>\<open>IOUringInterface::create_impl\<close> with the default size.\<close>

definition IOUring_create :: "buf_reg \<Rightarrow> nat \<Rightarrow> uring" where
  "IOUring_create junk queue_size = IOUring_new junk queue_size"

definition IOUringInterface_create_impl :: "buf_reg \<Rightarrow> uring" where
  "IOUringInterface_create_impl junk = IOUring_create junk DEFAULT_QUEUE_SIZE"

definition IOUring_destroy :: "uring \<Rightarrow> uring" where
  "IOUring_destroy st = log_ev Ev_queue_exit st"

text \<open>
  \<^verbatim>\<open>buffer_size\<close> and \<^verbatim>\<open>get_buffer\<close> assert a positive shift.  The assertion is left out: the
  shift is set to \<open>BUF_SHIFT\<close>, 12, by the constructor and never changed.
\<close>

definition buffer_size :: "uring \<Rightarrow> nat" where
  "buffer_size st = push_bit (buf_shift st) 1"

definition get_buffer :: "uring \<Rightarrow> nat \<Rightarrow> nat" where
  "get_buffer st idx = buffer_base st + push_bit (buf_shift st) idx"

section \<open>Setting up\<close>

text \<open>
  The loop of \<^verbatim>\<open>setup_buffer_pool\<close> over the indices \<open>[i..<BUFFERS]\<close>, then the two
  statements behind it.  All entries of the ring are written, the tail is moved over
  the first half of them only; the numbers of the other half go to \<^verbatim>\<open>m_free_send_ids\<close>.
\<close>

definition add_buffer :: "nat \<Rightarrow> uring \<Rightarrow> uring" where
  "add_buffer i st = log_ev (Ev_buf_ring_add (get_buffer st i) (buffer_size st) i BUFFERS i) st"

definition push_send_id :: "nat \<Rightarrow> uring \<Rightarrow> uring" where
  "push_send_id i st = st\<lparr>m_free_send_ids := i # m_free_send_ids st\<rparr>"

definition setup_buffer_pool :: "env \<Rightarrow> uring \<Rightarrow> uring \<times> error_code" where
  "setup_buffer_pool env st =
     (let st = st\<lparr>buf_ring_size := (sizeof_io_uring_buf + buffer_size st) * BUFFERS\<rparr>;
          mapped = e_mmap env (trace st);
          st = log_ev (Ev_mmap (buf_ring_size st) mapped) st
      in case mapped of
           None \<Rightarrow> (st, MMAP_FAILED)
         | Some addr \<Rightarrow>
             (let st = st\<lparr>buf_ring := addr\<rparr>;
                  st = log_ev (Ev_buf_ring_init addr) st;
                  st = st\<lparr>m_reg := \<lparr>ring_addr = addr, ring_entries = BUFFERS, bgid = 0, reg_flags = 0\<rparr>\<rparr>;
                  st = st\<lparr>buffer_base := addr + sizeof_io_uring_buf * BUFFERS\<rparr>;
                  ret = e_register_buf_ring env (trace st);
                  st = log_ev (Ev_register_buf_ring (m_reg st) ret) st
              in if ret \<noteq> 0 then (st, e_errno_to_error env (- ret))
                 else
                   (let st = fold add_buffer [0..<BUFFERS] st;
                        st = log_ev (Ev_buf_ring_advance (BUFFERS div 2)) st;
                        st = fold push_send_id [BUFFERS div 2..<BUFFERS] st
                    in (st, OK))))"

definition recycle_buffer :: "nat \<Rightarrow> uring \<Rightarrow> uring" where
  "recycle_buffer idx st =
     log_ev (Ev_buf_ring_advance 1)
       (log_ev (Ev_buf_ring_add (get_buffer st idx) (buffer_size st) idx BUFFERS 0) st)"

lemma log_ev_simps [simp]:
  "trace (log_ev e st) = trace st @ [e]"
  "m_initialized (log_ev e st) = m_initialized st"
  "m_queue_size (log_ev e st) = m_queue_size st"
  "m_reg (log_ev e st) = m_reg st"
  "buf_ring (log_ev e st) = buf_ring st"
  "buf_ring_size (log_ev e st) = buf_ring_size st"
  "buf_shift (log_ev e st) = buf_shift st"
  "buffer_base (log_ev e st) = buffer_base st"
  "m_free_send_ids (log_ev e st) = m_free_send_ids st"
  "m_pool (log_ev e st) = m_pool st"
  "buffer_size (log_ev e st) = buffer_size st"
  "get_buffer (log_ev e st) = get_buffer st"
  by (simp_all add: log_ev_def buffer_size_def get_buffer_def fun_eq_iff)

lemma recycle_buffer_simps [simp]:
  "trace (recycle_buffer idx st) = trace st @
     [Ev_buf_ring_add (get_buffer st idx) (buffer_size st) idx BUFFERS 0, Ev_buf_ring_advance 1]"
  "m_pool (recycle_buffer idx st) = m_pool st"
  "m_initialized (recycle_buffer idx st) = m_initialized st"
  "buf_shift (recycle_buffer idx st) = buf_shift st"
  "buffer_base (recycle_buffer idx st) = buffer_base st"
  "buf_ring_size (recycle_buffer idx st) = buf_ring_size st"
  "m_free_send_ids (recycle_buffer idx st) = m_free_send_ids st"
  by (simp_all add: recycle_buffer_def)

section \<open>What the kernel is given\<close>

text \<open>
  The meaning of the two calls on the shared ring, from the manual pages
  \<^verbatim>\<open>io_uring_buf_ring_add(3)\<close> and \<^verbatim>\<open>io_uring_buf_ring_advance(3)\<close>: the first writes an
  entry (address, length, number) at an offset from the tail, the second hands the next
  entries to the kernel.  \<open>br_given\<close> lists the entries handed over so far, in order.
\<close>

type_synonym buf_entry = "nat \<times> nat \<times> nat"

record buf_ring_view =
  br_slots :: "nat \<Rightarrow> buf_entry"
  br_tail :: nat
  br_given :: "buf_entry list"

definition ring_empty :: buf_ring_view where
  "ring_empty = \<lparr>br_slots = (\<lambda>_. (0, 0, 0)), br_tail = 0, br_given = []\<rparr>"

fun ring_step :: "event \<Rightarrow> buf_ring_view \<Rightarrow> buf_ring_view" where
  "ring_step (Ev_buf_ring_add a l b n off) r =
     r\<lparr>br_slots := (br_slots r)((br_tail r + off) mod n := (a, l, b))\<rparr>"
| "ring_step (Ev_buf_ring_advance k) r =
     r\<lparr>br_given := br_given r @ map (\<lambda>j. br_slots r ((br_tail r + j) mod BUFFERS)) [0..<k],
       br_tail := br_tail r + k\<rparr>"
| "ring_step e r = r"

definition ring_view :: "event list \<Rightarrow> buf_ring_view" where
  "ring_view tr = fold ring_step tr ring_empty"

definition given :: "event list \<Rightarrow> buf_entry list" where
  "given tr = br_given (ring_view tr)"

lemma ring_view_append: "ring_view (tr @ tr') = fold ring_step tr' (ring_view tr)"
  by (simp add: ring_view_def)

lemma ring_step_other: "\<not> is_buf_event e \<Longrightarrow> ring_step e r = r"
  by (cases e) simp_all

lemma fold_ring_step_other: "\<forall>e \<in> set tr. \<not> is_buf_event e \<Longrightarrow> fold ring_step tr r = r"
  by (induction tr arbitrary: r) (simp_all add: ring_step_other)

lemma given_other [simp]: "\<forall>e \<in> set tr'. \<not> is_buf_event e \<Longrightarrow> given (tr @ tr') = given tr"
  by (simp add: given_def ring_view_append fold_ring_step_other)

lemma ring_view_other: "\<forall>e \<in> set tr. \<not> is_buf_event e \<Longrightarrow> ring_view tr = ring_empty"
  by (simp add: ring_view_def fold_ring_step_other)

text \<open>Writing at the tail and advancing by one gives the kernel just that entry.\<close>

lemma given_recycle:
  "given (tr @ [Ev_buf_ring_add a l b BUFFERS 0, Ev_buf_ring_advance 1]) = given tr @ [(a, l, b)]"
  by (simp add: given_def ring_view_append ring_constants)

section \<open>The ring after setting up\<close>

lemma fold_add_buffer:
  "fold add_buffer is st = st\<lparr>trace := trace st @
     map (\<lambda>i. Ev_buf_ring_add (get_buffer st i) (buffer_size st) i BUFFERS i) is\<rparr>"
proof (induction "is" arbitrary: st)
  case (Cons i js)
  have "get_buffer (add_buffer i st) = get_buffer st" "buffer_size (add_buffer i st) = buffer_size st"
    by (simp_all add: add_buffer_def)
  then show ?case by (simp add: Cons) (simp add: add_buffer_def log_ev_def)
qed simp

lemma fold_push_send_id:
  "fold push_send_id is st = st\<lparr>m_free_send_ids := rev is @ m_free_send_ids st\<rparr>"
  by (induction "is" arbitrary: st) (simp_all add: push_send_id_def)

lemma slots_after_adds:
  assumes "n \<le> BUFFERS"
  shows "fold ring_step (map (\<lambda>i. Ev_buf_ring_add (f i) l i BUFFERS i) [0..<n]) ring_empty =
     ring_empty\<lparr>br_slots := (\<lambda>j. if j < n then (f j, l, j) else (0, 0, 0))\<rparr>"
  using assms
proof (induction n)
  case 0
  then show ?case by (simp add: ring_empty_def)
next
  case (Suc n)
  then have "n mod BUFFERS = n" by simp
  with Suc show ?case by (auto simp: ring_empty_def fun_eq_iff)
qed

lemma given_after_setup:
  assumes "\<forall>e \<in> set tr. \<not> is_buf_event e"
  shows "given (tr @ map (\<lambda>i. Ev_buf_ring_add (f i) l i BUFFERS i) [0..<BUFFERS]
            @ [Ev_buf_ring_advance (BUFFERS div 2)]) =
     map (\<lambda>i. (f i, l, i)) [0..<BUFFERS div 2]"
proof -
  have "fold ring_step (map (\<lambda>i. Ev_buf_ring_add (f i) l i BUFFERS i) [0..<BUFFERS]) (ring_view tr) =
      ring_empty\<lparr>br_slots := (\<lambda>j. if j < BUFFERS then (f j, l, j) else (0, 0, 0))\<rparr>"
    using assms slots_after_adds[of BUFFERS f l] by (simp add: ring_view_other)
  then show ?thesis
    by (auto simp: given_def ring_view_append ring_empty_def)
qed

text \<open>\<^verbatim>\<open>setup_buffer_pool\<close> in closed form, when both calls into the kernel succeed.\<close>

lemma setup_buffer_pool_eq:
  assumes map: "e_mmap env (trace st) = Some addr" and reg: "\<forall>tr. e_register_buf_ring env tr = 0"
    and shift: "buf_shift st = BUF_SHIFT"
  shows "\<exists>st' tr. setup_buffer_pool env st = (st', OK) \<and> trace st' = trace st @ tr @
       map (\<lambda>i. Ev_buf_ring_add (addr + 16 * BUFFERS + 4096 * i) 4096 i BUFFERS i) [0..<BUFFERS]
         @ [Ev_buf_ring_advance (BUFFERS div 2)] \<and>
     tr = [Ev_mmap (4112 * BUFFERS) (Some addr), Ev_buf_ring_init addr,
           Ev_register_buf_ring \<lparr>ring_addr = addr, ring_entries = BUFFERS, bgid = 0, reg_flags = 0\<rparr> 0] \<and>
     m_free_send_ids st' = rev [BUFFERS div 2..<BUFFERS] @ m_free_send_ids st \<and>
     buffer_base st' = addr + 16 * BUFFERS \<and> buf_ring_size st' = 4112 * BUFFERS \<and>
     buf_ring st' = addr \<and> buf_shift st' = BUF_SHIFT \<and> m_pool st' = m_pool st"
proof -
  have c: "push_bit BUF_SHIFT (1 :: nat) = 4096" "push_bit BUF_SHIFT i = 4096 * i" for i :: nat
    by (simp_all add: BUF_SHIFT_def push_bit_eq_mult)
  have p: "(2 :: nat) ^ BUF_SHIFT = 4096" by (simp add: BUF_SHIFT_def)
  show ?thesis
    unfolding setup_buffer_pool_def Let_def fold_push_send_id fold_add_buffer
    using map reg by (simp add: shift c p buffer_size_def get_buffer_def sizeof_io_uring_buf_def
        add.assoc)
qed

section \<open>Properties\<close>

text \<open>
  After a successful set-up on a fresh ring the kernel has been given exactly the lower
  half of the buffers, each once and in order, with the address that \<^verbatim>\<open>get_buffer\<close>
  computes and the full length; the numbers of the upper half are on the stack of the
  send buffers.
\<close>

lemma setup_gives_lower_half:
  assumes "e_mmap env (trace st) = Some addr" and "\<forall>tr. e_register_buf_ring env tr = 0"
    and "buf_shift st = BUF_SHIFT" and "\<forall>e \<in> set (trace st). \<not> is_buf_event e"
  shows "\<exists>st'. setup_buffer_pool env st = (st', OK) \<and>
     given (trace st') = map (\<lambda>i. (get_buffer st' i, buffer_size st', i)) [0..<512] \<and>
     m_free_send_ids st' = rev [512..<1024] @ m_free_send_ids st"
proof -
  from setup_buffer_pool_eq[OF assms(1-3)] obtain st' tr where
    s: "setup_buffer_pool env st = (st', OK)" and
    t: "trace st' = (trace st @ tr) @
       map (\<lambda>i. Ev_buf_ring_add (addr + 16 * BUFFERS + 4096 * i) 4096 i BUFFERS i) [0..<BUFFERS]
         @ [Ev_buf_ring_advance (BUFFERS div 2)]" and
    tr: "\<forall>e \<in> set tr. \<not> is_buf_event e" and
    f: "m_free_send_ids st' = rev [BUFFERS div 2..<BUFFERS] @ m_free_send_ids st"
      "buffer_base st' = addr + 16 * BUFFERS" "buf_shift st' = BUF_SHIFT"
    by auto
  have q: "get_buffer st' i = addr + 16 * BUFFERS + 4096 * i" "buffer_size st' = 4096" for i
    using f by (simp_all add: get_buffer_def buffer_size_def BUF_SHIFT_def push_bit_eq_mult)
  have "given (trace st') = map (\<lambda>i. (addr + 16 * BUFFERS + 4096 * i, 4096, i)) [0..<BUFFERS div 2]"
    unfolding t using assms(4) tr by (intro given_after_setup) auto
  with s f(1) q show ?thesis by (simp add: ring_constants del: upt_rec_numeral)
qed

text \<open>
  C33: The buffers lie inside the mapping, behind the entries of the ring, and no two of
  them overlap.
\<close>

theorem buffers_inside_mapping_disjoint:
  assumes "setup_buffer_pool env st = (st', OK)" and "buf_shift st = BUF_SHIFT" and "i < BUFFERS"
    and "\<forall>tr. e_register_buf_ring env tr = 0"
  shows "buf_ring st' + 16 * BUFFERS \<le> get_buffer st' i \<and>
     get_buffer st' i + buffer_size st' \<le> buf_ring st' + buf_ring_size st' \<and>
     (\<forall>j. j \<noteq> i \<longrightarrow> {get_buffer st' i ..< get_buffer st' i + buffer_size st'} \<inter>
        {get_buffer st' j ..< get_buffer st' j + buffer_size st'} = {})"
proof -
  obtain addr where m: "e_mmap env (trace st) = Some addr"
    using assms(1) by (cases "e_mmap env (trace st)") (auto simp: setup_buffer_pool_def)
  have st': "buffer_base st' = addr + 16 * BUFFERS" "buf_ring_size st' = 4112 * BUFFERS"
    "buf_ring st' = addr" "buf_shift st' = BUF_SHIFT"
    using setup_buffer_pool_eq[OF m assms(4,2)] assms(1) by auto
  have q: "get_buffer st' j = addr + 16 * BUFFERS + 4096 * j" "buffer_size st' = 4096" for j
    using st' by (simp_all add: get_buffer_def buffer_size_def BUF_SHIFT_def push_bit_eq_mult)
  have "{get_buffer st' i ..< get_buffer st' i + buffer_size st'} \<inter>
        {get_buffer st' j ..< get_buffer st' j + buffer_size st'} = {}" if "j \<noteq> i" for j
    unfolding q using that by (cases "j < i") auto
  with assms(3) show ?thesis by (simp add: q(1) st'(2,3)) (simp add: q(2))
qed

text \<open>
  Recycling a buffer gives the kernel exactly that buffer, once, with its address and
  full length, whatever happened on the ring before.
\<close>

lemma recycle_gives_buffer_back:
  "given (trace (recycle_buffer idx st)) =
     given (trace st) @ [(get_buffer st idx, buffer_size st, idx)]"
  by (simp add: given_recycle[simplified])

theorem buffers_inside_mapping_disjoint_witness:
  "\<exists>st'. setup_buffer_pool quiet_env (IOUring_new \<lparr>ring_addr = 0, ring_entries = 0, bgid = 0, reg_flags = 0\<rparr> 64) =
       (st', OK) \<and>
     get_buffer st' 1023 + buffer_size st' \<le> buf_ring st' + buf_ring_size st'"
proof -
  let ?st = "IOUring_new \<lparr>ring_addr = 0, ring_entries = 0, bgid = 0, reg_flags = 0\<rparr> 64"
  have s: "buf_shift ?st = BUF_SHIFT" by (simp add: IOUring_new_def)
  from setup_buffer_pool_eq[of quiet_env ?st 20480, OF _ _ s] obtain st' where
    1: "setup_buffer_pool quiet_env ?st = (st', OK)" by auto
  from buffers_inside_mapping_disjoint[OF 1 s, of 1023] 1 show ?thesis by (simp add: ring_constants)
qed

end
