(* ===== verification/Submit.thy ===== *)
theory Submit
  imports BufferPool
begin

text \<open>
  Handing a work item to the kernel: \<^verbatim>\<open>IOUring::get_sqe\<close>, \<^verbatim>\<open>submit_all_requests\<close>,
  \<^verbatim>\<open>submit\<close> and \<^verbatim>\<open>WorkItem::init_send_msg\<close> of \<^verbatim>\<open>src/IOUring.cpp\<close>, and the entry points
  of the interface that do so.
\<close>

section \<open>Control messages\<close>

text \<open>
  The macros of \<^verbatim>\<open><sys/socket.h>\<close> on a 64-bit Linux, with pointers into the control
  buffer as offsets.
\<close>

definition sizeof_cmsghdr :: nat where "sizeof_cmsghdr = 16"

definition CMSG_ALIGN :: "nat \<Rightarrow> nat" where "CMSG_ALIGN n = (n + 7) div 8 * 8"
definition CMSG_SPACE :: "nat \<Rightarrow> nat" where "CMSG_SPACE n = CMSG_ALIGN n + CMSG_ALIGN sizeof_cmsghdr"
definition CMSG_LEN :: "nat \<Rightarrow> nat" where "CMSG_LEN n = CMSG_ALIGN sizeof_cmsghdr + n"

lemmas cmsg_defs = sizeof_cmsghdr_def CMSG_ALIGN_def CMSG_SPACE_def CMSG_LEN_def

definition cmsg_len :: "byte list \<Rightarrow> nat \<Rightarrow> nat" where
  "cmsg_len control off = unat (of_le (take 8 (drop off control)) :: 64 word)"

definition CMSG_FIRSTHDR :: "nat \<Rightarrow> nat option" where
  "CMSG_FIRSTHDR controllen = (if sizeof_cmsghdr \<le> controllen then Some 0 else None)"

definition CMSG_NXTHDR :: "byte list \<Rightarrow> nat \<Rightarrow> nat \<Rightarrow> nat option" where
  "CMSG_NXTHDR control controllen off =
     (if cmsg_len control off < sizeof_cmsghdr then None
      else let nxt = off + CMSG_ALIGN (cmsg_len control off)
           in if nxt + sizeof_cmsghdr \<le> controllen then Some nxt else None)"

text \<open>The four assignments that fill in the message at \<open>off\<close>.\<close>

definition fill_cmsg :: "nat \<Rightarrow> int \<Rightarrow> int \<Rightarrow> byte list \<Rightarrow> byte list \<Rightarrow> byte list" where
  "fill_cmsg off level type d control =
     (let control = memcpy_at (off + 8) (le_bytes 4 (of_int level :: 32 word)) control;
          control = memcpy_at (off + 12) (le_bytes 4 (of_int type :: 32 word)) control;
          control = memcpy_at off (le_bytes 8 (of_nat (CMSG_LEN (length d)) :: 64 word)) control
      in memcpy_at (off + sizeof_cmsghdr) d control)"

section \<open>Datagrams\<close>

definition init_send_msg :: "work_item \<Rightarrow> work_item res" where
  "init_send_msg wi =
     bindE (assertE (m_work_type wi = SEND_WORKPACKET)) (\<lambda>_.
     let msg = (m_msg wi)\<lparr>msg_iov_set := True, msg_iovlen := 1\<rparr>;
         iov = \<lparr>iov_base = Iov_send_packet, iov_len = packet_size (m_send_packet wi)\<rparr>;
         congestion_notification = 0 :: 8 word;
         tos = push_bit 2 (dscp (m_params wi)) OR congestion_notification;
         ttl32 = ucast (ttl (m_params wi)) :: 32 word
     in
     bindE (assertE (0 < sint ttl32 \<and> sint ttl32 < 256)) (\<lambda>_.
     let control = replicate (length (m_control wi)) 0;
         msg = msg\<lparr>msg_control_set := True, msg_controllen := CMSG_SPACE 1 + CMSG_SPACE 4\<rparr>
     in
     bindE (assertE (msg_controllen msg < length control)) (\<lambda>_.
     case CMSG_FIRSTHDR (msg_controllen msg) of
       None \<Rightarrow> Inl Assertion_failed
     | Some c1 \<Rightarrow>
         (let control = fill_cmsg c1 IPPROTO_IP IP_TOS (le_bytes 1 tos) control
          in case CMSG_NXTHDR control (msg_controllen msg) c1 of
               None \<Rightarrow> Inl Assertion_failed
             | Some c2 \<Rightarrow>
                 (let control = fill_cmsg c2 IPPROTO_IP IP_TTL (le_bytes 4 ttl32) control;
                      msg = msg\<lparr>msg_flags := 0\<rparr>;
                      wi = wi\<lparr>m_msg_iov := iov, m_control := control,
                              m_sa := destination_address (m_params wi)\<rparr>
                  in if m_in4 (m_sa wi) \<noteq> None
                     then Inr (wi\<lparr>m_msg := msg\<lparr>msg_name := Name_sa_in4, msg_namelen := sizeof_sockaddr_in\<rparr>\<rparr>)
                     else if m_in6 (m_sa wi) \<noteq> None
                     then Inr (wi\<lparr>m_msg := msg\<lparr>msg_name := Name_sa_in6, msg_namelen := sizeof_sockaddr_in6\<rparr>\<rparr>)
                     else Inl Aborted)))))"

text \<open>The memory that \<^verbatim>\<open>msg_name\<close>, \<^verbatim>\<open>msg_control\<close> and \<^verbatim>\<open>iov_base\<close> of an item refer to.\<close>

definition msg_name_bytes :: "work_item \<Rightarrow> byte list" where
  "msg_name_bytes wi =
     (case msg_name (m_msg wi) of
        Name_null \<Rightarrow> []
      | Name_buffer_for_uring \<Rightarrow> take (msg_namelen (m_msg wi)) (m_buffer_for_uring wi)
      | Name_sa_in4 \<Rightarrow> (case m_in4 (m_sa wi) of Some sa \<Rightarrow> sockaddr_in_bytes sa | None \<Rightarrow> [])
      | Name_sa_in6 \<Rightarrow> (case m_in6 (m_sa wi) of Some sa \<Rightarrow> sockaddr_in6_bytes sa | None \<Rightarrow> []))"

definition msg_control_bytes :: "work_item \<Rightarrow> byte list" where
  "msg_control_bytes wi =
     (if msg_control_set (m_msg wi) then take (msg_controllen (m_msg wi)) (m_control wi) else [])"

definition iov_bytes :: "work_item \<Rightarrow> byte list" where
  "iov_bytes wi =
     (case iov_base (m_msg_iov wi) of
        Iov_null \<Rightarrow> []
      | Iov_send_packet \<Rightarrow> take (iov_len (m_msg_iov wi)) (packet_data (m_send_packet wi)))"

section \<open>The submission queue\<close>

definition submit_all_requests :: "env \<Rightarrow> event list \<Rightarrow> event list" where
  "submit_all_requests env tr = tr @ [Ev_submit (e_submit env tr)]"

definition try_get_sqe :: "env \<Rightarrow> event list \<Rightarrow> bool \<times> event list" where
  "try_get_sqe env tr = (e_get_sqe env tr, tr @ [Ev_get_sqe (e_get_sqe env tr)])"

text \<open>\<^verbatim>\<open>get_sqe\<close>: a full queue is submitted once before the program gives up.\<close>

definition get_sqe :: "env \<Rightarrow> event list \<Rightarrow> event list res" where
  "get_sqe env tr =
     (case try_get_sqe env tr of
        (True, tr1) \<Rightarrow> Inr tr1
      | (False, tr1) \<Rightarrow>
          (case try_get_sqe env (submit_all_requests env tr1) of
             (True, tr2) \<Rightarrow> Inr tr2
           | (False, tr2) \<Rightarrow> Inl Aborted))"

definition link_flag :: "work_item \<Rightarrow> 8 word" where
  "link_flag item = (if next_request_should_wait_for_this_request item then IOSQE_IO_LINK else 0)"

text \<open>The \<^verbatim>\<open>switch\<close> of \<^verbatim>\<open>IOUring::submit\<close>: the item as it is left and the entry.\<close>

definition prepare :: "nat \<Rightarrow> work_item \<Rightarrow> (work_item \<times> prep \<times> 8 word) res" where
  "prepare bufsz item =
     (let sock_fd = get_fd (m_socket item) in
      case m_work_type item of
        UNKNOWN \<Rightarrow> Inl Aborted
      | CLOSE \<Rightarrow> Inr (item, Prep_close sock_fd, 0)
      | ACCEPT \<Rightarrow>
          (let item = item\<lparr>m_accept_sock_len := 0\<rparr>
           in Inr (item, Prep_accept sock_fd (m_accept_sock_len item) 0, 0))
      | CONNECT \<Rightarrow>
          bindE (assertE (m_connect_sock_len item > 0)) (\<lambda>_.
          bindE (assertE (m_connect_sock_len item = sizeof_sockaddr_in)) (\<lambda>_.
            Inr (item, Prep_connect sock_fd (take (m_connect_sock_len item) (m_buffer_for_uring item))
                         (m_connect_sock_len item), link_flag item)))
      | RECV \<Rightarrow>
          (if item_is_stream item
           then Inr (item, Prep_recv sock_fd bufsz 0, IOSQE_BUFFER_SELECT)
           else
             (let msg = msghdr_zero\<lparr>msg_name := Name_buffer_for_uring,
                                    msg_namelen := length (m_buffer_for_uring item),
                                    msg_iov_set := True, msg_iovlen := 1\<rparr>
              in bindE (assertE (msg_iovlen msg = 1)) (\<lambda>_.
                 let item = item\<lparr>m_msg := msg, m_msg_iov := (m_msg_iov item)\<lparr>iov_base := Iov_null\<rparr>\<rparr>
                 in Inr (item, Prep_recvmsg_multishot sock_fd msg (m_msg_iov item) MSG_TRUNC,
                         IOSQE_BUFFER_SELECT))))
      | SEND_STREAM_DATA \<Rightarrow>
          bindE (assertE (item_is_stream item)) (\<lambda>_.
          let sp = get_raw_send_packet item
          in Inr (item, Prep_send sock_fd (take (packet_size sp) (packet_data sp)) (packet_size sp) 0,
                  link_flag item))
      | SEND_WORKPACKET \<Rightarrow>
          bindE (assertE (\<not> item_is_stream item)) (\<lambda>_.
          bindE (init_send_msg item) (\<lambda>item.
            Inr (item, Prep_sendmsg sock_fd (m_msg item) (m_msg_iov item) (msg_name_bytes item)
                         (msg_control_bytes item) (iov_bytes item) 0, link_flag item))))"

definition submit :: "env \<Rightarrow> nat \<Rightarrow> event list submitter" where
  "submit env bufsz item tr =
     bindE (get_sqe env tr) (\<lambda>tr1.
     bindE (prepare bufsz item) (\<lambda>(item', p, fl).
       let e = \<lparr>sqe_user_data = m_id item, sqe_prep = p, sqe_flags = fl, sqe_buf_group = 0\<rparr>
       in Inr (item', submit_all_requests env (tr1 @ [Ev_sqe e]))))"

section \<open>Entry points of the interface\<close>

definition with_pool :: "(pool \<times> event list \<Rightarrow> (nat \<times> pool \<times> event list) res) \<Rightarrow> uring \<Rightarrow> (nat \<times> uring) res" where
  "with_pool f st =
     bindE (f (m_pool st, trace st)) (\<lambda>(a, p, tr). Inr (a, st\<lparr>m_pool := p, trace := tr\<rparr>))"

definition submit_accept :: "env \<Rightarrow> isocket \<Rightarrow> func \<Rightarrow> uring \<Rightarrow> (nat \<times> uring) res" where
  "submit_accept env socket handler st =
     bindE (assertE (get_kind socket = SERVER_STREAM_SOCKET)) (\<lambda>_.
     bindE (assertE (m_initialized st)) (\<lambda>_.
       with_pool (alloc_accept_work_item (submit env (buffer_size st)) (e_junk env (trace st))
                    socket handler ''accept-job'') st))"

definition submit_connect :: "env \<Rightarrow> isocket \<Rightarrow> IPAddress \<Rightarrow> func \<Rightarrow> uring \<Rightarrow> (nat \<times> uring) res" where
  "submit_connect env socket target handler st =
     bindE (assertE (m_initialized st)) (\<lambda>_.
       with_pool (alloc_connect_work_item (submit env (buffer_size st)) (e_junk env (trace st))
                    target socket handler ''connect-job'') st)"

definition submit_recv :: "env \<Rightarrow> isocket \<Rightarrow> func \<Rightarrow> uring \<Rightarrow> (nat \<times> uring) res" where
  "submit_recv env socket handler st =
     bindE (assertE (m_initialized st)) (\<lambda>_.
       with_pool (alloc_recv_work_item (submit env (buffer_size st)) (e_junk env (trace st))
                    socket handler ''read-from-socket'') st)"

definition submit_close :: "env \<Rightarrow> isocket \<Rightarrow> func \<Rightarrow> uring \<Rightarrow> (nat \<times> uring) res" where
  "submit_close env socket handler st =
     bindE (assertE (m_initialized st)) (\<lambda>_.
       with_pool (alloc_close_work_item (submit env (buffer_size st)) (e_junk env (trace st))
                    socket handler ''close-of-socket'') st)"

text \<open>The pointer that \<^verbatim>\<open>ackuire_send_workitem\<close> returns is logged, as the client sees it.\<close>

definition ackuire_send_workitem :: "env \<Rightarrow> isocket \<Rightarrow> uring \<Rightarrow> (nat \<times> uring) res" where
  "ackuire_send_workitem env socket st =
     bindE (assertE (m_initialized st)) (\<lambda>_.
     bindE (alloc_send_work_item (e_junk env (trace st)) socket ''write-from-socket'' (m_pool st)) (\<lambda>(a, p).
       Inr (a, log_ev (Ev_acquired a) (st\<lparr>m_pool := p\<rparr>))))"

text \<open>\<^verbatim>\<open>submit(*work_item)\<close> on an object of the heap.\<close>

definition submit_item_at :: "event list submitter \<Rightarrow> nat \<Rightarrow> uring \<Rightarrow> uring res" where
  "submit_item_at f a st =
     (if a < length (heap (m_pool st))
      then bindE (submit_at f a (m_pool st, trace st)) (\<lambda>(p, tr). Inr (st\<lparr>m_pool := p, trace := tr\<rparr>))
      else Inl Undefined_behaviour)"

definition send_packet_item :: "env \<Rightarrow> nat \<Rightarrow> uring \<Rightarrow> uring res" where
  "send_packet_item env a st = submit_item_at (submit env (buffer_size st)) a st"

section \<open>Lemmas on submitting\<close>

text \<open>Events of the submission queue only.\<close>

fun is_queue_event :: "event \<Rightarrow> bool" where
  "is_queue_event (Ev_get_sqe b) = True"
| "is_queue_event (Ev_submit r) = True"
| "is_queue_event e = False"

lemma queue_events_silent:
  assumes "\<forall>e \<in> set tr. is_queue_event e"
  shows "sqes tr = []" "callbacks tr = []" "cqes tr = []" "\<forall>e \<in> set tr. \<not> is_buf_event e"
proof -
  have "sqes tr = [] \<and> callbacks tr = [] \<and> cqes tr = [] \<and> (\<forall>e \<in> set tr. \<not> is_buf_event e)"
    using assms
  proof (induction tr)
    case (Cons e tr)
    then show ?case by (cases e) simp_all
  qed simp
  then show "sqes tr = []" "callbacks tr = []" "cqes tr = []" "\<forall>e \<in> set tr. \<not> is_buf_event e"
    by simp_all
qed

lemma get_sqe_trace:
  "get_sqe env tr = Inr tr' \<Longrightarrow> \<exists>q. tr' = tr @ q \<and> (\<forall>e \<in> set q. is_queue_event e)"
  by (auto simp: get_sqe_def try_get_sqe_def submit_all_requests_def split: bool.splits)

text \<open>The program gives up only if the queue is full before and after a submission.\<close>

lemma get_sqe_Inl:
  "get_sqe env tr = Inl e \<longleftrightarrow> e = Aborted \<and> \<not> e_get_sqe env tr \<and>
     \<not> e_get_sqe env (submit_all_requests env (tr @ [Ev_get_sqe False]))"
  by (auto simp: get_sqe_def try_get_sqe_def split: bool.splits)

lemma length_fill_cmsg [simp]:
  "off + sizeof_cmsghdr + length d \<le> length control \<Longrightarrow>
     length (fill_cmsg off level type d control) = length control"
  by (simp add: fill_cmsg_def Let_def sizeof_cmsghdr_def)

text \<open>The length field of a message that has been filled in.\<close>

lemma cmsg_len_fill_cmsg:
  assumes "off + sizeof_cmsghdr + length d \<le> length control" and "length d < 2 ^ 32"
  shows "cmsg_len (fill_cmsg off level type d control) off = CMSG_LEN (length d)"
proof -
  let ?c = "memcpy_at (off + 12) (le_bytes 4 (of_int type :: 32 word))
     (memcpy_at (off + 8) (le_bytes 4 (of_int level :: 32 word)) control)"
  let ?l = "le_bytes 8 (of_nat (CMSG_LEN (length d)) :: 64 word)"
  have len: "length ?c = length control" using assms(1) by (simp add: sizeof_cmsghdr_def)
  have "take 8 (drop off (fill_cmsg off level type d control)) = drop off (take (off + 8) (memcpy_at off ?l ?c))"
    using assms(1) len
    by (simp add: fill_cmsg_def Let_def take_drop add.commute sizeof_cmsghdr_def take_memcpy_at_before)
  also have "\<dots> = ?l"
    using take_memcpy_at[of off ?c ?l] assms(1) len by simp
  finally have "cmsg_len (fill_cmsg off level type d control) off = CMSG_LEN (length d) mod 2 ^ 64"
    by (simp add: cmsg_len_def unat_of_nat del: of_nat_add)
  with assms(2) show ?thesis by (simp add: cmsg_defs)
qed

definition send_control :: "8 word \<Rightarrow> 32 word \<Rightarrow> nat \<Rightarrow> byte list" where
  "send_control tos ttl32 n =
     fill_cmsg 24 IPPROTO_IP IP_TTL (le_bytes 4 ttl32)
       (fill_cmsg 0 IPPROTO_IP IP_TOS (le_bytes 1 tos) (replicate n 0))"


lemma sint_ttl: "sint (ucast (t :: 8 word) :: 32 word) = uint t"
proof -
  have "uint t < 2 ^ 31" using uint_lt2p[of t] by simp
  moreover have "- (2 ^ 31) \<le> uint t" by (rule order_trans[OF _ uint_ge_0]) simp
  ultimately have "signed_take_bit 31 (uint t) = uint t" by (rule signed_take_bit_int_eq_self[rotated])
  then show ?thesis by (simp add: signed_ucast_eq)
qed

text \<open>\<open>init_send_msg\<close> in closed form, every branch included.\<close>

lemma init_send_msg_eq:
  assumes "item_inv wi"
  shows "init_send_msg wi =
    (if m_work_type wi \<noteq> SEND_WORKPACKET \<or> ttl (m_params wi) = 0 then Inl Assertion_failed
     else
       (let dst = destination_address (m_params wi);
            wi1 = wi\<lparr>m_msg_iov := \<lparr>iov_base = Iov_send_packet, iov_len = packet_size (m_send_packet wi)\<rparr>,
                     m_control := send_control (push_bit 2 (dscp (m_params wi)))
                                    (ucast (ttl (m_params wi))) 1024,
                     m_sa := dst\<rparr>;
            msg = (m_msg wi)\<lparr>msg_iov_set := True, msg_iovlen := 1, msg_control_set := True,
                             msg_controllen := 48, msg_flags := 0\<rparr>
        in if m_in4 dst \<noteq> None
           then Inr (wi1\<lparr>m_msg := msg\<lparr>msg_name := Name_sa_in4, msg_namelen := sizeof_sockaddr_in\<rparr>\<rparr>)
           else if m_in6 dst \<noteq> None
           then Inr (wi1\<lparr>m_msg := msg\<lparr>msg_name := Name_sa_in6, msg_namelen := sizeof_sockaddr_in6\<rparr>\<rparr>)
           else Inl Aborted))"
proof -
  let ?c = "fill_cmsg 0 IPPROTO_IP IP_TOS (le_bytes 1 (push_bit 2 (dscp (m_params wi)))) (replicate 1024 0)"
  have n: "length (m_control wi) = 1024" using assms by (simp add: item_inv_def)
  have "cmsg_len ?c 0 = 17"
    by (subst cmsg_len_fill_cmsg) (simp_all add: cmsg_defs)
  then have nxt: "CMSG_NXTHDR ?c 48 0 = Some 24"
    by (simp add: CMSG_NXTHDR_def cmsg_defs)
  have space: "CMSG_SPACE 1 + CMSG_SPACE 4 = 48" and fst: "CMSG_FIRSTHDR 48 = Some 0"
    by (simp_all add: CMSG_FIRSTHDR_def cmsg_defs)
  have t: "0 < sint (ucast (ttl (m_params wi)) :: 32 word) \<and> sint (ucast (ttl (m_params wi)) :: 32 word) < 256
      \<longleftrightarrow> ttl (m_params wi) \<noteq> 0"
    using uint_lt2p[of "ttl (m_params wi)"] by (simp add: sint_ttl order_less_le unsigned_eq_0_iff)
  show ?thesis
    unfolding init_send_msg_def send_control_def Let_def space t n
    using nxt fst by (auto simp: assertE_def)
qed

lemma init_send_msg_keeps:
  assumes "item_inv wi" and "init_send_msg wi = Inr wi'"
  shows "item_inv wi' \<and> same_request wi wi' \<and> m_send_packet wi' = m_send_packet wi \<and>
     m_params wi' = m_params wi"
proof -
  have "length (send_control tos ttl32 1024) = 1024" for tos ttl32
    by (simp add: send_control_def cmsg_defs)
  with assms show ?thesis
    by (auto simp: init_send_msg_eq Let_def item_inv_def same_request_def split: if_splits)
qed

lemma prepare_keeps:
  assumes "item_inv wi" and "prepare bufsz wi = Inr (wi', p, fl)"
  shows "item_inv wi' \<and> same_request wi wi'"
proof (cases "m_work_type wi")
  case SEND_WORKPACKET
  with assms init_send_msg_keeps[OF assms(1)] show ?thesis by (auto simp: prepare_def Let_def)
qed (use assms in \<open>auto simp: prepare_def Let_def item_inv_def same_request_def split: if_splits\<close>)

text \<open>
  The type of work that an entry is prepared for.  An entry fits an item if it asks for the
  operation of the item's type, and for a buffer of the ring exactly if that is a receive.
\<close>

fun operation :: "prep \<Rightarrow> work_type" where
  "operation (Prep_close fd) = CLOSE"
| "operation (Prep_accept fd n fl) = ACCEPT"
| "operation (Prep_connect fd bs n) = CONNECT"
| "operation (Prep_recv fd n fl) = RECV"
| "operation (Prep_recvmsg_multishot fd m io fl) = RECV"
| "operation (Prep_send fd bs n fl) = SEND_STREAM_DATA"
| "operation (Prep_sendmsg fd m io nm ctl bs fl) = SEND_WORKPACKET"

definition selects_buffer :: "sqe \<Rightarrow> bool" where
  "selects_buffer e \<longleftrightarrow> sqe_flags e AND IOSQE_BUFFER_SELECT \<noteq> 0"

definition entry_fits :: "work_type \<Rightarrow> sqe \<Rightarrow> bool" where
  "entry_fits t e \<longleftrightarrow> operation (sqe_prep e) = t \<and> (selects_buffer e \<longleftrightarrow> t = RECV)"

lemma init_send_msg_type: "init_send_msg wi = Inr wi' \<Longrightarrow> m_work_type wi' = m_work_type wi"
  by (auto simp: init_send_msg_def Let_def split_beta split: if_splits option.splits)

lemma link_flag_select: "link_flag wi AND IOSQE_BUFFER_SELECT = 0"
  "IOSQE_BUFFER_SELECT \<noteq> 0"
  by (simp_all add: link_flag_def IOSQE_IO_LINK_def IOSQE_BUFFER_SELECT_def)

lemma prepare_fits:
  assumes "prepare bufsz wi = Inr (wi', p, fl)"
  shows "entry_fits (m_work_type wi') \<lparr>sqe_user_data = i, sqe_prep = p, sqe_flags = fl, sqe_buf_group = g\<rparr> \<and>
     m_work_type wi' = m_work_type wi"
  using assms
  by (cases "m_work_type wi") (auto simp: prepare_def Let_def entry_fits_def selects_buffer_def
      link_flag_select dest: init_send_msg_type split: if_splits)

text \<open>
  One call of \<^verbatim>\<open>submit\<close> prepares one entry, which carries the number of the item, and
  calls \<^verbatim>\<open>io_uring_submit\<close> last.
\<close>

lemma submit_trace:
  assumes "submit env bufsz wi tr = Inr (wi', tr')"
  shows "\<exists>q p fl r. prepare bufsz wi = Inr (wi', p, fl) \<and> (\<forall>e \<in> set q. is_queue_event e) \<and>
     tr' = tr @ q @ [Ev_sqe \<lparr>sqe_user_data = m_id wi, sqe_prep = p, sqe_flags = fl, sqe_buf_group = 0\<rparr>,
                     Ev_submit r]"
  using assms
  by (fastforce simp: submit_def submit_all_requests_def Let_def split_beta dest: get_sqe_trace)

text \<open>What is in a trace after one submission.\<close>

lemma submit_projections:
  assumes "submit env bufsz wi tr = Inr (wi', tr')"
  shows "\<exists>p fl. prepare bufsz wi = Inr (wi', p, fl) \<and>
     sqes tr' = sqes tr @ [\<lparr>sqe_user_data = m_id wi, sqe_prep = p, sqe_flags = fl, sqe_buf_group = 0\<rparr>] \<and>
     callbacks tr' = callbacks tr \<and> cqes tr' = cqes tr \<and>
     (\<exists>ext. tr' = tr @ ext \<and> (\<forall>e \<in> set ext. \<not> is_buf_event e))"
proof -
  from submit_trace[OF assms] obtain q p fl r where
    "prepare bufsz wi = Inr (wi', p, fl)" and q: "\<forall>e \<in> set q. is_queue_event e" and
    "tr' = tr @ q @ [Ev_sqe \<lparr>sqe_user_data = m_id wi, sqe_prep = p, sqe_flags = fl, sqe_buf_group = 0\<rparr>,
                     Ev_submit r]"
    by blast
  then show ?thesis using queue_events_silent[OF q] by auto
qed

interpretation ring: io_ring "submit env bufsz" for env bufsz
proof
  fix wi n wi' n'
  assume "item_inv wi" and "submit env bufsz wi n = Inr (wi', n')"
  then show "item_inv wi' \<and> same_request wi wi'"
    using submit_projections prepare_keeps by blast
qed

text \<open>The requests of a new item: what each overload of \<^verbatim>\<open>WorkItem::submit\<close> hands over.\<close>

lemmas ring_items = ring.recv_item ring.accept_item ring.close_item ring.stream_item
  ring.packet_item ring.connect_item

section \<open>What the kernel finds in a datagram request\<close>

text \<open>
  The control messages of a buffer as the kernel walks them: level, type and data of the
  message at every offset that \<^verbatim>\<open>CMSG_FIRSTHDR\<close> and \<^verbatim>\<open>CMSG_NXTHDR\<close> lead to; one unit of
  fuel a message, where a message takes 16 bytes at least.
\<close>

definition read_cmsg :: "byte list \<Rightarrow> nat \<Rightarrow> int \<times> int \<times> byte list" where
  "read_cmsg control off =
     (sint (of_le (take 4 (drop (off + 8) control)) :: 32 word),
      sint (of_le (take 4 (drop (off + 12) control)) :: 32 word),
      take (cmsg_len control off - sizeof_cmsghdr) (drop (off + sizeof_cmsghdr) control))"

fun walk_cmsgs :: "nat \<Rightarrow> byte list \<Rightarrow> nat option \<Rightarrow> (int \<times> int \<times> byte list) list" where
  "walk_cmsgs 0 control off = []"
| "walk_cmsgs (Suc n) control None = []"
| "walk_cmsgs (Suc n) control (Some off) =
     read_cmsg control off # walk_cmsgs n control (CMSG_NXTHDR control (length control) off)"

definition cmsgs :: "byte list \<Rightarrow> (int \<times> int \<times> byte list) list" where
  "cmsgs control = walk_cmsgs (Suc (length control div 16)) control (CMSG_FIRSTHDR (length control))"

lemma send_control_bytes:
  "take 48 (send_control tos ttl32 1024) =
     le_bytes 8 (17 :: 64 word) @ le_bytes 4 (0 :: 32 word) @ le_bytes 4 (1 :: 32 word) @ le_bytes 1 tos @ replicate 7 0 @
     le_bytes 8 (20 :: 64 word) @ le_bytes 4 (0 :: 32 word) @ le_bytes 4 (2 :: 32 word) @ le_bytes 4 ttl32 @ replicate 4 0"
  by (simp add: send_control_def fill_cmsg_def memcpy_at_def cmsg_defs Let_def IPPROTO_IP_def
      IP_TOS_def IP_TTL_def)

lemma cmsgs_send_control:
  "cmsgs (take 48 (send_control tos ttl32 1024)) =
     [(IPPROTO_IP, IP_TOS, [tos]), (IPPROTO_IP, IP_TTL, le_bytes 4 ttl32)]"
proof -
  define b where "b = take 48 (send_control tos ttl32 1024)"
  note bytes = b_def send_control_bytes
  have one: "le_bytes (Suc 0) tos = [tos]" by (simp add: le_bytes_def)
  have len: "length b = 48" by (simp add: bytes)
  have l: "cmsg_len b 0 = 17" "cmsg_len b 24 = 20" by (simp_all add: bytes cmsg_len_def)
  have r: "read_cmsg b 0 = (IPPROTO_IP, IP_TOS, [tos])" "read_cmsg b 24 = (IPPROTO_IP, IP_TTL, le_bytes 4 ttl32)"
    unfolding read_cmsg_def l
    by (simp_all add: bytes one IPPROTO_IP_def IP_TOS_def IP_TTL_def sizeof_cmsghdr_def)
  have n: "CMSG_FIRSTHDR 48 = Some 0" "CMSG_NXTHDR b 48 0 = Some 24" "CMSG_NXTHDR b 48 24 = None"
    by (simp_all add: CMSG_FIRSTHDR_def CMSG_NXTHDR_def l cmsg_defs)
  have "Suc (48 div 16) = Suc (Suc (Suc (Suc 0)))" by simp
  then have "cmsgs b = [(IPPROTO_IP, IP_TOS, [tos]), (IPPROTO_IP, IP_TTL, le_bytes 4 ttl32)]"
    unfolding cmsgs_def len n by (simp only: walk_cmsgs.simps len n r)
  then show ?thesis by (simp add: b_def)
qed

text \<open>
  C18: A datagram whose time to live is not 0 and that has a destination is handed to the
  kernel as one \<^verbatim>\<open>sendmsg\<close> on the item's descriptor: the data are exactly the contents of the
  send packet, the name is the destination's socket address in full, and the control
  buffer, walked as the kernel walks it, holds exactly the type of service with the DSCP
  class in its upper six bits and the time to live as an \<^verbatim>\<open>int\<close>.
\<close>

theorem datagram_request:
  assumes inv: "item_inv wi" and t: "m_work_type wi = SEND_WORKPACKET" and s: "\<not> item_is_stream wi"
    and ttl: "ttl (m_params wi) \<noteq> 0" and v: "valid (destination_address (m_params wi))"
  shows "\<exists>wi' msg iov name control data.
     prepare bufsz wi = Inr (wi', Prep_sendmsg (get_fd (m_socket wi)) msg iov name control data 0, 0) \<and>
     data = contents (m_send_packet wi) \<and> iov_len iov = length data \<and> msg_iovlen msg = 1 \<and>
     data_sockaddr (destination_address (m_params wi)) = Inr name \<and> msg_namelen msg = length name \<and>
     msg_controllen msg = length control \<and>
     cmsgs control = [(IPPROTO_IP, IP_TOS, [push_bit 2 (dscp (m_params wi))]),
                      (IPPROTO_IP, IP_TTL, le_bytes 4 (ucast (ttl (m_params wi)) :: 32 word))]"
proof -
  have c: "length (take 48 (send_control tos ttl32 1024)) = 48" for tos ttl32
    unfolding send_control_bytes by simp
  have pk: "length (contents (m_send_packet wi)) = packet_size (m_send_packet wi)"
    using inv length_contents by (simp add: item_inv_def)
  have l: "link_flag wi' = 0" if "m_link_to_next_request wi' = m_link_to_next_request wi" for wi'
    using inv that by (simp add: link_flag_def next_request_should_wait_for_this_request_def item_inv_def)
  show ?thesis
  proof (cases "m_in4 (destination_address (m_params wi))")
    case (Some sa)
    then show ?thesis
      using t s ttl c pk
      by (simp add: prepare_def Let_def init_send_msg_eq[OF inv] msg_name_bytes_def msg_control_bytes_def
          iov_bytes_def cmsgs_send_control l contents_def data_sockaddr_def)
  next
    case None
    with v obtain sa where "m_in6 (destination_address (m_params wi)) = Some sa" by (auto simp: valid_def)
    with None show ?thesis
      using t s ttl c pk
      by (simp add: prepare_def Let_def init_send_msg_eq[OF inv] msg_name_bytes_def msg_control_bytes_def
          iov_bytes_def cmsgs_send_control l contents_def data_sockaddr_def)
  qed
qed

text \<open>
  C19: A connect to an IPv4 address hands the kernel the socket address of the target, in
  full, on the item's descriptor; a connect to an IPv6 address always stops the program.
\<close>

theorem connect_request:
  assumes inv: "item_inv wi" and v: "valid target"
  shows "submit_connect_item (submit env bufsz) target cb wi tr =
     bindE (get_sqe env tr) (\<lambda>tr1.
       case m_in4 target of
         None \<Rightarrow> Inl Assertion_failed
       | Some sa \<Rightarrow> Inr (wi\<lparr>m_connect_sock_len := 16,
             m_buffer_for_uring := memcpy_at 0 (sockaddr_in_bytes sa) (m_buffer_for_uring wi),
             m_callback := Connect_cb cb, m_work_type := CONNECT\<rparr>,
           submit_all_requests env (tr1 @ [Ev_sqe \<lparr>sqe_user_data = m_id wi,
             sqe_prep = Prep_connect (get_fd (m_socket wi)) (sockaddr_in_bytes sa) 16,
             sqe_flags = 0, sqe_buf_group = 0\<rparr>])))"
proof -
  have b: "length (m_buffer_for_uring wi) = 128" and k: "\<not> m_link_to_next_request wi"
    using inv by (simp_all add: item_inv_def sizeof_defs)
  show ?thesis
  proof (cases "m_in4 target")
    case (Some sa)
    have "take 16 (memcpy_at 0 (sockaddr_in_bytes sa) (m_buffer_for_uring wi)) = sockaddr_in_bytes sa"
      using take_memcpy_at_0[of "sockaddr_in_bytes sa" "m_buffer_for_uring wi"] by (simp add: sizeof_defs)
    with Some b k show ?thesis
      by (simp add: submit_connect_item_def size_sockaddr_def data_sockaddr_def submit_def prepare_def Let_def
          sizeof_defs link_flag_def next_request_should_wait_for_this_request_def)
  next
    case None
    with v obtain sa where "m_in6 target = Some sa" by (auto simp: valid_def)
    with None b show ?thesis
      by (simp add: submit_connect_item_def size_sockaddr_def data_sockaddr_def submit_def prepare_def Let_def
          sizeof_defs)
  qed
qed

text \<open>A datagram to 127.0.0.1, port 319, and a connect to the same address.\<close>

definition example_target :: IPAddress where
  "example_target = IPAddress_of_sockaddr_in
     \<lparr>sin_family = AF_INET, sin_port = 0x3F01, sin_addr = 0x0100007F, sin_zero = 0\<rparr>"

definition example_datagram :: work_item where
  "example_datagram = (WorkItem_new zero_item 5 [] (ISocket_new IPV4_UDP 319 MULTICAST_PACKET_SOCKET 9))\<lparr>
     m_work_type := SEND_WORKPACKET, m_callback := Send_cb None,
     m_params := \<lparr>destination_address = example_target, dscp = CS6, ttl = PTP_TTL\<rparr>\<rparr>"

lemma example_items [simp]: "item_inv example_datagram" "valid example_target"
  "item_inv (WorkItem_new zero_item i descr s)"
  using item_inv_new[of zero_item 5 "[]"] item_inv_new[of zero_item]
  by (simp_all add: example_datagram_def item_inv_def example_target_def IPAddress_of_sockaddr_in_def valid_def)

theorem datagram_request_witness:
  "\<exists>wi' msg iov name control data.
     prepare 4096 example_datagram = Inr (wi', Prep_sendmsg 9 msg iov name control data 0, 0) \<and>
     cmsgs control = [(0, 1, [192]), (0, 2, [16, 0, 0, 0])]"
proof -
  have "m_work_type example_datagram = SEND_WORKPACKET" "\<not> item_is_stream example_datagram"
    "ttl (m_params example_datagram) \<noteq> 0" "valid (destination_address (m_params example_datagram))"
    by (simp_all add: example_datagram_def item_is_stream_def is_stream_def ISocket_new_def PTP_TTL_def)
  from datagram_request[OF example_items(1) this] show ?thesis
    by (fastforce simp: example_datagram_def CS6_def PTP_TTL_def le_bytes_def IPPROTO_IP_def IP_TOS_def
        IP_TTL_def get_fd_def ISocket_new_def push_bit_eq_mult upt_rec)
qed

theorem connect_request_witness:
  "\<exists>wi' tr'. submit_connect_item (submit quiet_env 4096) example_target (Some 7)
     (WorkItem_new zero_item 5 [] zero_socket) [] = Inr (wi', tr') \<and>
     map sqe_prep (sqes tr') = [Prep_connect 42 [2, 0, 1, 63, 127, 0, 0, 1, 0, 0, 0, 0, 0, 0, 0, 0] 16]"
proof -
  have "sockaddr_in_bytes \<lparr>sin_family = AF_INET, sin_port = 0x3F01, sin_addr = 0x0100007F, sin_zero = 0\<rparr> =
      [2, 0, 1, 63, 127, 0, 0, 1, 0, 0, 0, 0, 0, 0, 0, 0]"
    by (simp add: sockaddr_in_bytes_def le_bytes_def AF_INET_def upt_rec drop_bit_eq_div)
  then show ?thesis
    using connect_request[OF example_items(3,2), of quiet_env 4096 "Some 7" 5 "[]" zero_socket "[]"]
    by (simp add: get_sqe_def try_get_sqe_def example_target_def IPAddress_of_sockaddr_in_def
        submit_all_requests_def zero_socket_def ISocket_new_def get_fd_def)
qed

end
