(* ===== verification/Interface.thy ===== *)
theory Interface
  imports Submit
begin

text \<open>
  What a client can do: the calls of \<^verbatim>\<open>IOUringInterface\<close>, of the work item it has
  acquired and of \<^verbatim>\<open>ISocket::send\<close> (\<^verbatim>\<open>src/SocketImpl.cpp\<close>), as one step function, and
  the lemmas on what every such call keeps.  What a client's function does is a script of
  such calls, in which each may depend on all that has happened before; \<open>invoke\<close> runs it.
\<close>

section \<open>Clients\<close>

datatype api_call =
    Api_submit_accept isocket func
  | Api_submit_connect isocket IPAddress func
  | Api_submit_recv isocket func
  | Api_submit_close isocket func
  | Api_ackuire_send_workitem isocket
  | Api_get_send_packet nat
  | Api_append nat "byte list"
  | Api_submit_stream_data nat func
  | Api_submit_packet nat DatagramSendParameters func
  | Api_socket_send isocket string func

text \<open>
  A function of the client makes a call, sees the trace after it (and there the item that
  \<^verbatim>\<open>ackuire_send_workitem\<close> has returned), and goes on from there, until it returns.
\<close>

datatype script =
    Return ReceivePostAction
  | Call api_call "event list \<Rightarrow> script"

type_synonym client = "nat \<Rightarrow> cb_arg \<Rightarrow> event list \<Rightarrow> script"

text \<open>A method of an item through a pointer that the client holds.\<close>

definition update_item :: "nat \<Rightarrow> (work_item \<Rightarrow> work_item) \<Rightarrow> uring \<Rightarrow> uring" where
  "update_item a f st = st\<lparr>m_pool := store a (f (deref (m_pool st) a)) (m_pool st)\<rparr>"

definition with_item :: "nat \<Rightarrow> (work_item \<Rightarrow> work_item res) \<Rightarrow> uring \<Rightarrow> uring res" where
  "with_item a f st =
     (if a < length (heap (m_pool st))
      then bindE (f (deref (m_pool st) a)) (\<lambda>wi. Inr (update_item a (\<lambda>_. wi) st))
      else Inl Undefined_behaviour)"

definition client_append :: "nat \<Rightarrow> byte list \<Rightarrow> uring \<Rightarrow> uring res" where
  "client_append a d st =
     with_item a (\<lambda>wi. bindE (append_bytes (m_send_packet wi) d) (\<lambda>sp. Inr (wi\<lparr>m_send_packet := sp\<rparr>))) st"

text \<open>\<^verbatim>\<open>SocketImpl::send\<close> of \<^verbatim>\<open>src/SocketImpl.cpp\<close>\<close>

definition socket_send :: "env \<Rightarrow> isocket \<Rightarrow> string \<Rightarrow> func \<Rightarrow> uring \<Rightarrow> uring res" where
  "socket_send env socket reply_msg cb st =
     bindE (ackuire_send_workitem env socket st) (\<lambda>(wi, st).
     bindE (with_item wi (\<lambda>i. Inr (get_send_packet i)) st) (\<lambda>st.
     bindE (client_append wi (bytes_of_string reply_msg) st) (\<lambda>st.
       submit_item_at (submit_stream_data (submit env (buffer_size st)) cb) wi st)))"

fun api_step :: "env \<Rightarrow> uring \<Rightarrow> api_call \<Rightarrow> uring res" where
  "api_step env st (Api_submit_accept s h) = bindE (submit_accept env s h st) (\<lambda>(_, st). Inr st)"
| "api_step env st (Api_submit_connect s t h) = bindE (submit_connect env s t h st) (\<lambda>(_, st). Inr st)"
| "api_step env st (Api_submit_recv s h) = bindE (submit_recv env s h st) (\<lambda>(_, st). Inr st)"
| "api_step env st (Api_submit_close s h) = bindE (submit_close env s h st) (\<lambda>(_, st). Inr st)"
| "api_step env st (Api_ackuire_send_workitem s) =
     bindE (ackuire_send_workitem env s st) (\<lambda>(_, st). Inr st)"
| "api_step env st (Api_get_send_packet a) = with_item a (\<lambda>i. Inr (get_send_packet i)) st"
| "api_step env st (Api_append a d) = client_append a d st"
| "api_step env st (Api_submit_stream_data a h) =
     submit_item_at (submit_stream_data (submit env (buffer_size st)) h) a st"
| "api_step env st (Api_submit_packet a ps h) =
     submit_item_at (submit_packet (submit env (buffer_size st)) ps h) a st"
| "api_step env st (Api_socket_send s m h) = socket_send env s m h st"

primrec run_script :: "env \<Rightarrow> script \<Rightarrow> uring \<Rightarrow> (uring \<times> ReceivePostAction) res" where
  "run_script env (Return act) = (\<lambda>st. Inr (st, act))"
| "run_script env (Call c k) = (\<lambda>st. bindE (api_step env st c) (\<lambda>st. run_script env (k (trace st)) st))"

definition invoke :: "env \<Rightarrow> client \<Rightarrow> uring invoker" where
  "invoke env client f x st =
     (let st = log_ev (Ev_callback f x) st
      in run_script env (client f x (trace st)) st)"

section \<open>What every call of the interface keeps\<close>

definition env_ok :: "env \<Rightarrow> bool" where
  "env_ok env \<longleftrightarrow> (\<forall>tr. junk_ok (e_junk env tr))"

text \<open>
  The calls of the interface change the pool and the trace only; the trace grows without
  events of the buffer ring and without completions, no item leaves the table, and an
  object keeps its number, its state and its socket.
\<close>

definition trace_grows :: "event list \<Rightarrow> event list \<Rightarrow> bool" where
  "trace_grows tr tr' \<longleftrightarrow>
     (\<exists>ext. tr' = tr @ ext \<and> cqes ext = [] \<and> (\<forall>e \<in> set ext. \<not> is_buf_event e))"

definition pool_grows :: "pool \<Rightarrow> pool \<Rightarrow> bool" where
  "pool_grows p p' \<longleftrightarrow>
     (\<forall>i a. lookup p i = Some a \<longrightarrow> lookup p' i = Some a) \<and>
     length (heap p) \<le> length (heap p') \<and>
     (\<forall>a < length (heap p). m_id (deref p' a) = m_id (deref p a) \<and>
        m_state (deref p' a) = m_state (deref p a) \<and> m_socket (deref p' a) = m_socket (deref p a))"

definition api_frame :: "uring \<Rightarrow> uring \<Rightarrow> bool" where
  "api_frame st st' \<longleftrightarrow> st' = st\<lparr>m_pool := m_pool st', trace := trace st'\<rparr> \<and>
     trace_grows (trace st) (trace st') \<and> pool_grows (m_pool st) (m_pool st')"

lemma trace_grows_refl [simp]: "trace_grows tr tr"
  by (simp add: trace_grows_def)

lemma trace_grows_trans: "trace_grows tr tr1 \<Longrightarrow> trace_grows tr1 tr2 \<Longrightarrow> trace_grows tr tr2"
  by (fastforce simp: trace_grows_def)

lemma pool_grows_refl [simp]: "pool_grows p p"
  by (simp add: pool_grows_def)

lemma pool_grows_trans: "pool_grows p p1 \<Longrightarrow> pool_grows p1 p2 \<Longrightarrow> pool_grows p p2"
  by (simp add: pool_grows_def)

lemma api_frame_refl [simp]: "api_frame st st"
  by (simp add: api_frame_def)

lemma api_frame_trans:
  assumes "api_frame st st1" and "api_frame st1 st2"
  shows "api_frame st st2"
proof -
  from assms have "st2 = st\<lparr>m_pool := m_pool st2, trace := trace st2\<rparr>"
    unfolding api_frame_def by (cases st, cases st1, cases st2) auto
  with assms show ?thesis
    unfolding api_frame_def by (blast intro: trace_grows_trans pool_grows_trans)
qed

lemma submit_grows:
  "submit env bufsz wi tr = Inr (wi', tr') \<Longrightarrow> trace_grows tr tr'"
  using submit_projections[of env bufsz wi tr wi' tr'] by (fastforce simp: trace_grows_def)

text \<open>
  What a submission adds to the trace: one entry for the kernel, with the number of the
  item and the operation of its type, and no callback.
\<close>

definition hands_over :: "event list submitter \<Rightarrow> bool" where
  "hands_over f \<longleftrightarrow> (\<forall>wi n wi' n'. f wi n = Inr (wi', n') \<longrightarrow> trace_grows n n' \<and>
     callbacks n' = callbacks n \<and>
     (\<exists>e. sqe_user_data e = m_id wi \<and> sqes n' = sqes n @ [e] \<and> entry_fits (m_work_type wi') e))"

lemma hands_overD:
  "hands_over f \<Longrightarrow> f wi n = Inr (wi', n') \<Longrightarrow> trace_grows n n' \<and> callbacks n' = callbacks n \<and>
     (\<exists>e. sqe_user_data e = m_id wi \<and> sqes n' = sqes n @ [e] \<and> entry_fits (m_work_type wi') e)"
  unfolding hands_over_def by blast

lemma overloads_hand_over:
  "hands_over (submit env bufsz)"
  "hands_over (submit_recv_item (submit env bufsz) cb)"
  "hands_over (submit_accept_item (submit env bufsz) cb)"
  "hands_over (submit_close_item (submit env bufsz) cb)"
  "hands_over (submit_stream_data (submit env bufsz) cb)"
  "hands_over (submit_packet (submit env bufsz) ps cb)"
  "hands_over (submit_connect_item (submit env bufsz) target cb)"
proof -
  have h: "hands_over (submit env bufsz)"
    unfolding hands_over_def by (fastforce dest: submit_projections submit_grows prepare_fits)
  show "hands_over (submit env bufsz)" by (rule h)
  show "hands_over (submit_recv_item (submit env bufsz) cb)"
    "hands_over (submit_accept_item (submit env bufsz) cb)"
    "hands_over (submit_close_item (submit env bufsz) cb)"
    "hands_over (submit_stream_data (submit env bufsz) cb)"
    "hands_over (submit_packet (submit env bufsz) ps cb)"
    "hands_over (submit_connect_item (submit env bufsz) target cb)"
    using hands_overD[OF h] unfolding hands_over_def submit_item_defs Let_def
    by (fastforce dest!: hands_overD[OF h])+
qed

text \<open>A new item that is handed over at once.\<close>

lemma alloc_submit_frame:
  assumes env: "env_ok env" and inv: "pool_inv (m_pool st)"
    and keeps: "keeps_item f" and over: "hands_over f"
    and run: "with_pool (\<lambda>(p, n). bindE (internal_alloc_work_item (e_junk env tr) socket descr p) (\<lambda>(wi, p1).
        bindE (submit_at f wi (p1, n)) (\<lambda>pn. Inr (wi, pn)))) st = Inr (a, st')"
  shows "pool_inv (m_pool st') \<and> api_frame st st' \<and>
     a = length (heap (m_pool st)) \<and> length (heap (m_pool st')) = Suc a \<and>
     lookup (m_pool st') = (lookup (m_pool st))(next_id (m_pool st) \<mapsto> a) \<and>
     f (WorkItem_new (e_junk env tr) (next_id (m_pool st)) descr socket) (trace st) =
       Inr (deref (m_pool st') a, trace st') \<and>
     (\<forall>b < a. deref (m_pool st') b = deref (m_pool st) b) \<and>
     callbacks (trace st') = callbacks (trace st) \<and>
     (\<exists>e. sqe_user_data e = next_id (m_pool st) \<and> sqes (trace st') = sqes (trace st) @ [e] \<and>
        entry_fits (m_work_type (deref (m_pool st') a)) e)"
proof -
  have junk: "junk_ok (e_junk env tr)" using env by (simp add: env_ok_def)
  from run obtain p' n' where r: "bindE (internal_alloc_work_item (e_junk env tr) socket descr (m_pool st))
        (\<lambda>(wi, p1). bindE (submit_at f wi (p1, trace st)) (\<lambda>pn. Inr (wi, pn))) = Inr (a, p', n')"
    and st': "st' = st\<lparr>m_pool := p', trace := n'\<rparr>"
    by (auto simp: with_pool_def)
  note A = alloc_and_submit[OF inv junk keeps r]
  let ?wi = "WorkItem_new (e_junk env tr) (next_id (m_pool st)) descr socket"
  have fr: "f ?wi (trace st) = Inr (deref p' a, n')" using A by blast
  have "pool_grows (m_pool st) p'"
    using A next_id_not_live[OF inv] by (auto simp: pool_grows_def)
  with A fr hands_overD[OF over fr] show ?thesis by (simp add: st' api_frame_def)
qed

text \<open>An item of the heap that is handed over.\<close>

lemma submit_item_at_frame:
  assumes inv: "pool_inv (m_pool st)" and keeps: "keeps_item f" and over: "hands_over f"
    and run: "submit_item_at f a st = Inr st'"
  shows "pool_inv (m_pool st') \<and> api_frame st st' \<and> a < length (heap (m_pool st)) \<and>
     lookup (m_pool st') = lookup (m_pool st) \<and> length (heap (m_pool st')) = length (heap (m_pool st)) \<and>
     m_work_items (m_pool st') = m_work_items (m_pool st) \<and>
     f (deref (m_pool st) a) (trace st) = Inr (deref (m_pool st') a, trace st') \<and>
     (\<forall>b. b \<noteq> a \<longrightarrow> deref (m_pool st') b = deref (m_pool st) b) \<and>
     callbacks (trace st') = callbacks (trace st) \<and>
     (\<exists>e. sqe_user_data e = m_id (deref (m_pool st) a) \<and> sqes (trace st') = sqes (trace st) @ [e] \<and>
        entry_fits (m_work_type (deref (m_pool st') a)) e)"
proof -
  from run obtain p' n' where a: "a < length (heap (m_pool st))"
    and r: "submit_at f a (m_pool st, trace st) = Inr (p', n')"
    and st': "st' = st\<lparr>m_pool := p', trace := n'\<rparr>"
    by (auto simp: submit_item_at_def split: if_splits)
  note A = submit_at_existing[OF inv a keeps r]
  have fr: "f (deref (m_pool st) a) (trace st) = Inr (deref p' a, n')" using A by blast
  have "m_id (deref p' b) = m_id (deref (m_pool st) b) \<and> m_state (deref p' b) = m_state (deref (m_pool st) b)
      \<and> m_socket (deref p' b) = m_socket (deref (m_pool st) b)" for b
    using A keeps_itemD[OF keeps pool_inv_item[OF inv a] fr] by (cases "b = a") simp_all
  then have "pool_grows (m_pool st) p'" using A by (simp add: pool_grows_def)
  with A a fr hands_overD[OF over fr] show ?thesis by (simp add: st' api_frame_def)
qed

text \<open>An item of the heap that is changed in place.\<close>

lemma with_item_frame:
  assumes inv: "pool_inv (m_pool st)"
    and keeps: "\<And>wi wi'. item_inv wi \<Longrightarrow> f wi = Inr wi' \<Longrightarrow> item_inv wi' \<and> same_request wi wi'"
    and run: "with_item a f st = Inr st'"
  shows "pool_inv (m_pool st') \<and> api_frame st st' \<and> a < length (heap (m_pool st)) \<and>
     trace st' = trace st \<and> lookup (m_pool st') = lookup (m_pool st) \<and>
     length (heap (m_pool st')) = length (heap (m_pool st)) \<and>
     f (deref (m_pool st) a) = Inr (deref (m_pool st') a) \<and>
     (\<forall>b. same_request (deref (m_pool st) b) (deref (m_pool st') b))"
proof -
  from run obtain wi where a: "a < length (heap (m_pool st))" and f: "f (deref (m_pool st) a) = Inr wi"
    and st': "st' = st\<lparr>m_pool := store a wi (m_pool st)\<rparr>"
    by (auto simp: with_item_def update_item_def split: if_splits)
  from keeps[OF pool_inv_item[OF inv a] f]
  have k: "item_inv wi" "same_request (deref (m_pool st) a) wi" by simp_all
  then have "pool_inv (m_pool st')"
    by (simp add: st' store_inv[OF inv] same_request_def)
  moreover have r: "same_request (deref (m_pool st) b) (deref (m_pool st') b)" for b
    using k a by (cases "b = a") (simp_all add: st')
  moreover have "pool_grows (m_pool st) (m_pool st')"
    using r by (simp add: pool_grows_def same_request_def st')
  ultimately show ?thesis using a f by (simp add: st' api_frame_def)
qed

lemma ackuire_frame:
  assumes env: "env_ok env" and inv: "pool_inv (m_pool st)"
    and run: "ackuire_send_workitem env socket st = Inr (a, st')"
  shows "pool_inv (m_pool st') \<and> api_frame st st' \<and> a = length (heap (m_pool st)) \<and>
     length (heap (m_pool st')) = Suc a \<and>
     lookup (m_pool st') = (lookup (m_pool st))(next_id (m_pool st) \<mapsto> a) \<and>
     deref (m_pool st') a =
       WorkItem_new (e_junk env (trace st)) (next_id (m_pool st)) ''write-from-socket'' socket \<and>
     (\<forall>b < a. deref (m_pool st') b = deref (m_pool st) b) \<and>
     callbacks (trace st') = callbacks (trace st) \<and> sqes (trace st') = sqes (trace st)"
proof -
  have junk: "junk_ok (e_junk env (trace st))" using env by (simp add: env_ok_def)
  from run obtain p where r: "internal_alloc_work_item (e_junk env (trace st)) socket ''write-from-socket''
       (m_pool st) = Inr (a, p)" and st': "st' = log_ev (Ev_acquired a) (st\<lparr>m_pool := p\<rparr>)"
    by (auto simp: ackuire_send_workitem_def alloc_send_work_item_def)
  from internal_alloc_eq[OF inv, of "e_junk env (trace st)" socket "''write-from-socket''"] r
  have p: "a = length (heap (m_pool st))"
    "heap p = heap (m_pool st) @ [WorkItem_new (e_junk env (trace st)) (next_id (m_pool st))
                                    ''write-from-socket'' socket]"
    "lookup p = (lookup (m_pool st))(next_id (m_pool st) \<mapsto> length (heap (m_pool st)))"
    by auto
  have old: "deref p b = deref (m_pool st) b" if "b < a" for b
    using that p by (simp add: deref_def nth_append)
  have "pool_grows (m_pool st) p"
    using p old next_id_not_live[OF inv] by (auto simp: pool_grows_def)
  moreover have "trace_grows (trace st) (trace st')" by (simp add: trace_grows_def st')
  moreover have "pool_inv p" by (rule internal_alloc_inv[OF inv junk r])
  moreover have "st' = st\<lparr>m_pool := m_pool st', trace := trace st'\<rparr>" by (simp add: st' log_ev_def)
  ultimately show ?thesis using p old by (simp add: st' api_frame_def deref_def)
qed

lemma get_send_packet_keeps: "item_inv wi \<Longrightarrow> item_inv (get_send_packet wi) \<and> same_request wi (get_send_packet wi)"
  by (simp add: item_inv_get_send_packet) (simp add: get_send_packet_def same_request_def)

lemma append_keeps:
  "item_inv wi \<Longrightarrow> bindE (append_bytes (m_send_packet wi) d) (\<lambda>sp. Inr (wi\<lparr>m_send_packet := sp\<rparr>)) = Inr wi' \<Longrightarrow>
     item_inv wi' \<and> same_request wi wi'"
  by (auto simp: item_inv_def same_request_def intro: append_bytes_inv)

section \<open>Requests\<close>

text \<open>
  The request that an identifier stands for: type and callback of the live item, once it
  has been submitted.
\<close>

definition request_of :: "uring \<Rightarrow> nat \<Rightarrow> (work_type \<times> callback) option" where
  "request_of st i =
     (case lookup (m_pool st) i of
        None \<Rightarrow> None
      | Some a \<Rightarrow>
          (if m_work_type (deref (m_pool st) a) = UNKNOWN then None
           else Some (m_work_type (deref (m_pool st) a), m_callback (deref (m_pool st) a))))"

lemma request_of_cong: "m_pool st' = m_pool st \<Longrightarrow> request_of st' = request_of st"
  by (rule ext) (simp add: request_of_def split: option.split)

lemma request_of_log_ev [simp]: "request_of (log_ev e st) = request_of st"
  by (rule request_of_cong) simp

text \<open>
  A call of the interface starts no request, or exactly one under an identifier that
  stood for none, with one entry for the kernel, which fits it.
\<close>

definition starts_none :: "uring \<Rightarrow> uring \<Rightarrow> bool" where
  "starts_none st st' \<longleftrightarrow> sqes (trace st') = sqes (trace st) \<and> request_of st' = request_of st"

definition starts_one :: "uring \<Rightarrow> uring \<Rightarrow> bool" where
  "starts_one st st' \<longleftrightarrow> (\<exists>i r e. request_of st i = None \<and> request_of st' = (request_of st)(i \<mapsto> r) \<and>
     sqe_user_data e = i \<and> sqes (trace st') = sqes (trace st) @ [e] \<and> entry_fits (fst r) e)"

definition call_ok :: "uring \<Rightarrow> api_call \<Rightarrow> bool" where
  "call_ok st c = (case c of
      Api_submit_stream_data a h \<Rightarrow>
        (\<exists>i < length (m_work_items (m_pool st)). lookup (m_pool st) i = Some a \<and>
            m_work_type (deref (m_pool st) a) = UNKNOWN)
    | Api_submit_packet a ps h \<Rightarrow>
        (\<exists>i < length (m_work_items (m_pool st)). lookup (m_pool st) i = Some a \<and>
            m_work_type (deref (m_pool st) a) = UNKNOWN)
    | _ \<Rightarrow> True)"

lemma starts_none_one: "starts_none st st1 \<Longrightarrow> starts_one st1 st2 \<Longrightarrow> starts_one st st2"
  by (simp add: starts_none_def starts_one_def)

lemma starts_none_trans: "starts_none st st1 \<Longrightarrow> starts_none st1 st2 \<Longrightarrow> starts_none st st2"
  by (simp add: starts_none_def)

lemma with_item_starts_none:
  assumes "pool_inv (m_pool st)" and
    "\<And>wi wi'. item_inv wi \<Longrightarrow> f wi = Inr wi' \<Longrightarrow> item_inv wi' \<and> same_request wi wi'"
    and "with_item a f st = Inr st'"
  shows "starts_none st st'"
  using with_item_frame[OF assms]
  by (auto simp: starts_none_def request_of_def same_request_def fun_eq_iff split: option.splits)

lemma ackuire_starts_none:
  assumes "env_ok env" and inv: "pool_inv (m_pool st)" and "ackuire_send_workitem env socket st = Inr (a, st')"
  shows "starts_none st st'"
proof -
  note A = ackuire_frame[OF assms]
  have "request_of st' i = request_of st i" for i
  proof (cases "i = next_id (m_pool st)")
    case True
    from A have "deref (m_pool st') a =
        WorkItem_new (e_junk env (trace st)) (next_id (m_pool st)) ''write-from-socket'' socket"
      by blast
    then have "m_work_type (deref (m_pool st') a) = UNKNOWN" by (metis WorkItem_new_simps(3))
    moreover have "lookup (m_pool st') i = Some a" using A True by simp
    ultimately show ?thesis using True next_id_not_live[OF inv] by (simp add: request_of_def)
  next
    case False
    then show ?thesis using A pool_invD(1)[OF inv, of i]
      by (auto simp: request_of_def split: option.splits)
  qed
  then show ?thesis using A by (simp add: starts_none_def fun_eq_iff)
qed

text \<open>A submission that says what the item is for.\<close>

definition types_item :: "'n submitter \<Rightarrow> bool" where
  "types_item f \<longleftrightarrow> (\<forall>wi n wi' n'. item_inv wi \<longrightarrow> f wi n = Inr (wi', n') \<longrightarrow> m_work_type wi' \<noteq> UNKNOWN)"

lemma types_itemD:
  "types_item f \<Longrightarrow> item_inv wi \<Longrightarrow> f wi n = Inr (wi', n') \<Longrightarrow> m_work_type wi' \<noteq> UNKNOWN"
  unfolding types_item_def by blast

lemma overloads_typed:
  "types_item (submit_recv_item (submit env bufsz) cb)"
  "types_item (submit_accept_item (submit env bufsz) cb)"
  "types_item (submit_close_item (submit env bufsz) cb)"
  "types_item (submit_stream_data (submit env bufsz) cb)"
  "types_item (submit_packet (submit env bufsz) ps cb)"
  "types_item (submit_connect_item (submit env bufsz) target cb)"
  unfolding types_item_def
  by (auto dest: ring.recv_item(5) ring.accept_item(5) ring.close_item(5) ring.stream_item(5)
      ring.packet_item(5) ring.connect_item(5))

lemma alloc_submit_starts_one:
  assumes env: "env_ok env" and inv: "pool_inv (m_pool st)"
    and keeps: "keeps_item f" and over: "hands_over f"
    and typed: "types_item f"
    and run: "with_pool (\<lambda>(p, n). bindE (internal_alloc_work_item (e_junk env tr) socket descr p) (\<lambda>(wi, p1).
        bindE (submit_at f wi (p1, n)) (\<lambda>pn. Inr (wi, pn)))) st = Inr (a, st')"
  shows "starts_one st st'"
proof -
  note A = alloc_submit_frame[OF env inv keeps over run]
  have "m_work_type (deref (m_pool st') a) \<noteq> UNKNOWN"
    using A types_itemD[OF typed] item_inv_new env by (metis env_ok_def)
  moreover have "request_of st' i = request_of st i" if "i \<noteq> next_id (m_pool st)" for i
    using that A pool_invD(1)[OF inv, of i] by (auto simp: request_of_def split: option.splits)
  moreover have "request_of st (next_id (m_pool st)) = None"
    using next_id_not_live[OF inv] by (simp add: request_of_def)
  ultimately have "request_of st' = (request_of st)(next_id (m_pool st) \<mapsto>
      (m_work_type (deref (m_pool st') a), m_callback (deref (m_pool st') a)))"
    using A by (auto simp: fun_eq_iff request_of_def)
  with A \<open>request_of st (next_id (m_pool st)) = None\<close> show ?thesis
    unfolding starts_one_def by (metis fst_conv)
qed

lemma submit_item_at_starts_one:
  assumes inv: "pool_inv (m_pool st)" and keeps: "keeps_item f" and over: "hands_over f"
    and typed: "types_item f"
    and l: "lookup (m_pool st) i = Some a" and u: "m_work_type (deref (m_pool st) a) = UNKNOWN"
    and run: "submit_item_at f a st = Inr st'"
  shows "starts_one st st'"
proof -
  note A = submit_item_at_frame[OF inv keeps over run]
  have "m_work_type (deref (m_pool st') a) \<noteq> UNKNOWN"
    using A types_itemD[OF typed] pool_inv_item[OF inv] by blast
  moreover have "request_of st' j = request_of st j" if "j \<noteq> i" for j
  proof (cases "lookup (m_pool st) j")
    case None
    then show ?thesis using A by (simp add: request_of_def)
  next
    case (Some b)
    then have "b \<noteq> a" using lookup_inj[OF inv l, of j] that by blast
    then show ?thesis using A Some by (simp add: request_of_def)
  qed
  ultimately have "request_of st' = (request_of st)(i \<mapsto>
      (m_work_type (deref (m_pool st') a), m_callback (deref (m_pool st') a)))"
    using A l by (auto simp: fun_eq_iff request_of_def)
  moreover have "request_of st i = None" using l u by (simp add: request_of_def)
  ultimately show ?thesis using A pool_invD(2)[OF inv l] unfolding starts_one_def by (metis fst_conv)
qed

section \<open>Every call, and every run of calls\<close>

definition api_ok :: "uring \<Rightarrow> uring \<Rightarrow> bool" where
  "api_ok st st' \<longleftrightarrow> pool_inv (m_pool st') \<and> api_frame st st' \<and>
     callbacks (trace st') = callbacks (trace st)"

lemma api_ok_trans: "api_ok st st1 \<Longrightarrow> api_ok st1 st2 \<Longrightarrow> api_ok st st2"
  unfolding api_ok_def using api_frame_trans by auto

lemma alloc_submit_ok:
  assumes env: "env_ok env" and inv: "pool_inv (m_pool st)"
    and f: "keeps_item f" "hands_over f" "types_item f"
    and run: "with_pool (\<lambda>(p, n). bindE (internal_alloc_work_item (e_junk env tr) socket descr p) (\<lambda>(wi, p1).
        bindE (submit_at f wi (p1, n)) (\<lambda>pn. Inr (wi, pn)))) st = Inr (a, st')"
  shows "api_ok st st' \<and> starts_one st st'"
  using alloc_submit_frame[OF env inv f(1,2) run] alloc_submit_starts_one[OF env inv f run]
  by (simp add: api_ok_def)

text \<open>The four calls that take a new item and hand it over at once.\<close>

lemma submit_new_ok:
  assumes env: "env_ok env" and inv: "pool_inv (m_pool st)"
  shows "submit_accept env s h st = Inr (a, st') \<Longrightarrow> api_ok st st' \<and> starts_one st st'"
    "submit_connect env s tgt h st = Inr (a, st') \<Longrightarrow> api_ok st st' \<and> starts_one st st'"
    "submit_recv env s h st = Inr (a, st') \<Longrightarrow> api_ok st st' \<and> starts_one st st'"
    "submit_close env s h st = Inr (a, st') \<Longrightarrow> api_ok st st' \<and> starts_one st st'"
proof -
  note go = alloc_submit_ok[OF env inv]
  show "submit_accept env s h st = Inr (a, st') \<Longrightarrow> api_ok st st' \<and> starts_one st st'"
    by (rule go[OF ring.overloads_keep(3) overloads_hand_over(3) overloads_typed(2)])
      (auto simp: submit_accept_def alloc_accept_work_item_def)
  show "submit_connect env s tgt h st = Inr (a, st') \<Longrightarrow> api_ok st st' \<and> starts_one st st'"
    by (rule go[OF ring.overloads_keep(7) overloads_hand_over(7) overloads_typed(6)])
      (auto simp: submit_connect_def alloc_connect_work_item_def)
  show "submit_recv env s h st = Inr (a, st') \<Longrightarrow> api_ok st st' \<and> starts_one st st'"
    by (rule go[OF ring.overloads_keep(2) overloads_hand_over(2) overloads_typed(1)])
      (auto simp: submit_recv_def alloc_recv_work_item_def)
  show "submit_close env s h st = Inr (a, st') \<Longrightarrow> api_ok st st' \<and> starts_one st st'"
    by (rule go[OF ring.overloads_keep(4) overloads_hand_over(4) overloads_typed(3)])
      (auto simp: submit_close_def alloc_close_work_item_def)
qed

text \<open>The calls that work on an item that the client has acquired.\<close>

lemma with_item_ok:
  assumes "pool_inv (m_pool st)" and
    "\<And>wi wi'. item_inv wi \<Longrightarrow> f wi = Inr wi' \<Longrightarrow> item_inv wi' \<and> same_request wi wi'"
    and "with_item a f st = Inr st'"
  shows "api_ok st st' \<and> starts_none st st'"
  using with_item_frame[OF assms] with_item_starts_none[OF assms] by (simp add: api_ok_def)

lemma fill_packet_ok:
  assumes "pool_inv (m_pool st)"
  shows "with_item a (\<lambda>i. Inr (get_send_packet i)) st = Inr st' \<Longrightarrow> api_ok st st' \<and> starts_none st st'"
    "client_append a d st = Inr st' \<Longrightarrow> api_ok st st' \<and> starts_none st st'"
  unfolding client_append_def
  by (rule with_item_ok[OF assms]; use get_send_packet_keeps append_keeps in blast)+

lemma ackuire_ok:
  "env_ok env \<Longrightarrow> pool_inv (m_pool st) \<Longrightarrow> ackuire_send_workitem env s st = Inr (a, st') \<Longrightarrow>
     api_ok st st' \<and> starts_none st st'"
  using ackuire_frame ackuire_starts_none unfolding api_ok_def by meson

lemma submit_stream_ok:
  assumes "pool_inv (m_pool st)" and "submit_item_at (submit_stream_data (submit env bufsz) h) a st = Inr st'"
  shows "api_ok st st'"
  using submit_item_at_frame[OF assms(1) ring.overloads_keep(5) overloads_hand_over(5) assms(2)]
  by (simp add: api_ok_def)

lemma submit_packet_ok:
  assumes "pool_inv (m_pool st)" and "submit_item_at (submit_packet (submit env bufsz) ps h) a st = Inr st'"
  shows "api_ok st st'"
  using submit_item_at_frame[OF assms(1) ring.overloads_keep(6) overloads_hand_over(6) assms(2)]
  by (simp add: api_ok_def)

text \<open>\<^verbatim>\<open>SocketImpl::send\<close> acquires, fills and hands over one item.\<close>

lemma socket_send_ok:
  assumes env: "env_ok env" and inv: "pool_inv (m_pool st)" and run: "socket_send env s msg h st = Inr st'"
  shows "api_ok st st' \<and> starts_one st st'"
proof -
  from run obtain a st1 st2 st3 where
    1: "ackuire_send_workitem env s st = Inr (a, st1)" and
    2: "with_item a (\<lambda>i. Inr (get_send_packet i)) st1 = Inr st2" and
    3: "client_append a (bytes_of_string msg) st2 = Inr st3" and
    4: "submit_item_at (submit_stream_data (submit env (buffer_size st3)) h) a st3 = Inr st'"
    by (auto simp: socket_send_def)
  have A: "api_ok st st1 \<and> starts_none st st1" by (rule ackuire_ok[OF env inv 1])
  then have inv1: "pool_inv (m_pool st1)" by (simp add: api_ok_def)
  have B: "api_ok st1 st2 \<and> starts_none st1 st2" by (rule fill_packet_ok(1)[OF inv1 2])
  then have inv2: "pool_inv (m_pool st2)" by (simp add: api_ok_def)
  have C: "api_ok st2 st3 \<and> starts_none st2 st3" by (rule fill_packet_ok(2)[OF inv2 3])
  then have inv3: "pool_inv (m_pool st3)" by (simp add: api_ok_def)
  have D: "api_ok st3 st'" by (rule submit_stream_ok[OF inv3 4])
  let ?i = "next_id (m_pool st)"
  note F1 = ackuire_frame[OF env inv 1]
  note F2 = with_item_frame[OF inv1 _ 2]
  note F3 = with_item_frame[OF inv2 _ 3[unfolded client_append_def]]
  have s1: "lookup (m_pool st1) ?i = Some a \<and> m_work_type (deref (m_pool st1) a) = UNKNOWN"
    using F1 by (metis WorkItem_new_simps(3) fun_upd_same)
  have s2: "lookup (m_pool st2) ?i = Some a \<and> m_work_type (deref (m_pool st2) a) = UNKNOWN"
    using F2 s1 get_send_packet_keeps unfolding same_request_def by (metis Inr_inject)
  have s3: "lookup (m_pool st3) ?i = Some a \<and> m_work_type (deref (m_pool st3) a) = UNKNOWN"
    using F3 s2 append_keeps unfolding same_request_def by metis
  have "starts_one st3 st'"
    using submit_item_at_starts_one[OF inv3 ring.overloads_keep(5) overloads_hand_over(5)
        overloads_typed(4) _ _ 4] s3 by blast
  with A B C D show ?thesis by (blast intro: api_ok_trans starts_none_one)
qed

theorem api_step_ok:
  assumes env: "env_ok env" and inv: "pool_inv (m_pool st)" and step: "api_step env st c = Inr st'"
  shows "api_ok st st'"
  using step
  by (cases c) (auto dest!: submit_new_ok[OF env inv] ackuire_ok[OF env inv] fill_packet_ok[OF inv]
      submit_stream_ok[OF inv] submit_packet_ok[OF inv] socket_send_ok[OF env inv])

theorem api_step_starts:
  assumes env: "env_ok env" and inv: "pool_inv (m_pool st)" and step: "api_step env st c = Inr st'"
    and ok: "call_ok st c"
  shows "starts_none st st' \<or> starts_one st st'"
proof (cases c)
  case (Api_submit_stream_data a h)
  with ok step submit_item_at_starts_one[OF inv ring.overloads_keep(5) overloads_hand_over(5)
      overloads_typed(4)] show ?thesis by (auto simp: call_ok_def)
next
  case (Api_submit_packet a ps h)
  with ok step submit_item_at_starts_one[OF inv ring.overloads_keep(6) overloads_hand_over(6)
      overloads_typed(5)] show ?thesis by (auto simp: call_ok_def)
qed (use step in \<open>auto dest!: submit_new_ok[OF env inv] ackuire_ok[OF env inv] fill_packet_ok[OF inv]
      socket_send_ok[OF env inv]\<close>)

lemma api_ok_refl: "pool_inv (m_pool st) \<Longrightarrow> api_ok st st"
  by (simp add: api_ok_def)

lemma api_calls_ok:
  assumes env: "env_ok env"
  shows "pool_inv (m_pool st) \<Longrightarrow> foldE (api_step env) st cs = Inr st' \<Longrightarrow> api_ok st st'"
proof (induction cs arbitrary: st)
  case Nil
  then show ?case by (simp add: api_ok_refl)
next
  case (Cons c cs)
  then obtain st1 where 1: "api_step env st c = Inr st1" and 2: "foldE (api_step env) st1 cs = Inr st'"
    by auto
  have A: "api_ok st st1" by (rule api_step_ok[OF env Cons.prems(1) 1])
  then have "pool_inv (m_pool st1)" by (simp add: api_ok_def)
  from Cons.IH[OF this 2] A show ?case by (blast intro: api_ok_trans)
qed

text \<open>
  The requests that a run of calls starts: each under an identifier of its own, with an
  entry that fits it.
\<close>

definition starts_by :: "sqe list \<Rightarrow> uring \<Rightarrow> uring \<Rightarrow> bool" where
  "starts_by es st st' \<longleftrightarrow> distinct (map sqe_user_data es) \<and>
     (\<forall>e \<in> set es. request_of st (sqe_user_data e) = None \<and>
        (\<exists>r. request_of st' (sqe_user_data e) = Some r \<and> entry_fits (fst r) e)) \<and>
     (\<forall>i. i \<notin> sqe_user_data ` set es \<longrightarrow> request_of st' i = request_of st i) \<and>
     sqes (trace st') = sqes (trace st) @ es"

definition starts :: "uring \<Rightarrow> uring \<Rightarrow> bool" where
  "starts st st' \<longleftrightarrow> (\<exists>es. starts_by es st st')"

lemma starts_none_starts: "starts_none st st' \<Longrightarrow> starts st st'"
  unfolding starts_none_def starts_def by (rule exI[of _ "[]"]) (simp add: starts_by_def)

lemma starts_one_starts: "starts_one st st' \<Longrightarrow> starts st st'"
  unfolding starts_one_def starts_def by (elim exE, rule_tac x = "[e]" in exI) (auto simp: starts_by_def)

lemma starts_by_trans:
  assumes "starts_by es st st1" and "starts_by fs st1 st2"
  shows "starts_by (es @ fs) st st2"
proof -
  let ?u = sqe_user_data
  note I = assms(1)[unfolded starts_by_def] and J = assms(2)[unfolded starts_by_def]
  have disj: "?u ` set es \<inter> ?u ` set fs = {}"
  proof (rule ccontr)
    assume "?u ` set es \<inter> ?u ` set fs \<noteq> {}"
    then obtain e f where "e \<in> set es" "f \<in> set fs" "?u e = ?u f" by blast
    then show False using I J by (metis option.distinct(1))
  qed
  have "request_of st (?u e) = None \<and> (\<exists>r. request_of st2 (?u e) = Some r \<and> entry_fits (fst r) e)"
    if "e \<in> set es" for e
    using that I J disj by (metis IntI empty_iff imageI)
  moreover have "request_of st (?u e) = None" if "e \<in> set fs" for e
    using that I J disj by (metis IntI empty_iff imageI)
  moreover have "request_of st2 i = request_of st i" if "i \<notin> ?u ` set (es @ fs)" for i
    using that I J by (simp add: image_Un)
  moreover have "distinct (map ?u (es @ fs))" using I J disj by simp
  ultimately show ?thesis using I J unfolding starts_by_def by auto
qed

lemma starts_trans: "starts st st1 \<Longrightarrow> starts st1 st2 \<Longrightarrow> starts st st2"
  unfolding starts_def by (blast intro: starts_by_trans)

text \<open>The identifiers alone.\<close>

lemma starts_ids:
  assumes "starts st st'"
  shows "\<exists>I. distinct I \<and> (\<forall>i \<in> set I. request_of st i = None \<and> request_of st' i \<noteq> None) \<and>
     (\<forall>i. i \<notin> set I \<longrightarrow> request_of st' i = request_of st i) \<and>
     map sqe_user_data (sqes (trace st')) = map sqe_user_data (sqes (trace st)) @ I"
proof -
  from assms obtain es where "starts_by es st st'" unfolding starts_def ..
  then show ?thesis by (intro exI[of _ "map sqe_user_data es"]) (auto simp: starts_by_def)
qed

fun calls_ok :: "env \<Rightarrow> uring \<Rightarrow> api_call list \<Rightarrow> bool" where
  "calls_ok env st [] = True"
| "calls_ok env st (c # cs) =
     (call_ok st c \<and> (case api_step env st c of Inl _ \<Rightarrow> True | Inr st1 \<Rightarrow> calls_ok env st1 cs))"

lemma api_calls_start:
  assumes env: "env_ok env"
  shows "pool_inv (m_pool st) \<Longrightarrow> calls_ok env st cs \<Longrightarrow> foldE (api_step env) st cs = Inr st' \<Longrightarrow>
     starts st st'"
proof (induction cs arbitrary: st)
  case Nil
  then show ?case by (simp add: starts_none_starts starts_none_def)
next
  case (Cons c cs)
  then obtain st1 where 1: "api_step env st c = Inr st1" and 2: "foldE (api_step env) st1 cs = Inr st'"
    and ok: "call_ok st c" "calls_ok env st1 cs"
    by auto
  have "pool_inv (m_pool st1)"
    using api_step_ok[OF env Cons.prems(1) 1] by (simp add: api_ok_def)
  from Cons.IH[OF this ok(2) 2] api_step_starts[OF env Cons.prems(1) 1 ok(1)] show ?case
    by (blast intro: starts_none_starts starts_one_starts starts_trans)
qed

section \<open>Running the functions of a client\<close>

text \<open>
  What the library may rely on when it runs a function of the client: the call is one
  event, and whatever else happens is a run of calls of the interface.
\<close>

locale client_runner =
  fixes env :: env and cbs :: "uring invoker"
  assumes runs_calls: "cbs f x st = Inr (st', act) \<Longrightarrow>
      \<exists>cs. foldE (api_step env) (log_ev (Ev_callback f x) st) cs = Inr st'"
begin

lemma callback_ok:
  assumes env: "env_ok env" and inv: "pool_inv (m_pool st)" and run: "cbs f x st = Inr (st', act)"
  shows "pool_inv (m_pool st') \<and> api_frame st st' \<and>
     callbacks (trace st') = callbacks (trace st) @ [(f, x)]"
proof -
  let ?st1 = "log_ev (Ev_callback f x) st"
  from runs_calls[OF run] obtain cs where "foldE (api_step env) ?st1 cs = Inr st'" by blast
  with inv have A: "api_ok ?st1 st'" using api_calls_ok[OF env, of ?st1] by simp
  have "?st1 = st\<lparr>m_pool := m_pool ?st1, trace := trace ?st1\<rparr>" by (simp add: log_ev_def)
  moreover have "trace_grows (trace st) (trace ?st1)" by (simp add: trace_grows_def)
  ultimately have "api_frame st ?st1" by (simp add: api_frame_def)
  with A show ?thesis unfolding api_ok_def using api_frame_trans by auto
qed

end

text \<open>
  A script is legal if it hands over only items that are in the table and have not been
  handed over before; \<open>checked\<close> runs a function of the client if it is, and stops if it is not.
\<close>

primrec legal :: "env \<Rightarrow> script \<Rightarrow> uring \<Rightarrow> bool" where
  "legal env (Return act) = (\<lambda>st. True)"
| "legal env (Call c k) = (\<lambda>st. call_ok st c \<and>
     (case api_step env st c of Inl _ \<Rightarrow> True | Inr st \<Rightarrow> legal env (k (trace st)) st))"

definition checked :: "env \<Rightarrow> client \<Rightarrow> uring invoker" where
  "checked env client f x st =
     (let st1 = log_ev (Ev_callback f x) st
      in if legal env (client f x (trace st1)) st1 then invoke env client f x st
         else Inl Call_not_allowed)"

text \<open>What the library may rely on if every call that is made is a legal one.\<close>

locale careful_runner = client_runner +
  assumes careful_calls: "pool_inv (m_pool st) \<Longrightarrow> cbs f x st = Inr (st', act) \<Longrightarrow>
      \<exists>cs. calls_ok env (log_ev (Ev_callback f x) st) cs \<and>
        foldE (api_step env) (log_ev (Ev_callback f x) st) cs = Inr st'"
begin

lemma callback_starts:
  assumes env: "env_ok env" and inv: "pool_inv (m_pool st)" and run: "cbs f x st = Inr (st', act)"
  shows "starts st st'"
proof -
  let ?st1 = "log_ev (Ev_callback f x) st"
  from careful_calls[OF inv run] obtain cs where "calls_ok env ?st1 cs"
    "foldE (api_step env) ?st1 cs = Inr st'" by blast
  then have "starts ?st1 st'" using api_calls_start[OF env, of ?st1] inv by simp
  moreover have "starts_none st ?st1" by (simp add: starts_none_def)
  ultimately show ?thesis by (blast intro: starts_none_starts starts_trans)
qed

end

lemma run_script_calls:
  "run_script env s st = Inr (st', act) \<Longrightarrow> \<exists>cs. foldE (api_step env) st cs = Inr st' \<and>
     (legal env s st \<longrightarrow> calls_ok env st cs)"
proof (induction s arbitrary: st)
  case (Return act')
  then show ?case by (auto intro: exI[of _ "[]"])
next
  case (Call c k)
  then obtain st1 where 1: "api_step env st c = Inr st1" "run_script env (k (trace st1)) st1 = Inr (st', act)"
    by auto
  with Call.IH[OF _ 1(2)] obtain cs where "foldE (api_step env) st1 cs = Inr st'"
    "legal env (k (trace st1)) st1 \<longrightarrow> calls_ok env st1 cs" by blast
  with 1(1) show ?case by (intro exI[of _ "c # cs"]) simp
qed

interpretation scripts: client_runner env "invoke env client" for env client
  by unfold_locales (use run_script_calls in \<open>fastforce simp: invoke_def Let_def\<close>)

interpretation watched: careful_runner env "checked env client" for env client
  by unfold_locales (use run_script_calls in \<open>fastforce simp: checked_def invoke_def Let_def split: if_splits\<close>)+

text \<open>A client whose functions do nothing and ask for no more data.\<close>

definition idle_client :: client where
  "idle_client f x tr = Return NONE"

lemma invoke_idle [simp]:
  "invoke env idle_client f x st = Inr (log_ev (Ev_callback f x) st, NONE)"
  by (simp add: invoke_def idle_client_def)

lemma checked_idle [simp]: "checked env idle_client = invoke env idle_client"
  by (simp add: checked_def idle_client_def fun_eq_iff)

interpretation idle: careful_runner env "invoke env idle_client" for env
  by unfold_locales (auto intro: exI[of _ "[]"])

end
