(* ===== verification/NewRequests.thy ===== *)
theory NewRequests
  imports Interface
begin

text \<open>
  The calls of the interface that make a request, seen from a client: when the submission
  queue has room they succeed, and exactly one item is new and handed to the kernel.  The
  example programs rest on these lemmas.
\<close>

section \<open>New requests\<close>

text \<open>
  From \<open>st\<close> to \<open>st'\<close> the interface was used so that one item is new and was handed to the
  kernel with the preparation \<open>p\<close>.
\<close>

definition new_request :: "isocket \<Rightarrow> work_type \<Rightarrow> callback \<Rightarrow> prep \<Rightarrow> uring \<Rightarrow> uring \<Rightarrow> bool" where
  "new_request socket t cb p st st' \<longleftrightarrow> api_ok st st' \<and>
     (\<exists>i a e. lookup (m_pool st) i = None \<and> length (heap (m_pool st)) \<le> a \<and>
        lookup (m_pool st') = (lookup (m_pool st))(i \<mapsto> a) \<and>
        m_work_type (deref (m_pool st') a) = t \<and> m_callback (deref (m_pool st') a) = cb \<and>
        m_socket (deref (m_pool st') a) = socket \<and>
        sqes (trace st') = sqes (trace st) @ [e] \<and> sqe_user_data e = i \<and> sqe_prep e = p)"

definition queue_has_room :: "env \<Rightarrow> bool" where
  "queue_has_room env \<longleftrightarrow> (\<forall>tr. e_get_sqe env tr)"

lemma submit_runs:
  assumes "queue_has_room env" and "prepare bufsz wi = Inr (wi', p, fl)"
  shows "\<exists>tr' e. submit env bufsz wi tr = Inr (wi', tr') \<and> sqes tr' = sqes tr @ [e] \<and>
     sqe_user_data e = m_id wi \<and> sqe_prep e = p"
proof -
  have "get_sqe env tr = Inr (tr @ [Ev_get_sqe True])"
    using assms(1) by (simp add: queue_has_room_def get_sqe_def try_get_sqe_def)
  then show ?thesis using assms(2) by (simp add: submit_def submit_all_requests_def Let_def)
qed

lemma new_item_runs:
  assumes env: "env_ok env" and inv: "pool_inv (m_pool st)"
    and f: "keeps_item f" "hands_over f"
    and run: "f (WorkItem_new (e_junk env tr) (next_id (m_pool st)) descr socket) (trace st) = Inr (wi', tr')"
    and e: "sqes tr' = sqes (trace st) @ [e]" "sqe_user_data e = next_id (m_pool st)"
  shows "\<exists>a st'. with_pool (\<lambda>(p, n). bindE (internal_alloc_work_item (e_junk env tr) socket descr p) (\<lambda>(wi, p1).
        bindE (submit_at f wi (p1, n)) (\<lambda>pn. Inr (wi, pn)))) st = Inr (a, st') \<and>
     new_request socket (m_work_type wi') (m_callback wi') (sqe_prep e) st st'"
proof -
  let ?wi = "WorkItem_new (e_junk env tr) (next_id (m_pool st)) descr socket"
  have junk: "junk_ok (e_junk env tr)" using env by (simp add: env_ok_def)
  from internal_alloc_eq[OF inv, of "e_junk env tr" socket descr] obtain p1 where
    "internal_alloc_work_item (e_junk env tr) socket descr (m_pool st) = Inr (length (heap (m_pool st)), p1)"
    "heap p1 = heap (m_pool st) @ [?wi]" by blast
  then obtain a st' where r: "with_pool (\<lambda>(p, n). bindE (internal_alloc_work_item (e_junk env tr) socket descr p)
      (\<lambda>(wi, p1). bindE (submit_at f wi (p1, n)) (\<lambda>pn. Inr (wi, pn)))) st = Inr (a, st')"
    using run by (auto simp: with_pool_def submit_at_def deref_def)
  note A = alloc_submit_frame[OF env inv f r]
  then have "deref (m_pool st') a = wi'" "trace st' = tr'" using run by auto
  moreover have "m_socket wi' = socket" using keeps_itemD[OF f(1) item_inv_new[OF junk] run] by simp
  moreover have "lookup (m_pool st) (next_id (m_pool st)) = None" by (rule next_id_not_live[OF inv])
  ultimately show ?thesis
    using r A e by (intro exI[of _ a] exI[of _ st']) (auto simp: new_request_def api_ok_def)
qed

lemma recv_runs:
  assumes env: "env_ok env" "queue_has_room env" and inv: "pool_inv (m_pool st)" "m_initialized st"
    and s: "is_stream socket"
  shows "\<exists>a st'. submit_recv env socket h st = Inr (a, st') \<and>
     new_request socket RECV (Recv_cb h) (Prep_recv (get_fd socket) (buffer_size st) 0) st st'"
proof -
  let ?f = "submit_recv_item (submit env (buffer_size st)) h"
  let ?wi = "WorkItem_new (e_junk env (trace st)) (next_id (m_pool st)) ''read-from-socket'' socket"
  let ?wi1 = "?wi\<lparr>m_callback := Recv_cb h, m_work_type := RECV\<rparr>"
  have "prepare (buffer_size st) ?wi1 = Inr (?wi1, Prep_recv (get_fd socket) (buffer_size st) 0, IOSQE_BUFFER_SELECT)"
    using s by (simp add: prepare_def Let_def item_is_stream_def)
  from submit_runs[OF env(2) this, of "trace st"] obtain tr' e where
    "?f ?wi (trace st) = Inr (?wi1, tr')" "sqes tr' = sqes (trace st) @ [e]"
    "sqe_user_data e = next_id (m_pool st)" "sqe_prep e = Prep_recv (get_fd socket) (buffer_size st) 0"
    by (auto simp: submit_recv_item_def)
  from new_item_runs[OF env(1) inv(1) ring.overloads_keep(2) overloads_hand_over(2) this(1-3)] this(4)
  show ?thesis using inv(2) by (simp add: submit_recv_def alloc_recv_work_item_def)
qed

lemma accept_runs:
  assumes env: "env_ok env" "queue_has_room env" and inv: "pool_inv (m_pool st)" "m_initialized st"
    and k: "get_kind socket = SERVER_STREAM_SOCKET"
  shows "\<exists>a st'. submit_accept env socket h st = Inr (a, st') \<and>
     new_request socket ACCEPT (Accept_cb h) (Prep_accept (get_fd socket) 0 0) st st'"
proof -
  let ?f = "submit_accept_item (submit env (buffer_size st)) h"
  let ?wi = "WorkItem_new (e_junk env (trace st)) (next_id (m_pool st)) ''accept-job'' socket"
  let ?wi1 = "?wi\<lparr>m_callback := Accept_cb h, m_work_type := ACCEPT\<rparr>"
  have "prepare (buffer_size st) ?wi1 =
      Inr (?wi1\<lparr>m_accept_sock_len := 0\<rparr>, Prep_accept (get_fd socket) 0 0, 0)"
    by (simp add: prepare_def Let_def)
  from submit_runs[OF env(2) this, of "trace st"] obtain tr' e where
    "?f ?wi (trace st) = Inr (?wi1\<lparr>m_accept_sock_len := 0\<rparr>, tr')" "sqes tr' = sqes (trace st) @ [e]"
    "sqe_user_data e = next_id (m_pool st)" "sqe_prep e = Prep_accept (get_fd socket) 0 0"
    by (auto simp: submit_accept_item_def)
  from new_item_runs[OF env(1) inv(1) ring.overloads_keep(3) overloads_hand_over(3) this(1-3)] this(4)
  show ?thesis using inv(2) k by (simp add: submit_accept_def alloc_accept_work_item_def)
qed

lemma close_runs:
  assumes env: "env_ok env" "queue_has_room env" and inv: "pool_inv (m_pool st)" "m_initialized st"
  shows "\<exists>a st'. submit_close env socket h st = Inr (a, st') \<and>
     new_request socket CLOSE (Close_cb h) (Prep_close (get_fd socket)) st st'"
proof -
  let ?f = "submit_close_item (submit env (buffer_size st)) h"
  let ?wi = "WorkItem_new (e_junk env (trace st)) (next_id (m_pool st)) ''close-of-socket'' socket"
  let ?wi1 = "?wi\<lparr>m_callback := Close_cb h, m_work_type := CLOSE\<rparr>"
  have "prepare (buffer_size st) ?wi1 = Inr (?wi1, Prep_close (get_fd socket), 0)"
    by (simp add: prepare_def Let_def)
  from submit_runs[OF env(2) this, of "trace st"] obtain tr' e where
    "?f ?wi (trace st) = Inr (?wi1, tr')" "sqes tr' = sqes (trace st) @ [e]"
    "sqe_user_data e = next_id (m_pool st)" "sqe_prep e = Prep_close (get_fd socket)"
    by (auto simp: submit_close_item_def)
  from new_item_runs[OF env(1) inv(1) ring.overloads_keep(4) overloads_hand_over(4) this(1-3)] this(4)
  show ?thesis using inv(2) by (simp add: submit_close_def alloc_close_work_item_def)
qed

lemma connect_runs:
  assumes env: "env_ok env" "queue_has_room env" and inv: "pool_inv (m_pool st)" "m_initialized st"
    and t: "m_in4 target = Some sa"
  shows "\<exists>a st'. submit_connect env socket target h st = Inr (a, st') \<and>
     new_request socket CONNECT (Connect_cb h) (Prep_connect (get_fd socket) (sockaddr_in_bytes sa) 16) st st'"
proof -
  let ?f = "submit_connect_item (submit env (buffer_size st)) target h"
  let ?wi = "WorkItem_new (e_junk env (trace st)) (next_id (m_pool st)) ''connect-job'' socket"
  let ?wi1 = "?wi\<lparr>m_connect_sock_len := 16,
      m_buffer_for_uring := memcpy_at 0 (sockaddr_in_bytes sa) (m_buffer_for_uring ?wi),
      m_callback := Connect_cb h, m_work_type := CONNECT\<rparr>"
  have "item_inv ?wi" using env(1) item_inv_new by (simp add: env_ok_def)
  then have b: "length (m_buffer_for_uring ?wi) = 128" by (simp add: item_inv_def sizeof_defs)
  have "take 16 (memcpy_at 0 (sockaddr_in_bytes sa) (m_buffer_for_uring ?wi)) = sockaddr_in_bytes sa"
    using take_memcpy_at_0[of "sockaddr_in_bytes sa" "m_buffer_for_uring ?wi"] by (simp add: sizeof_defs)
  then have "prepare (buffer_size st) ?wi1 =
      Inr (?wi1, Prep_connect (get_fd socket) (sockaddr_in_bytes sa) 16, link_flag ?wi1)"
    by (simp add: prepare_def Let_def sizeof_defs)
  from submit_runs[OF env(2) this, of "trace st"] b obtain tr' e where
    "?f ?wi (trace st) = Inr (?wi1, tr')" "sqes tr' = sqes (trace st) @ [e]"
    "sqe_user_data e = next_id (m_pool st)" "sqe_prep e = Prep_connect (get_fd socket) (sockaddr_in_bytes sa) 16"
    by (auto simp: submit_connect_item_def size_sockaddr_def data_sockaddr_def t Let_def sizeof_defs)
  from new_item_runs[OF env(1) inv(1) ring.overloads_keep(7) overloads_hand_over(7) this(1-3)] this(4)
  show ?thesis using inv(2) by (simp add: submit_connect_def alloc_connect_work_item_def)
qed

lemma submit_item_at_runs:
  "a < length (heap (m_pool st)) \<Longrightarrow> f (deref (m_pool st) a) (trace st) = Inr (wi', tr') \<Longrightarrow>
     \<exists>st'. submit_item_at f a st = Inr st'"
  by (simp add: submit_item_at_def submit_at_def)

section \<open>Filling a packet\<close>

lemma client_append_fits:
  assumes inv: "pool_inv (m_pool st)" and a: "a < length (heap (m_pool st))"
    and fits: "length (contents (m_send_packet (deref (m_pool st) a))) + length d < BUF_SIZE"
  shows "\<exists>st'. client_append a d st = Inr st' \<and> api_ok st st' \<and> lookup (m_pool st') = lookup (m_pool st) \<and>
     trace st' = trace st \<and> length (heap (m_pool st')) = length (heap (m_pool st)) \<and>
     (\<forall>b. same_request (deref (m_pool st) b) (deref (m_pool st') b)) \<and>
     contents (m_send_packet (deref (m_pool st') a)) = contents (m_send_packet (deref (m_pool st) a)) @ d"
proof -
  let ?wi = "deref (m_pool st) a"
  have "packet_inv (m_send_packet ?wi)" using pool_inv_item[OF inv a] by (simp add: item_inv_def)
  from pkt.append_fits[OF this fits] obtain sp where
    sp: "append_bytes (m_send_packet ?wi) d = Inr sp" "contents sp = contents (m_send_packet ?wi) @ d" by blast
  then obtain st' where run: "client_append a d st = Inr st'"
    using a by (simp add: client_append_def with_item_def)
  note F = with_item_frame[OF inv append_keeps run[unfolded client_append_def]]
  then have "deref (m_pool st') a = ?wi\<lparr>m_send_packet := sp\<rparr>" using sp(1) by auto
  then show ?thesis using run F sp(2) by (simp add: api_ok_def)
qed

lemma client_append_all:
  "pool_inv (m_pool st) \<Longrightarrow> a < length (heap (m_pool st)) \<Longrightarrow>
   length (contents (m_send_packet (deref (m_pool st) a))) + length (concat ds) < BUF_SIZE \<Longrightarrow>
   \<exists>st'. foldE (\<lambda>st d. client_append a d st) st ds = Inr st' \<and> api_ok st st' \<and> lookup (m_pool st') = lookup (m_pool st) \<and>
     trace st' = trace st \<and> length (heap (m_pool st')) = length (heap (m_pool st)) \<and>
     (\<forall>b. same_request (deref (m_pool st) b) (deref (m_pool st') b)) \<and>
     contents (m_send_packet (deref (m_pool st') a)) = contents (m_send_packet (deref (m_pool st) a)) @ concat ds"
proof (induction ds arbitrary: st)
  case Nil
  then show ?case by (simp add: api_ok_refl same_request_def)
next
  case (Cons d ds)
  from client_append_fits[OF Cons.prems(1,2), of d] Cons.prems(3) obtain st1 where
    1: "client_append a d st = Inr st1" "api_ok st st1" "lookup (m_pool st1) = lookup (m_pool st)"
      "trace st1 = trace st" "length (heap (m_pool st1)) = length (heap (m_pool st))"
      "\<forall>b. same_request (deref (m_pool st) b) (deref (m_pool st1) b)"
      "contents (m_send_packet (deref (m_pool st1) a)) = contents (m_send_packet (deref (m_pool st) a)) @ d"
    by auto
  have "pool_inv (m_pool st1)" using 1(2) by (simp add: api_ok_def)
  from Cons.IH[OF this] 1 Cons.prems(2,3) obtain st2 where
    2: "foldE (\<lambda>st d. client_append a d st) st1 ds = Inr st2" "api_ok st1 st2" "lookup (m_pool st2) = lookup (m_pool st1)"
      "trace st2 = trace st1" "length (heap (m_pool st2)) = length (heap (m_pool st1))"
      "\<forall>b. same_request (deref (m_pool st1) b) (deref (m_pool st2) b)"
      "contents (m_send_packet (deref (m_pool st2) a)) = contents (m_send_packet (deref (m_pool st1) a)) @ concat ds"
    by auto
  have "same_request (deref (m_pool st) b) (deref (m_pool st2) b)" for b
    using 1(6) 2(6) by (simp add: same_request_def)
  with 1 2 show ?case by (simp add: api_ok_trans[OF 1(2) 2(2)])
qed

section \<open>Sending\<close>

text \<open>The item that a client has acquired last.\<close>

definition last_acquired :: "event list \<Rightarrow> nat" where
  "last_acquired tr = last (List.map_filter (\<lambda>e. case e of Ev_acquired a \<Rightarrow> Some a | _ \<Rightarrow> None) tr)"

lemma ackuire_trace:
  "ackuire_send_workitem env s st = Inr (a, st') \<Longrightarrow> last_acquired (trace st') = a"
  by (auto simp: ackuire_send_workitem_def last_acquired_def List.map_filter_def)

text \<open>A new item, filled.\<close>

lemma filled_item:
  assumes env: "env_ok env" and inv: "pool_inv (m_pool st)" "m_initialized st"
    and fits: "length (concat ds) < BUF_SIZE"
  shows "\<exists>a st1 st2 st3. ackuire_send_workitem env socket st = Inr (a, st1) \<and>
     with_item a (\<lambda>i. Inr (get_send_packet i)) st1 = Inr st2 \<and>
     foldE (\<lambda>st d. client_append a d st) st2 ds = Inr st3 \<and> api_ok st st3 \<and>
     length (heap (m_pool st)) = a \<and> length (heap (m_pool st3)) = Suc a \<and>
     lookup (m_pool st3) = (lookup (m_pool st))(next_id (m_pool st) \<mapsto> a) \<and>
     m_work_type (deref (m_pool st3) a) = UNKNOWN \<and> m_socket (deref (m_pool st3) a) = socket \<and>
     m_id (deref (m_pool st3) a) = next_id (m_pool st) \<and>
     contents (m_send_packet (deref (m_pool st3) a)) = concat ds \<and> sqes (trace st3) = sqes (trace st)"
proof -
  from internal_alloc_eq[OF inv(1), of "e_junk env (trace st)" socket "''write-from-socket''"]
  obtain a st1 where 1: "ackuire_send_workitem env socket st = Inr (a, st1)"
    using inv(2) by (auto simp: ackuire_send_workitem_def alloc_send_work_item_def)
  note F1 = ackuire_frame[OF env inv(1) 1]
  have p1: "pool_inv (m_pool st1)" and a: "a < length (heap (m_pool st1))" using F1 by simp_all
  obtain st2 where 2: "with_item a (\<lambda>i. Inr (get_send_packet i)) st1 = Inr st2"
    using a by (simp add: with_item_def)
  note F2 = with_item_frame[OF p1 _ 2]
  have g: "item_inv wi \<Longrightarrow> Inr (get_send_packet wi) = Inr wi' \<Longrightarrow> item_inv wi' \<and> same_request wi wi'"
    for wi wi' using get_send_packet_keeps by auto
  note F2 = F2[OF g]
  have d2: "deref (m_pool st2) a = get_send_packet (deref (m_pool st1) a)" using F2 by auto
  then have c2: "contents (m_send_packet (deref (m_pool st2) a)) = []" by (simp add: get_send_packet_def)
  have ok2: "api_ok st st2"
    using ackuire_ok[OF env inv(1) 1] fill_packet_ok(1)[OF p1 2] api_ok_trans by blast
  have p2: "pool_inv (m_pool st2)" "a < length (heap (m_pool st2))" using F2 a by simp_all
  from client_append_all[OF p2, of ds] c2 fits obtain st3 where
    3: "foldE (\<lambda>st d. client_append a d st) st2 ds = Inr st3" and
    F3: "api_ok st2 st3" "lookup (m_pool st3) = lookup (m_pool st2)" "trace st3 = trace st2"
      "length (heap (m_pool st3)) = length (heap (m_pool st2))"
      "\<forall>b. same_request (deref (m_pool st2) b) (deref (m_pool st3) b)"
      "contents (m_send_packet (deref (m_pool st3) a)) = concat ds"
    by auto
  have w: "m_work_type (deref (m_pool st1) a) = UNKNOWN \<and> m_socket (deref (m_pool st1) a) = socket \<and>
      m_id (deref (m_pool st1) a) = next_id (m_pool st)"
    using F1 by (metis WorkItem_new_simps(1,3,4))
  then have "m_work_type (deref (m_pool st3) a) = UNKNOWN \<and> m_socket (deref (m_pool st3) a) = socket \<and>
      m_id (deref (m_pool st3) a) = next_id (m_pool st)"
    using F3(5) by (simp add: d2 get_send_packet_def same_request_def)
  moreover have "length (heap (m_pool st)) = a" "length (heap (m_pool st3)) = Suc a"
    "lookup (m_pool st3) = (lookup (m_pool st))(next_id (m_pool st) \<mapsto> a)" "sqes (trace st3) = sqes (trace st)"
    using F1 F2 F3(2-4) by simp_all
  ultimately show ?thesis using 1 2 3 F3(6) api_ok_trans[OF ok2 F3(1)] by blast
qed

text \<open>And handed over.\<close>

lemma sending_runs:
  assumes env: "env_ok env" "queue_has_room env" and inv: "pool_inv (m_pool st)" "m_initialized st"
    and s: "is_stream socket" and fits: "length (concat ds) < BUF_SIZE"
  shows "\<exists>a st1 st2 st3 st'. ackuire_send_workitem env socket st = Inr (a, st1) \<and>
     with_item a (\<lambda>i. Inr (get_send_packet i)) st1 = Inr st2 \<and>
     foldE (\<lambda>st d. client_append a d st) st2 ds = Inr st3 \<and>
     submit_item_at (submit_stream_data (submit env (buffer_size st3)) h) a st3 = Inr st' \<and>
     new_request socket SEND_STREAM_DATA (Send_cb h)
       (Prep_send (get_fd socket) (concat ds) (length (concat ds)) 0) st st'"
proof -
  from filled_item[OF env(1) inv fits, of socket] obtain a st1 st2 st3 where
    1: "ackuire_send_workitem env socket st = Inr (a, st1)"
      "with_item a (\<lambda>i. Inr (get_send_packet i)) st1 = Inr st2" "foldE (\<lambda>st d. client_append a d st) st2 ds = Inr st3"
    and ok: "api_ok st st3" and h: "length (heap (m_pool st)) = a" "length (heap (m_pool st3)) = Suc a"
    and l: "lookup (m_pool st3) = (lookup (m_pool st))(next_id (m_pool st) \<mapsto> a)"
    and w: "m_work_type (deref (m_pool st3) a) = UNKNOWN" "m_socket (deref (m_pool st3) a) = socket"
      "m_id (deref (m_pool st3) a) = next_id (m_pool st)"
      "contents (m_send_packet (deref (m_pool st3) a)) = concat ds" and q: "sqes (trace st3) = sqes (trace st)"
    by blast
  let ?wi = "deref (m_pool st3) a" and ?f = "submit_stream_data (submit env (buffer_size st3)) h"
  let ?wi1 = "?wi\<lparr>m_callback := Send_cb h, m_work_type := SEND_STREAM_DATA\<rparr>"
  have p3: "pool_inv (m_pool st3)" using ok by (simp add: api_ok_def)
  have i: "item_inv ?wi" using pool_inv_item[OF p3] h by simp
  then have "packet_size (m_send_packet ?wi) = length (concat ds)"
    using length_contents w(4) by (metis item_inv_def)
  then have "prepare (buffer_size st3) ?wi1 =
      Inr (?wi1, Prep_send (get_fd socket) (concat ds) (length (concat ds)) 0, link_flag ?wi1)"
    using w s by (simp add: prepare_def Let_def item_is_stream_def get_raw_send_packet_def contents_def)
  from submit_runs[OF env(2) this, of "trace st3"] obtain tr' e where
    f: "?f ?wi (trace st3) = Inr (?wi1, tr')" "sqes tr' = sqes (trace st3) @ [e]"
    "sqe_user_data e = next_id (m_pool st)" "sqe_prep e = Prep_send (get_fd socket) (concat ds) (length (concat ds)) 0"
    using w by (auto simp: submit_stream_data_def)
  from submit_item_at_runs[of a st3 ?f, OF _ f(1)] h obtain st' where r: "submit_item_at ?f a st3 = Inr st'" by auto
  note A = submit_item_at_frame[OF p3 ring.overloads_keep(5) overloads_hand_over(5) r]
  then have "deref (m_pool st') a = ?wi1" "trace st' = tr'" using f(1) by auto
  moreover have "api_ok st st'" using api_ok_trans[OF ok submit_stream_ok[OF p3 r]] .
  moreover have "lookup (m_pool st') = (lookup (m_pool st))(next_id (m_pool st) \<mapsto> a)" using A l by simp
  moreover have "m_socket ?wi1 = socket" using w(2) by simp
  ultimately have "new_request socket SEND_STREAM_DATA (Send_cb h)
       (Prep_send (get_fd socket) (concat ds) (length (concat ds)) 0) st st'"
    unfolding new_request_def using h(1) f q next_id_not_live[OF inv(1)]
    by (intro conjI exI[of _ "next_id (m_pool st)"] exI[of _ a] exI[of _ e]) simp_all
  then show ?thesis using 1 r by blast
qed

section \<open>A client that answers\<close>

text \<open>
  Its function number 7 acquires an item, fills it, and hands it over; the others do nothing.
\<close>

definition answer :: "isocket \<Rightarrow> byte list \<Rightarrow> script" where
  "answer socket d = Call (Api_ackuire_send_workitem socket) (\<lambda>tr. let a = last_acquired tr in
     Call (Api_get_send_packet a) (\<lambda>_.
     Call (Api_append a d) (\<lambda>_.
     Call (Api_submit_stream_data a (Some 9)) (\<lambda>_. Return NONE))))"

definition answering_client :: "isocket \<Rightarrow> byte list \<Rightarrow> client" where
  "answering_client socket d f x tr = (if f = 7 then answer socket d else Return NONE)"

lemma filling_keeps:
  assumes "pool_inv (m_pool st)"
  shows "with_item a (\<lambda>i. Inr (get_send_packet i)) st = Inr st' \<Longrightarrow> pool_inv (m_pool st') \<and>
      lookup (m_pool st') = lookup (m_pool st) \<and> (\<forall>b. same_request (deref (m_pool st) b) (deref (m_pool st') b))"
    "client_append a d st = Inr st' \<Longrightarrow> pool_inv (m_pool st') \<and>
      lookup (m_pool st') = lookup (m_pool st) \<and> (\<forall>b. same_request (deref (m_pool st) b) (deref (m_pool st') b))"
proof -
  have g: "item_inv wi' \<and> same_request wi wi'" if "item_inv wi" "Inr (get_send_packet wi) = Inr wi'" for wi wi'
    using that get_send_packet_keeps by auto
  show "pool_inv (m_pool st') \<and> lookup (m_pool st') = lookup (m_pool st) \<and>
      (\<forall>b. same_request (deref (m_pool st) b) (deref (m_pool st') b))"
    if "with_item a (\<lambda>i. Inr (get_send_packet i)) st = Inr st'"
    using with_item_frame[OF assms g that] by blast
  show "pool_inv (m_pool st') \<and> lookup (m_pool st') = lookup (m_pool st) \<and>
      (\<forall>b. same_request (deref (m_pool st) b) (deref (m_pool st') b))" if "client_append a d st = Inr st'"
    using with_item_frame[OF assms append_keeps[where d = d] that[unfolded client_append_def]] by blast
qed

lemma answer_legal:
  assumes env: "env_ok env" and inv: "pool_inv (m_pool st)"
  shows "legal env (answer socket d) st"
proof -
  have "call_ok st3 (Api_submit_stream_data (last_acquired (trace st1)) (Some 9))"
    if 1: "ackuire_send_workitem env socket st = Inr (a, st1)" and
      2: "with_item (last_acquired (trace st1)) (\<lambda>i. Inr (get_send_packet i)) st1 = Inr st2" and
      3: "client_append (last_acquired (trace st1)) d st2 = Inr st3"
    for a st1 st2 st3
  proof -
    have a: "last_acquired (trace st1) = a" using 1 by (rule ackuire_trace)
    note F1 = ackuire_frame[OF env inv 1]
    then have "pool_inv (m_pool st1)" by simp
    note F2 = filling_keeps(1)[OF this 2]
    then have "pool_inv (m_pool st2)" by simp
    note F3 = filling_keeps(2)[OF this 3]
    have "m_work_type (deref (m_pool st1) a) = UNKNOWN" using F1 by (metis WorkItem_new_simps(3))
    then have "m_work_type (deref (m_pool st3) a) = UNKNOWN" using F2 F3 by (simp add: same_request_def)
    moreover have "lookup (m_pool st3) (next_id (m_pool st)) = Some a" using F1 F2 F3 by simp
    ultimately show ?thesis unfolding a using lookup_less by (auto simp: call_ok_def)
  qed
  then show ?thesis
    by (auto simp: answer_def Let_def split: sum.split) (simp_all add: call_ok_def)
qed

lemma answer_runs:
  assumes env: "env_ok env" "queue_has_room env" and inv: "pool_inv (m_pool st)" "m_initialized st"
    and s: "is_stream socket" and fits: "length d < BUF_SIZE"
  shows "\<exists>st'. run_script env (answer socket d) st = Inr (st', NONE) \<and>
     new_request socket SEND_STREAM_DATA (Send_cb (Some 9)) (Prep_send (get_fd socket) d (length d) 0) st st'"
proof -
  from sending_runs[OF env inv s, of "[d]" "Some 9"] fits obtain a st1 st2 st3 st' where
    "ackuire_send_workitem env socket st = Inr (a, st1)" "with_item a (\<lambda>i. Inr (get_send_packet i)) st1 = Inr st2"
    "client_append a d st2 = Inr st3"
    "submit_item_at (submit_stream_data (submit env (buffer_size st3)) (Some 9)) a st3 = Inr st'"
    "new_request socket SEND_STREAM_DATA (Send_cb (Some 9)) (Prep_send (get_fd socket) d (length d) 0) st st'"
    by auto
  then show ?thesis by (simp add: answer_def Let_def ackuire_trace)
qed

lemma answering_legal:
  "env_ok env \<Longrightarrow> pool_inv (m_pool st) \<Longrightarrow> legal env (answering_client socket d f x tr) st"
  by (simp add: answering_client_def answer_legal)

lemma answering_runs:
  assumes env: "env_ok env" "queue_has_room env" and inv: "pool_inv (m_pool st)" "m_initialized st"
    and s: "is_stream socket" and fits: "length d < BUF_SIZE"
  shows "\<exists>st'. invoke env (answering_client socket d) 7 x st = Inr (st', NONE) \<and>
     new_request socket SEND_STREAM_DATA (Send_cb (Some 9)) (Prep_send (get_fd socket) d (length d) 0)
       (log_ev (Ev_callback 7 x) st) st'"
proof -
  have "pool_inv (m_pool (log_ev (Ev_callback 7 x) st))" "m_initialized (log_ev (Ev_callback 7 x) st)"
    using inv by (simp_all add: log_ev_def)
  from answer_runs[OF env this s fits] show ?thesis by (simp add: invoke_def answering_client_def)
qed

end
