(* ===== verification/Completion.thy ===== *)
theory Completion
  imports Interface
begin

text \<open>
  Completions: \<^verbatim>\<open>IOUring::poll_completion_queues\<close> and everything below it in
  \<^verbatim>\<open>src/IOUring.cpp\<close>.  A completion may run a function of the client, which may use the
  whole interface again; the effect of the client's functions on the state is the
  argument \<open>cbs\<close>.
\<close>

section \<open>The callbacks of a completion\<close>

definition call_close_callback :: "uring invoker \<Rightarrow> nat \<Rightarrow> cqe \<Rightarrow> uring \<Rightarrow> uring res" where
  "call_close_callback cbs work_item cqe st =
     bindE (item_call_close_callback cbs (deref (m_pool st) work_item) (cqe_res cqe) st)
       (\<lambda>(st, _). Inr st)"

definition call_send_callback :: "uring invoker \<Rightarrow> nat \<Rightarrow> cqe \<Rightarrow> uring \<Rightarrow> uring res" where
  "call_send_callback cbs work_item cqe st =
     (if cqe_res cqe < 0 then Inr st
      else bindE (item_call_send_callback cbs (update_item work_item)
                    (deref (m_pool st) work_item) (cqe_res cqe) st)
             (\<lambda>(st, _). Inr st))"

definition call_connect_callback :: "uring invoker \<Rightarrow> nat \<Rightarrow> cqe \<Rightarrow> uring \<Rightarrow> uring res" where
  "call_connect_callback cbs work_item cqe st =
     (if cqe_res cqe < 0 then Inr st
      else
        (let wi = deref (m_pool st) work_item;
             status = cqe_res cqe;
             sa = sockaddr_in_of_bytes (m_buffer_for_uring wi);
             addr = (if sin_family sa = AF_INET then IPAddress_of_sockaddr_in sa
                     else if sin_family sa = AF_INET6
                     then IPAddress_of_sockaddr_in6 (sockaddr_in6_of_bytes (m_buffer_for_uring wi))
                     else IPAddress_default)
         in bindE (item_call_connect_callback cbs wi status addr st)
              (\<lambda>(st, _). Inr st)))"

text \<open>
  The kernel fills in the peer's address and its length through the pointers of the
  request; with the completion these writes are visible.
\<close>

definition accept_written :: "env \<Rightarrow> nat \<Rightarrow> uring \<Rightarrow> uring" where
  "accept_written env work_item st =
     (let (bytes, len) = e_accept_memory env (trace st)
      in update_item work_item (\<lambda>wi. wi\<lparr>
           m_buffer_for_uring :=
             memcpy_at 0 (take sizeof_sockaddr_storage bytes) (m_buffer_for_uring wi),
           m_accept_sock_len := len\<rparr>) st)"

definition call_accept_callback :: "uring invoker \<Rightarrow> nat \<Rightarrow> cqe \<Rightarrow> uring \<Rightarrow> uring res" where
  "call_accept_callback cbs work_item cqe st =
     (if cqe_res cqe < 0 then Inr st
      else
        (let wi = deref (m_pool st) work_item;
             fd = cqe_res cqe
         in bindE (IPAddress_of_storage (m_buffer_for_uring wi) (m_accept_sock_len wi)) (\<lambda>addr.
            bindE (item_call_accept_callback cbs wi fd addr st) (\<lambda>(st, _). Inr st))))"

definition call_recv_handler_stream ::
  "uring invoker \<Rightarrow> nat \<Rightarrow> nat \<Rightarrow> cqe \<Rightarrow> uring \<Rightarrow> (uring \<times> ReceivePostAction) res" where
  "call_recv_handler_stream cbs buffer work_item cqe st =
     (let source_addr = IPAddress_default;
          payload_length = cqe_res cqe;
          payload = \<lparr>rm_data = buffer, rm_size = nat payload_length, rm_source_address = source_addr\<rparr>
      in item_call_recv_callback cbs (deref (m_pool st) work_item) payload st)"

definition call_recv_handler_datagram ::
  "env \<Rightarrow> uring invoker \<Rightarrow> nat \<Rightarrow> nat \<Rightarrow> cqe \<Rightarrow> uring \<Rightarrow> (uring \<times> ReceivePostAction) res" where
  "call_recv_handler_datagram env cbs buffer work_item cqe st =
     (let wi = deref (m_pool st) work_item; tr = trace st in
      if cqe_flags cqe AND IORING_CQE_F_BUFFER = 0 then Inl Aborted
      else case e_recvmsg_validate env tr buffer (cqe_res cqe) (m_msg wi) of
        None \<Rightarrow> Inr (st, RE_SUBMIT)
      | Some recv_msg_out \<Rightarrow>
          if ro_namelen recv_msg_out > sizeof_sockaddr_storage then Inr (st, RE_SUBMIT)
          else if ro_flags recv_msg_out AND MSG_TRUNC \<noteq> 0 then Inr (st, RE_SUBMIT)
          else
            bindE (if ro_namelen recv_msg_out = 0 \<or> ro_namelen recv_msg_out = sizeof_sockaddr_in
                   then Inr (IPAddress_of_sockaddr_in (sockaddr_in_of_bytes (e_recvmsg_name env tr buffer)))
                   else if ro_namelen recv_msg_out = sizeof_sockaddr_in6
                   then Inr (IPAddress_of_sockaddr_in6 (sockaddr_in6_of_bytes (e_recvmsg_name env tr buffer)))
                   else Inl Aborted) (\<lambda>source_addr.
            let payload_length = e_recvmsg_payload_length env tr buffer (cqe_res cqe) (m_msg wi);
                ptr = e_recvmsg_payload env tr buffer (m_msg wi)
            in bindE (assertE (ptr \<noteq> 0)) (\<lambda>_.
                 item_call_recv_callback cbs wi
                   \<lparr>rm_data = ptr, rm_size = payload_length, rm_source_address = source_addr\<rparr> st)))"

text \<open>
  \<^verbatim>\<open>call_recv_callback\<close>: of the failures only the value \<^verbatim>\<open>EAI_INTR\<close> is survived.
\<close>

definition call_recv_callback ::
  "env \<Rightarrow> uring invoker \<Rightarrow> nat \<Rightarrow> cqe \<Rightarrow> uring \<Rightarrow> (uring \<times> ReceivePostAction) res" where
  "call_recv_callback env cbs work_item cqe st =
     (if cqe_res cqe < 0
      then (if cqe_res cqe = - EFAULT then Inl Aborted
            else if cqe_res cqe = - EINVAL then Inl Aborted
            else if cqe_res cqe = EAI_INTR then Inr (st, RE_SUBMIT)
            else Inl Aborted)
      else
        (let idx = unat (drop_bit 16 (cqe_flags cqe));
             buffer = get_buffer st idx
         in bindE (if item_is_stream (deref (m_pool st) work_item)
                   then call_recv_handler_stream cbs buffer work_item cqe st
                   else call_recv_handler_datagram env cbs buffer work_item cqe st)
              (\<lambda>(st, ret). Inr (recycle_buffer idx st, ret))))"

section \<open>One completion\<close>

definition release :: "nat \<Rightarrow> uring \<Rightarrow> uring res" where
  "release wid st = bindE (free_work_item (m_pool st) wid) (\<lambda>p. Inr (st\<lparr>m_pool := p\<rparr>))"

definition call_callback_and_free_work_item_id :: "env \<Rightarrow> uring invoker \<Rightarrow> cqe \<Rightarrow> uring \<Rightarrow> uring res" where
  "call_callback_and_free_work_item_id env cbs cqe st =
     (let wid = cqe_user_data cqe in
      bindE (get_work_item (m_pool st) wid) (\<lambda>r.
      case r of
        None \<Rightarrow> Inr st
      | Some work_item \<Rightarrow>
          if cqe_res cqe = - ENOBUFS then Inr st
          else
            (case m_work_type (deref (m_pool st) work_item) of
               ACCEPT \<Rightarrow>
                 bindE (call_accept_callback cbs work_item cqe (accept_written env work_item st)) (\<lambda>st.
                   submit_item_at (submit env (buffer_size st)) work_item st)
             | CLOSE \<Rightarrow> bindE (call_close_callback cbs work_item cqe st) (release wid)
             | RECV \<Rightarrow>
                 bindE (call_recv_callback env cbs work_item cqe st) (\<lambda>(st, ret).
                   case ret of
                     NONE \<Rightarrow> release wid st
                   | RE_SUBMIT \<Rightarrow> submit_item_at (submit env (buffer_size st)) work_item st)
             | CONNECT \<Rightarrow> bindE (call_connect_callback cbs work_item cqe st) (release wid)
             | SEND_STREAM_DATA \<Rightarrow> bindE (call_send_callback cbs work_item cqe st) (release wid)
             | SEND_WORKPACKET \<Rightarrow> bindE (call_send_callback cbs work_item cqe st) (release wid)
             | UNKNOWN \<Rightarrow> Inl Assertion_failed)))"

text \<open>
  One completion at most is handled per call; the entry is given back after that.  A call
  that finds none leaves an event, so that the kernel may answer differently the next time.
\<close>

definition poll_completion_queues :: "env \<Rightarrow> uring invoker \<Rightarrow> uring \<Rightarrow> (uring \<times> error_code) res" where
  "poll_completion_queues env cbs st =
     (let (success, cqe) = e_peek_cqe env (trace st) in
      if success = 0
      then bindE (call_callback_and_free_work_item_id env cbs cqe (log_ev (Ev_cqe cqe) st)) (\<lambda>st.
             Inr (log_ev (Ev_cq_advance 1) st, OK))
      else if success = - EAGAIN then Inr (log_ev Ev_no_cqe st, OK)
      else Inl Aborted)"

section \<open>The shape of a completion\<close>

text \<open>
  Whatever the type of the work, a completion writes into the item (accept only), runs at
  most one function of the client, tidies up (empties the packet of a send, gives the
  buffer of a receive back), and at last releases the item or submits it again.
\<close>

definition pre_step :: "nat \<Rightarrow> uring \<Rightarrow> uring \<Rightarrow> bool" where
  "pre_step a st st' \<longleftrightarrow> st' = st \<or> (\<exists>bytes len. st' = update_item a (\<lambda>wi. wi\<lparr>
     m_buffer_for_uring := memcpy_at 0 (take sizeof_sockaddr_storage bytes) (m_buffer_for_uring wi),
     m_accept_sock_len := len\<rparr>) st)"

definition post_step :: "nat \<Rightarrow> uring \<Rightarrow> uring \<Rightarrow> bool" where
  "post_step a st st' \<longleftrightarrow> st' = st \<or> st' = update_item a clean_send_packet st \<or>
     (\<exists>idx. st' = recycle_buffer idx st)"

definition runs_at_most_one :: "uring invoker \<Rightarrow> uring \<Rightarrow> uring \<Rightarrow> bool" where
  "runs_at_most_one cbs st st' \<longleftrightarrow> st' = st \<or> (\<exists>f x act. cbs f x st = Inr (st', act))"

definition finishes :: "env \<Rightarrow> nat \<Rightarrow> nat \<Rightarrow> uring \<Rightarrow> uring \<Rightarrow> bool" where
  "finishes env wid a st st' \<longleftrightarrow>
     release wid st = Inr st' \<or> submit_item_at (submit env (buffer_size st)) a st = Inr st'"

lemma call_func_runs: "call_func cbs g x st = Inr (st', act) \<Longrightarrow> \<exists>f. g = Some f \<and> cbs f x st = Inr (st', act)"
  by (simp add: call_func_def split: option.splits)

lemma item_calls_run:
  "item_call_close_callback cbs wi r st = Inr (st', act) \<Longrightarrow>
     \<exists>f. m_callback wi = Close_cb (Some f) \<and> cbs f (CloseResult r) st = Inr (st', act)"
  "item_call_recv_callback cbs wi m st = Inr (st', act) \<Longrightarrow>
     \<exists>f. m_callback wi = Recv_cb (Some f) \<and> cbs f (Received m) st = Inr (st', act)"
  "item_call_accept_callback cbs wi fd ad st = Inr (st', act) \<Longrightarrow>
     \<exists>f. m_callback wi = Accept_cb (Some f) \<and> cbs f (AcceptResult fd ad) st = Inr (st', act)"
  "item_call_connect_callback cbs wi r ad st = Inr (st', act) \<Longrightarrow>
     \<exists>f. m_callback wi = Connect_cb (Some f) \<and> cbs f (ConnectResult r ad) st = Inr (st', act)"
  "item_call_send_callback cbs this wi r st = Inr (st', act) \<Longrightarrow>
     \<exists>f st1. m_callback wi = Send_cb (Some f) \<and> cbs f (SendResult r) st = Inr (st1, act) \<and>
       st' = this clean_send_packet st1"
  by (auto simp: item_call_defs split: callback.splits dest!: call_func_runs)

lemma call_recv_callback_shape:
  assumes "call_recv_callback env cbs a c st = Inr (st', act)"
  shows "\<exists>st1. runs_at_most_one cbs st st1 \<and> post_step a st1 st'"
proof (cases "cqe_res c < 0")
  case True
  with assms show ?thesis
    by (auto simp: call_recv_callback_def runs_at_most_one_def post_step_def split: if_splits)
next
  case False
  with assms obtain st1 buf where "st' = recycle_buffer (unat (drop_bit 16 (cqe_flags c))) st1" and
    "call_recv_handler_stream cbs buf a c st = Inr (st1, act) \<or>
     call_recv_handler_datagram env cbs buf a c st = Inr (st1, act)"
    by (auto simp: call_recv_callback_def Let_def split: if_splits)
  moreover have "runs_at_most_one cbs st st1" if "call_recv_handler_stream cbs buf a c st = Inr (st1, act)"
    using that by (auto simp: call_recv_handler_stream_def Let_def runs_at_most_one_def dest!: item_calls_run)
  moreover have "runs_at_most_one cbs st st1" if "call_recv_handler_datagram env cbs buf a c st = Inr (st1, act)"
    using that by (auto simp: call_recv_handler_datagram_def Let_def runs_at_most_one_def
        split: if_splits option.splits dest!: item_calls_run)
  ultimately show ?thesis unfolding post_step_def by blast
qed

lemma call_send_callback_shape:
  assumes "call_send_callback cbs a c st = Inr st'"
  shows "\<exists>st1. runs_at_most_one cbs st st1 \<and> post_step a st1 st' \<and> trace st' = trace st1"
proof (cases "cqe_res c < 0")
  case True
  with assms show ?thesis by (auto simp: call_send_callback_def runs_at_most_one_def post_step_def)
next
  case False
  with assms obtain act where "item_call_send_callback cbs (update_item a) (deref (m_pool st) a)
      (cqe_res c) st = Inr (st', act)"
    by (auto simp: call_send_callback_def)
  from item_calls_run(5)[OF this] obtain f st1 where "cbs f (SendResult (cqe_res c)) st = Inr (st1, act)"
    and st': "st' = update_item a clean_send_packet st1" by blast
  moreover have "trace st' = trace st1" by (simp add: st' update_item_def)
  ultimately show ?thesis unfolding runs_at_most_one_def post_step_def by blast
qed

lemma completion_shape:
  assumes inv: "pool_inv (m_pool st)" and l: "lookup (m_pool st) (cqe_user_data c) = Some a"
    and nb: "cqe_res c \<noteq> - ENOBUFS"
    and run: "call_callback_and_free_work_item_id env cbs c st = Inr st'"
  shows "\<exists>st0 st1 st2. pre_step a st st0 \<and> runs_at_most_one cbs st0 st1 \<and> post_step a st1 st2 \<and>
     (m_work_type (deref (m_pool st) a) \<noteq> RECV \<longrightarrow> trace st2 = trace st1) \<and>
     finishes env (cqe_user_data c) a st2 st'"
proof -
  have g: "get_work_item (m_pool st) (cqe_user_data c) = Inr (Some a)"
    using get_work_item_eq[OF inv] l lookup_less[OF l] by simp
  have pre: "pre_step a st st" "pre_step a st (accept_written env a st)"
    by (auto simp: pre_step_def accept_written_def split_beta)
  have none: "runs_at_most_one cbs s s" "post_step a s s" for s
    by (simp_all add: runs_at_most_one_def post_step_def)
  show ?thesis
  proof (cases "m_work_type (deref (m_pool st) a)")
    case ACCEPT
    with run g nb obtain st2 where 1: "call_accept_callback cbs a c (accept_written env a st) = Inr st2"
      and 2: "submit_item_at (submit env (buffer_size st2)) a st2 = Inr st'"
      by (auto simp: call_callback_and_free_work_item_id_def)
    from 1 have "runs_at_most_one cbs (accept_written env a st) st2"
      by (auto simp: call_accept_callback_def Let_def runs_at_most_one_def split: if_splits
          dest!: item_calls_run)
    with 2 pre none show ?thesis unfolding finishes_def by blast
  next
    case RECV
    with run g nb obtain st2 act where 1: "call_recv_callback env cbs a c st = Inr (st2, act)"
      and 2: "(case act of NONE \<Rightarrow> release (cqe_user_data c) st2
               | RE_SUBMIT \<Rightarrow> submit_item_at (submit env (buffer_size st2)) a st2) = Inr st'"
      by (auto simp: call_callback_and_free_work_item_id_def)
    from 2 have "finishes env (cqe_user_data c) a st2 st'" by (cases act) (simp_all add: finishes_def)
    with call_recv_callback_shape[OF 1] pre RECV show ?thesis by blast
  next
    case CLOSE
    with run g nb obtain st2 where 1: "call_close_callback cbs a c st = Inr st2"
      and 2: "release (cqe_user_data c) st2 = Inr st'"
      by (auto simp: call_callback_and_free_work_item_id_def)
    from 1 have "runs_at_most_one cbs st st2"
      by (auto simp: call_close_callback_def runs_at_most_one_def dest!: item_calls_run)
    with 2 pre none show ?thesis unfolding finishes_def by blast
  next
    case CONNECT
    with run g nb obtain st2 where 1: "call_connect_callback cbs a c st = Inr st2"
      and 2: "release (cqe_user_data c) st2 = Inr st'"
      by (auto simp: call_callback_and_free_work_item_id_def)
    from 1 have "runs_at_most_one cbs st st2"
      by (auto simp: call_connect_callback_def Let_def runs_at_most_one_def split: if_splits
          dest!: item_calls_run)
    with 2 pre none show ?thesis unfolding finishes_def by blast
  next
    case UNKNOWN
    with run g nb show ?thesis by (simp add: call_callback_and_free_work_item_id_def)
  next
    case SEND_STREAM_DATA
    with run g nb obtain st2 where 1: "call_send_callback cbs a c st = Inr st2"
      and 2: "release (cqe_user_data c) st2 = Inr st'"
      by (auto simp: call_callback_and_free_work_item_id_def)
    with call_send_callback_shape[OF 1] pre show ?thesis unfolding finishes_def by blast
  next
    case SEND_WORKPACKET
    with run g nb obtain st2 where 1: "call_send_callback cbs a c st = Inr st2"
      and 2: "release (cqe_user_data c) st2 = Inr st'"
      by (auto simp: call_callback_and_free_work_item_id_def)
    with call_send_callback_shape[OF 1] pre show ?thesis unfolding finishes_def by blast
  qed
qed

section \<open>What a completion keeps\<close>

text \<open>
  As \<open>api_frame\<close>, but the buffer ring may be written: only pool and trace change, no
  completion is taken, no item leaves the table.
\<close>

definition run_frame :: "uring \<Rightarrow> uring \<Rightarrow> bool" where
  "run_frame st st' \<longleftrightarrow> st' = st\<lparr>m_pool := m_pool st', trace := trace st'\<rparr> \<and>
     (\<exists>ext. trace st' = trace st @ ext \<and> cqes ext = []) \<and> pool_grows (m_pool st) (m_pool st')"

lemma run_frame_refl [simp]: "run_frame st st"
  by (simp add: run_frame_def)

lemma run_frame_trans:
  assumes "run_frame st st1" and "run_frame st1 st2"
  shows "run_frame st st2"
proof -
  from assms have "st2 = st\<lparr>m_pool := m_pool st2, trace := trace st2\<rparr>"
    unfolding run_frame_def by (cases st, cases st1, cases st2) auto
  moreover from assms have "\<exists>ext. trace st2 = trace st @ ext \<and> cqes ext = []"
    unfolding run_frame_def by fastforce
  ultimately show ?thesis
    using assms unfolding run_frame_def by (blast intro: pool_grows_trans)
qed

lemma api_frame_run: "api_frame st st' \<Longrightarrow> run_frame st st'"
  unfolding api_frame_def run_frame_def trace_grows_def by blast

lemma update_item_ok:
  assumes inv: "pool_inv (m_pool st)" and keeps: "\<And>wi. item_inv wi \<Longrightarrow> item_inv (f wi)"
    and same: "\<And>wi. same_request wi (f wi)" and a: "a < length (heap (m_pool st))"
  shows "pool_inv (m_pool (update_item a f st)) \<and> run_frame st (update_item a f st) \<and>
     starts_none st (update_item a f st)"
proof -
  let ?p = "store a (f (deref (m_pool st) a)) (m_pool st)"
  have s: "same_request (deref (m_pool st) b) (deref ?p b)" for b
    using same a by (cases "b = a") simp_all
  have "pool_inv ?p"
    using same[of "deref (m_pool st) a"] keeps pool_inv_item[OF inv a]
    by (intro store_inv[OF inv]) (simp_all add: same_request_def)
  moreover have "pool_grows (m_pool st) ?p"
    using s by (simp add: pool_grows_def same_request_def)
  moreover have "request_of (update_item a f st) i = request_of st i" for i
    using s by (simp add: request_of_def update_item_def same_request_def split: option.split)
  ultimately show ?thesis by (simp add: update_item_def run_frame_def starts_none_def fun_eq_iff)
qed

lemma pre_step_ok:
  assumes inv: "pool_inv (m_pool st)" and a: "a < length (heap (m_pool st))" and s: "pre_step a st st'"
  shows "pool_inv (m_pool st') \<and> run_frame st st' \<and> starts st st'"
proof -
  have "pool_inv (m_pool st') \<and> run_frame st st' \<and> starts_none st st'"
    using s unfolding pre_step_def
  proof (elim disjE exE)
    assume "st' = st"
    then show ?thesis using inv by (simp add: starts_none_def)
  next
    fix bytes len
    assume st': "st' = update_item a (\<lambda>wi. wi\<lparr>
      m_buffer_for_uring := memcpy_at 0 (take sizeof_sockaddr_storage bytes) (m_buffer_for_uring wi),
      m_accept_sock_len := len\<rparr>) st"
    show ?thesis
      unfolding st' by (rule update_item_ok[OF inv _ _ a]) (auto simp: item_inv_def same_request_def)
  qed
  then show ?thesis by (blast intro: starts_none_starts)
qed

lemma post_step_ok:
  assumes inv: "pool_inv (m_pool st)" and a: "a < length (heap (m_pool st))" and s: "post_step a st st'"
  shows "pool_inv (m_pool st') \<and> run_frame st st' \<and> starts st st'"
proof -
  have "pool_inv (m_pool st') \<and> run_frame st st' \<and> starts_none st st'"
    using s unfolding post_step_def
  proof (elim disjE exE)
    assume "st' = st"
    then show ?thesis using inv by (simp add: starts_none_def)
  next
    assume st': "st' = update_item a clean_send_packet st"
    have c: "clean_send_packet = get_send_packet"
      by (simp add: fun_eq_iff clean_send_packet_def get_send_packet_def)
    show ?thesis
      unfolding st' c
      by (rule update_item_ok[OF inv _ _ a])
        (simp add: item_inv_get_send_packet, simp add: get_send_packet_def same_request_def)
  next
    fix idx assume st': "st' = recycle_buffer idx st"
    have "recycle_buffer idx st = st\<lparr>m_pool := m_pool (recycle_buffer idx st),
        trace := trace (recycle_buffer idx st)\<rparr>"
      by (simp add: recycle_buffer_def log_ev_def)
    then have "run_frame st (recycle_buffer idx st)"
      unfolding run_frame_def by (intro conjI) simp_all
    moreover have "request_of (recycle_buffer idx st) = request_of st"
      by (rule request_of_cong) simp
    ultimately show ?thesis using inv by (simp add: st' starts_none_def)
  qed
  then show ?thesis by (blast intro: starts_none_starts)
qed

lemma release_frame:
  assumes inv: "pool_inv (m_pool st)" and l: "lookup (m_pool st) wid = Some a" and r: "release wid st = Inr st'"
  shows "pool_inv (m_pool st') \<and> trace st' = trace st \<and> st' = st\<lparr>m_pool := m_pool st'\<rparr> \<and>
     lookup (m_pool st') = (lookup (m_pool st))(wid := None) \<and>
     request_of st' = (request_of st)(wid := None) \<and> is_free (deref (m_pool st') a)"
proof -
  from r obtain p where f: "free_work_item (m_pool st) wid = Inr p" and st': "st' = st\<lparr>m_pool := p\<rparr>"
    by (auto simp: release_def)
  have p: "p = (m_pool st)\<lparr>heap := (heap (m_pool st))[a := (deref (m_pool st) a)\<lparr>m_state := FREE\<rparr>],
      m_work_items := (m_work_items (m_pool st))[wid := None], m_free_ids := wid # m_free_ids (m_pool st)\<rparr>"
    using f free_work_item_eq[OF inv l] by simp
  note lk = lookup_free[OF inv l f]
  have "request_of st' i = request_of st i" if "i \<noteq> wid" for i
  proof (cases "lookup (m_pool st) i")
    case None
    then show ?thesis using lk that by (simp add: request_of_def st')
  next
    case (Some b)
    then have "b \<noteq> a" using lookup_inj[OF inv l, of i] that by blast
    then have "deref p b = deref (m_pool st) b" by (simp add: p deref_def)
    with Some that show ?thesis using lk by (simp add: request_of_def st')
  qed
  then have "request_of st' = (request_of st)(wid := None)"
    using lk by (auto simp: fun_eq_iff) (simp add: request_of_def st')
  moreover have "is_free (deref p a)" using pool_invD(1)[OF inv l] by (simp add: p deref_def is_free_def)
  ultimately show ?thesis
    using free_work_item_inv[OF inv l f] lk by (simp add: st')
qed

text \<open>A live item can be released: its state cannot have changed under its client's function.\<close>

lemma release_succeeds:
  "pool_inv (m_pool st) \<Longrightarrow> lookup (m_pool st) wid = Some a \<Longrightarrow> \<exists>st'. release wid st = Inr st'"
  using free_work_item_eq by (simp add: release_def)

lemma resubmit_frame:
  assumes inv: "pool_inv (m_pool st)" and l: "lookup (m_pool st) wid = Some a"
    and r: "submit_item_at (submit env (buffer_size st)) a st = Inr st'"
  shows "pool_inv (m_pool st') \<and> run_frame st st' \<and> request_of st' = request_of st \<and>
     lookup (m_pool st') = lookup (m_pool st) \<and>
     (\<exists>p fl. prepare (buffer_size st) (deref (m_pool st) a) = Inr (deref (m_pool st') a, p, fl) \<and>
        sqes (trace st') = sqes (trace st) @
          [\<lparr>sqe_user_data = wid, sqe_prep = p, sqe_flags = fl, sqe_buf_group = 0\<rparr>]) \<and>
     callbacks (trace st') = callbacks (trace st)"
proof -
  note A = submit_item_at_frame[OF inv ring.overloads_keep(1) overloads_hand_over(1) r]
  have i: "item_inv (deref (m_pool st) a)" using pool_inv_item[OF inv] A by blast
  have s: "submit env (buffer_size st) (deref (m_pool st) a) (trace st) = Inr (deref (m_pool st') a, trace st')"
    using A by blast
  from submit_projections[OF s] pool_invD(2)[OF inv l] obtain p fl where
    pr: "prepare (buffer_size st) (deref (m_pool st) a) = Inr (deref (m_pool st') a, p, fl)" and
    sq: "sqes (trace st') = sqes (trace st) @
          [\<lparr>sqe_user_data = wid, sqe_prep = p, sqe_flags = fl, sqe_buf_group = 0\<rparr>]"
    by blast
  have same: "same_request (deref (m_pool st) b) (deref (m_pool st') b)" for b
    using A prepare_keeps[OF i pr] by (cases "b = a") simp_all
  have "request_of st' j = request_of st j" for j
    using A same by (simp add: request_of_def same_request_def split: option.split)
  with A pr sq show ?thesis using api_frame_run by (simp add: fun_eq_iff)
qed

section \<open>Everything before the last step\<close>

context client_runner
begin

lemma runs_ok:
  assumes "env_ok env" and "pool_inv (m_pool st)" and "runs_at_most_one cbs st st'"
  shows "pool_inv (m_pool st') \<and> run_frame st st'"
  using assms callback_ok api_frame_run unfolding runs_at_most_one_def by (metis run_frame_refl)

lemma before_last_ok:
  assumes env: "env_ok env" and inv: "pool_inv (m_pool st)" and a: "a < length (heap (m_pool st))"
    and "pre_step a st st0" and "runs_at_most_one cbs st0 st1" and "post_step a st1 st2"
  shows "pool_inv (m_pool st2) \<and> run_frame st st2"
proof -
  have 0: "pool_inv (m_pool st0) \<and> run_frame st st0" using pre_step_ok[OF inv a assms(4)] by blast
  then have 1: "pool_inv (m_pool st1) \<and> run_frame st0 st1" using runs_ok[OF env _ assms(5)] by blast
  have "a < length (heap (m_pool st1))"
    using a 0 1 by (auto simp: run_frame_def pool_grows_def)
  with 1 post_step_ok[OF _ _ assms(6)] have "pool_inv (m_pool st2) \<and> run_frame st1 st2" by blast
  with 0 1 show ?thesis by (blast intro: run_frame_trans)
qed

text \<open>The invariant of the pool is kept by every completion, whatever the kernel reports.\<close>

lemma completion_inv:
  assumes env: "env_ok env" and inv: "pool_inv (m_pool st)"
    and run: "call_callback_and_free_work_item_id env cbs c st = Inr st'"
  shows "pool_inv (m_pool st') \<and> st' = st\<lparr>m_pool := m_pool st', trace := trace st'\<rparr> \<and>
     (\<exists>ext. trace st' = trace st @ ext \<and> cqes ext = [])"
proof (cases "lookup (m_pool st) (cqe_user_data c)")
  case None
  with run get_work_item_eq[OF inv, of "cqe_user_data c"] show ?thesis
    using inv by (auto simp: call_callback_and_free_work_item_id_def split: if_splits)
next
  case (Some a)
  note a = pool_invD(1)[OF inv Some]
  show ?thesis
  proof (cases "cqe_res c = - ENOBUFS")
    case True
    with run Some inv get_work_item_eq[OF inv, of "cqe_user_data c"] lookup_less[OF Some] show ?thesis
      by (simp add: call_callback_and_free_work_item_id_def)
  next
    case False
    from completion_shape[OF inv Some False run] obtain st0 st1 st2 where
      s: "pre_step a st st0" "runs_at_most_one cbs st0 st1" "post_step a st1 st2" and
      f: "finishes env (cqe_user_data c) a st2 st'"
      by blast
    have B: "pool_inv (m_pool st2)" "run_frame st st2" using before_last_ok[OF env inv a s] by simp_all
    then have l: "lookup (m_pool st2) (cqe_user_data c) = Some a"
      using Some by (simp add: run_frame_def pool_grows_def)
    have "pool_inv (m_pool st') \<and> st' = st2\<lparr>m_pool := m_pool st', trace := trace st'\<rparr> \<and>
        (\<exists>ext. trace st' = trace st2 @ ext \<and> cqes ext = [])"
      using f unfolding finishes_def
    proof
      assume "release (cqe_user_data c) st2 = Inr st'"
      from release_frame[OF B(1) l this] show ?thesis by simp
    next
      assume "submit_item_at (submit env (buffer_size st2)) a st2 = Inr st'"
      from resubmit_frame[OF B(1) l this] show ?thesis by (auto simp: run_frame_def)
    qed
    with B(2) show ?thesis unfolding run_frame_def
      by (cases st, cases st2, cases st') auto
  qed
qed

lemma poll_inv:
  assumes env: "env_ok env" and inv: "pool_inv (m_pool st)"
    and run: "poll_completion_queues env cbs st = Inr (st', err)"
  shows "err = OK \<and> pool_inv (m_pool st') \<and> st' = st\<lparr>m_pool := m_pool st', trace := trace st'\<rparr> \<and>
     (\<exists>ext. trace st' = trace st @ ext)"
proof (cases "fst (e_peek_cqe env (trace st)) = 0")
  case True
  let ?c = "snd (e_peek_cqe env (trace st))"
  from True run obtain st1 where
    1: "call_callback_and_free_work_item_id env cbs ?c (log_ev (Ev_cqe ?c) st) = Inr st1"
    and st': "st' = log_ev (Ev_cq_advance 1) st1" "err = OK"
    by (auto simp: poll_completion_queues_def split_beta)
  have "pool_inv (m_pool (log_ev (Ev_cqe ?c) st))" using inv by simp
  from completion_inv[OF env this 1] show ?thesis
    unfolding st' by (cases st, cases st1) (auto simp: log_ev_def)
next
  case False
  with run inv show ?thesis
    by (auto simp: poll_completion_queues_def split_beta split: if_splits)
qed

end

context careful_runner
begin

lemma before_last_starts:
  assumes env: "env_ok env" and inv: "pool_inv (m_pool st)" and a: "a < length (heap (m_pool st))"
    and "pre_step a st st0" and "runs_at_most_one cbs st0 st1" and "post_step a st1 st2"
  shows "starts st st2"
proof -
  have 0: "pool_inv (m_pool st0) \<and> run_frame st st0" "starts st st0"
    using pre_step_ok[OF inv a assms(4)] by blast+
  then have 1: "pool_inv (m_pool st1) \<and> run_frame st0 st1" "starts st0 st1"
    using runs_ok[OF env _ assms(5)] callback_starts[OF env] assms(5) unfolding runs_at_most_one_def
    by (blast, metis starts_none_starts starts_none_def)
  have "a < length (heap (m_pool st1))"
    using a 0 1 by (auto simp: run_frame_def pool_grows_def)
  with 1 post_step_ok[OF _ _ assms(6)] have "starts st1 st2" by blast
  with 0 1 show ?thesis by (blast intro: starts_trans)
qed

end

section \<open>Careful clients\<close>

text \<open>
  The client is careful in a state if the check of \<open>checked\<close> makes no difference to the next
  poll: should it run a function of the client, then this function hands over only items
  that are in the table and have not been handed over before.
\<close>

definition careful_in :: "env \<Rightarrow> client \<Rightarrow> uring \<Rightarrow> bool" where
  "careful_in env client st \<longleftrightarrow>
     poll_completion_queues env (checked env client) st = poll_completion_queues env (invoke env client) st"

lemma item_calls_cong:
  assumes "\<And>f x. cbs f x st = cbs' f x st"
  shows "item_call_close_callback cbs wi r st = item_call_close_callback cbs' wi r st"
    "item_call_recv_callback cbs wi m st = item_call_recv_callback cbs' wi m st"
    "item_call_accept_callback cbs wi fd ad st = item_call_accept_callback cbs' wi fd ad st"
    "item_call_connect_callback cbs wi r ad st = item_call_connect_callback cbs' wi r ad st"
    "item_call_send_callback cbs this wi r st = item_call_send_callback cbs' this wi r st"
  using assms by (simp_all add: item_call_defs call_func_def split: callback.split option.split)

lemma poll_cong:
  assumes inv: "pool_inv (m_pool st)" and agree: "\<And>f x s. pool_inv (m_pool s) \<Longrightarrow> cbs f x s = cbs' f x s"
  shows "poll_completion_queues env cbs st = poll_completion_queues env cbs' st"
proof -
  have same: "call_callback_and_free_work_item_id env cbs c s = call_callback_and_free_work_item_id env cbs' c s"
    if p: "pool_inv (m_pool s)" for c s
  proof (cases "lookup (m_pool s) (cqe_user_data c)")
    case None
    then show ?thesis using get_work_item_eq[OF p, of "cqe_user_data c"]
      by (auto simp: call_callback_and_free_work_item_id_def Let_def)
  next
    case (Some a)
    then have g: "get_work_item (m_pool s) (cqe_user_data c) = Inr (Some a)"
      using get_work_item_eq[OF p] lookup_less[OF Some] by simp
    have "pre_step a s (accept_written env a s)" by (auto simp: pre_step_def accept_written_def split_beta)
    then have "pool_inv (m_pool (accept_written env a s))" using pre_step_ok[OF p pool_invD(1)[OF p Some]] by blast
    note eqs = item_calls_cong[of cbs _ cbs', OF agree[OF p]] item_calls_cong[of cbs _ cbs', OF agree[OF this]]
    show ?thesis
      by (simp add: call_callback_and_free_work_item_id_def g eqs call_close_callback_def call_send_callback_def
          call_connect_callback_def call_accept_callback_def call_recv_callback_def
          call_recv_handler_stream_def call_recv_handler_datagram_def Let_def
          cong: work_type.case_cong option.case_cong if_cong)
  qed
  have "pool_inv (m_pool (log_ev (Ev_cqe c) st))" for c using inv by simp
  from same[OF this] show ?thesis by (simp add: poll_completion_queues_def split_beta)
qed

lemma careful_in_legal:
  assumes "pool_inv (m_pool st)"
    and "\<And>f x s. pool_inv (m_pool s) \<Longrightarrow> legal env (client f x (trace s @ [Ev_callback f x])) (log_ev (Ev_callback f x) s)"
  shows "careful_in env client st"
  unfolding careful_in_def by (rule poll_cong[OF assms(1)]) (simp add: checked_def assms(2))

lemma idle_careful: "careful_in env idle_client st"
  by (simp add: careful_in_def)

end
