(* ===== verification/Dispatch.thy ===== *)
theory Dispatch
  imports Completion
begin

text \<open>
  What \<^verbatim>\<open>poll_completion_queues\<close> does with the completion of each type of work: which
  function of the client it runs and with what argument, what becomes of the item and of
  the buffer, and in which order.  The functions of the client are those of any \<open>client\<close>.
\<close>

section \<open>From the poll to the item\<close>

lemma poll_completion:
  assumes "e_peek_cqe env (trace st) = (0, c)"
  shows "poll_completion_queues env cbs st =
     bindE (call_callback_and_free_work_item_id env cbs c (log_ev (Ev_cqe c) st))
       (\<lambda>st. Inr (log_ev (Ev_cq_advance 1) st, OK))"
  using assms by (simp add: poll_completion_queues_def)

lemma completion_of_live:
  assumes "pool_inv (m_pool st)" and "lookup (m_pool st) (cqe_user_data c) = Some a"
  shows "get_work_item (m_pool st) (cqe_user_data c) = Inr (Some a)"
  using assms get_work_item_eq lookup_less by simp

text \<open>The function of the client behind a callback, and the address a connect request carries.\<close>

fun cb_func :: "callback \<Rightarrow> func" where
  "cb_func (Connect_cb f) = f"
| "cb_func (Accept_cb f) = f"
| "cb_func (Recv_cb f) = f"
| "cb_func (Send_cb f) = f"
| "cb_func (Close_cb f) = f"

definition connected_to :: "work_item \<Rightarrow> IPAddress" where
  "connected_to wi =
     (let bs = m_buffer_for_uring wi in
      if sin_family (sockaddr_in_of_bytes bs) = AF_INET
      then \<lparr>m_in4 = Some (sockaddr_in_of_bytes bs), m_in6 = None\<rparr>
      else if sin_family (sockaddr_in_of_bytes bs) = AF_INET6
      then \<lparr>m_in4 = None, m_in6 = Some (sockaddr_in6_of_bytes bs)\<rparr>
      else \<lparr>m_in4 = None, m_in6 = None\<rparr>)"

lemma call_connect_callback_eq:
  "call_connect_callback cbs a c st =
     (if cqe_res c < 0 then Inr st
      else bindE (item_call_connect_callback cbs (deref (m_pool st) a) (cqe_res c)
              (connected_to (deref (m_pool st) a)) st) (\<lambda>(st, _). Inr st))"
  by (simp add: call_connect_callback_def connected_to_def Let_def IPAddress_of_sockaddr_in_def
      IPAddress_of_sockaddr_in6_def IPAddress_default_def)

text \<open>What the client is told of a request that completes once.\<close>

fun reports :: "work_type \<Rightarrow> work_item \<Rightarrow> int \<Rightarrow> cb_arg" where
  "reports CONNECT wi res = ConnectResult res (connected_to wi)"
| "reports CLOSE wi res = CloseResult res"
| "reports t wi res = SendResult res"

definition completes_once :: "work_type \<Rightarrow> bool" where
  "completes_once t \<longleftrightarrow> t \<in> {CLOSE, CONNECT, SEND_STREAM_DATA, SEND_WORKPACKET}"

text \<open>Run the function, tidy up with \<open>g\<close>, release the item.\<close>

definition run_and_release :: "uring invoker \<Rightarrow> nat \<Rightarrow> cb_arg \<Rightarrow> (uring \<Rightarrow> uring) \<Rightarrow> nat \<Rightarrow> uring \<Rightarrow> uring res" where
  "run_and_release cbs f x g wid st = bindE (cbs f x st) (\<lambda>(st1, _). release wid (g st1))"

lemma completes_once_eq:
  assumes inv: "pool_inv (m_pool st)" and l: "lookup (m_pool st) (cqe_user_data c) = Some a"
    and nb: "cqe_res c \<noteq> - ENOBUFS" and t: "completes_once (m_work_type (deref (m_pool st) a))"
    and f: "cb_func (m_callback (deref (m_pool st) a)) = Some f"
    and r: "m_work_type (deref (m_pool st) a) = CLOSE \<or> 0 \<le> cqe_res c"
  shows "\<exists>g. g \<in> {id, update_item a clean_send_packet} \<and>
     call_callback_and_free_work_item_id env cbs c st =
       run_and_release cbs f (reports (m_work_type (deref (m_pool st) a)) (deref (m_pool st) a) (cqe_res c))
         g (cqe_user_data c) st"
proof -
  let ?wi = "deref (m_pool st) a"
  note g = completion_of_live[OF inv l]
  have fits: "callback_fits (m_work_type ?wi) (m_callback ?wi)"
    using pool_invD(5)[OF inv l] by (simp add: item_inv_def)
  consider (close) "m_work_type ?wi = CLOSE" | (connect) "m_work_type ?wi = CONNECT" "0 \<le> cqe_res c"
    | (send) "m_work_type ?wi \<in> {SEND_STREAM_DATA, SEND_WORKPACKET}" "0 \<le> cqe_res c"
    using t r by (auto simp: completes_once_def)
  then show ?thesis
  proof cases
    case close
    with fits f have "m_callback ?wi = Close_cb (Some f)" by (cases "m_callback ?wi") auto
    then show ?thesis
      by (intro exI[of _ id]) (cases "cbs f (CloseResult (cqe_res c)) st"; simp add: close g nb
          call_callback_and_free_work_item_id_def call_close_callback_def item_call_close_callback_def
          call_func_def run_and_release_def split_beta)
  next
    case connect
    with fits f have "m_callback ?wi = Connect_cb (Some f)" by (cases "m_callback ?wi") auto
    with connect show ?thesis
      by (intro exI[of _ id]) (cases "cbs f (ConnectResult (cqe_res c) (connected_to ?wi)) st"; simp add: g nb
          call_callback_and_free_work_item_id_def call_connect_callback_eq item_call_connect_callback_def
          call_func_def run_and_release_def split_beta)
  next
    case send
    with fits f have "m_callback ?wi = Send_cb (Some f)" by (cases "m_callback ?wi") auto
    with send show ?thesis
      by (intro exI[of _ "update_item a clean_send_packet"])
        (cases "cbs f (SendResult (cqe_res c)) st"; auto simp: g nb
          call_callback_and_free_work_item_id_def call_send_callback_def item_call_send_callback_def
          call_func_def run_and_release_def split_beta)
  qed
qed

lemma release_next_id: "release wid st = Inr st' \<Longrightarrow> next_id (m_pool st') = wid"
  by (auto simp: release_def free_work_item_def Let_def next_id_def split: if_splits option.splits)

lemma tidied:
  assumes "g \<in> {id, update_item a clean_send_packet}" and "pool_inv (m_pool st)"
    and "a < length (heap (m_pool st))"
  shows "pool_inv (m_pool (g st)) \<and> lookup (m_pool (g st)) = lookup (m_pool st) \<and> trace (g st) = trace st"
proof -
  have "post_step a st (g st)" using assms(1) by (auto simp: post_step_def)
  from post_step_ok[OF assms(2,3) this] assms(1) show ?thesis
    by (auto simp: update_item_def)
qed

section \<open>Requests that complete once\<close>

text \<open>
  C10: The completion of a close, or of a connect or send that succeeded, runs the
  client's function of that request, once, with the result of the kernel; if that function
  returns, the poll returns too (the release that follows never stops the program), the
  identifier is free and is the next to be given out, every other item that the function
  has left in the table is still there, and the completion is given back to the kernel last.
\<close>

theorem request_completes_once:
  assumes env: "env_ok env" and inv: "pool_inv (m_pool st)" and peek: "e_peek_cqe env (trace st) = (0, c)"
    and l: "lookup (m_pool st) (cqe_user_data c) = Some a" and nb: "cqe_res c \<noteq> - ENOBUFS"
    and t: "completes_once (m_work_type (deref (m_pool st) a))"
    and f: "cb_func (m_callback (deref (m_pool st) a)) = Some f"
    and r: "m_work_type (deref (m_pool st) a) = CLOSE \<or> 0 \<le> cqe_res c"
    and x: "x = reports (m_work_type (deref (m_pool st) a)) (deref (m_pool st) a) (cqe_res c)"
  shows "case invoke env client f x (log_ev (Ev_cqe c) st) of
      Inl e \<Rightarrow> poll_completion_queues env (invoke env client) st = Inl e
    | Inr (st1, act) \<Rightarrow> (\<exists>st'. poll_completion_queues env (invoke env client) st = Inr (st', OK) \<and>
        callbacks (trace st') = callbacks (trace st) @ [(f, x)] \<and>
        lookup (m_pool st') = (lookup (m_pool st1))(cqe_user_data c := None) \<and>
        next_id (m_pool st') = cqe_user_data c \<and> is_free (deref (m_pool st') a) \<and>
        trace st' = trace st1 @ [Ev_cq_advance 1])"
proof -
  let ?st = "log_ev (Ev_cqe c) st" and ?i = "cqe_user_data c" and ?cbs = "invoke env client"
  have inv0: "pool_inv (m_pool ?st)" and l0: "lookup (m_pool ?st) ?i = Some a" using inv l by simp_all
  from completes_once_eq[OF inv0 l0 nb, of f env ?cbs] t f r obtain g where
    g: "g \<in> {id, update_item a clean_send_packet}" and
    eq: "call_callback_and_free_work_item_id env ?cbs c ?st = run_and_release ?cbs f x g ?i ?st"
    by (auto simp: x)
  note p = poll_completion[OF peek, of ?cbs]
  show ?thesis
  proof (cases "?cbs f x ?st")
    case (Inl e)
    then show ?thesis using p eq by (simp add: run_and_release_def)
  next
    case (Inr y)
    then obtain st1 act where y: "?cbs f x ?st = Inr (st1, act)" by (cases y) simp
    note C = scripts.callback_ok[OF env inv0 y]
    have l1: "lookup (m_pool st1) ?i = Some a" and p1: "pool_inv (m_pool st1)"
      using C l0 by (auto simp: api_frame_def pool_grows_def)
    note G = tidied[OF g p1 pool_invD(1)[OF p1 l1]]
    then have lg: "lookup (m_pool (g st1)) ?i = Some a" and pg: "pool_inv (m_pool (g st1))"
      using l1 by simp_all
    from release_succeeds[OF pg lg] obtain st2 where r2: "release ?i (g st1) = Inr st2" by blast
    note R = release_frame[OF pg lg r2]
    have "poll_completion_queues env ?cbs st = Inr (log_ev (Ev_cq_advance 1) st2, OK)"
      using p eq y r2 by (simp add: run_and_release_def)
    with y C G R release_next_id[OF r2] show ?thesis by simp
  qed
qed

text \<open>
  C35: A connect or a send that fails is dropped: the poll returns, the client's function is
  not run and so never learns of the failure, nothing is submitted, and the item is released.
  One that fails with \<^verbatim>\<open>ENOBUFS\<close> is dropped too, but its item is not released: the table stays
  as it is, although nothing is submitted for the item.
\<close>

theorem failed_request_is_dropped:
  assumes inv: "pool_inv (m_pool st)" and peek: "e_peek_cqe env (trace st) = (0, c)"
    and l: "lookup (m_pool st) (cqe_user_data c) = Some a"
    and t: "m_work_type (deref (m_pool st) a) \<in> {CONNECT, SEND_STREAM_DATA, SEND_WORKPACKET}"
    and r: "cqe_res c < 0"
  shows "\<exists>st'. poll_completion_queues env (invoke env client) st = Inr (st', OK) \<and>
     callbacks (trace st') = callbacks (trace st) \<and>
     lookup (m_pool st') =
       (if cqe_res c = - ENOBUFS then lookup (m_pool st) else (lookup (m_pool st))(cqe_user_data c := None)) \<and>
     (cqe_res c = - ENOBUFS \<or> is_free (deref (m_pool st') a)) \<and>
     trace st' = trace st @ [Ev_cqe c, Ev_cq_advance 1]"
proof (cases "cqe_res c = - ENOBUFS")
  case True
  with poll_completion[OF peek, of "invoke env client"] completion_of_live[OF inv l] show ?thesis
    by (simp add: call_callback_and_free_work_item_id_def)
next
  case nb: False
  let ?st = "log_ev (Ev_cqe c) st" and ?i = "cqe_user_data c"
  have inv0: "pool_inv (m_pool ?st)" and l0: "lookup (m_pool ?st) ?i = Some a" using inv l by simp_all
  from release_succeeds[OF inv0 l0] obtain st2 where r2: "release ?i ?st = Inr st2" by blast
  have "call_callback_and_free_work_item_id env (invoke env client) c ?st = Inr st2"
    using t r nb completion_of_live[OF inv0 l0] r2
    by (auto simp: call_callback_and_free_work_item_id_def call_connect_callback_eq call_send_callback_def)
  then show ?thesis
    using poll_completion[OF peek, of "invoke env client"] release_frame[OF inv0 l0 r2] nb by simp
qed

text \<open>
  After a connect the client is told the address it asked for: what the completion
  reads from the item's memory is the socket address that the connect was given, port and
  padding included.
\<close>

lemma connect_reports_its_target:
  assumes inv: "item_inv wi" and t: "m_in4 target = Some sa" and fam: "sin_family sa = AF_INET"
    and run: "submit_connect_item (submit env bufsz) target cb wi tr = Inr (wi', tr')"
  shows "connected_to wi' = \<lparr>m_in4 = Some sa, m_in6 = None\<rparr> \<and> reports (m_work_type wi') wi' 0 =
     ConnectResult 0 \<lparr>m_in4 = Some sa, m_in6 = None\<rparr>"
proof -
  let ?bs = "memcpy_at 0 (sockaddr_in_bytes sa) (m_buffer_for_uring wi)"
  have c: "m_work_type wi' = CONNECT" by (rule ring.connect_item(5)[OF inv run])
  from run obtain n1 where "submit env bufsz (wi\<lparr>m_connect_sock_len := 16,
      m_buffer_for_uring := ?bs, m_callback := Connect_cb cb, m_work_type := CONNECT\<rparr>) tr = Inr (wi', n1)"
    by (auto simp: submit_connect_item_def size_sockaddr_def data_sockaddr_def t Let_def sizeof_defs)
  from submit_projections[OF this] have "m_buffer_for_uring wi' = ?bs"
    by (auto simp: prepare_def Let_def)
  moreover have "sockaddr_in_of_bytes ?bs = sa" by (simp add: memcpy_at_def)
  ultimately show ?thesis using c fam by (simp add: connected_to_def Let_def)
qed

section \<open>Accepting\<close>

lemma accept_completion_runs:
  assumes "pool_inv (m_pool st)" and "lookup (m_pool st) (cqe_user_data c) = Some a"
    and "cqe_res c \<noteq> - ENOBUFS" and "m_work_type (deref (m_pool st) a) = ACCEPT"
    and "call_callback_and_free_work_item_id env cbs c st = Inr st'"
  shows "\<exists>st1. runs_at_most_one cbs (accept_written env a st) st1 \<and>
     (cqe_res c < 0 \<longrightarrow> st1 = accept_written env a st) \<and>
     submit_item_at (submit env (buffer_size st1)) a st1 = Inr st'"
proof -
  from assms completion_of_live[OF assms(1,2)] obtain st1 where
    1: "call_accept_callback cbs a c (accept_written env a st) = Inr st1" and
    2: "submit_item_at (submit env (buffer_size st1)) a st1 = Inr st'"
    by (auto simp: call_callback_and_free_work_item_id_def)
  from 1 have "runs_at_most_one cbs (accept_written env a st) st1 \<and>
     (cqe_res c < 0 \<longrightarrow> st1 = accept_written env a st)"
    by (auto simp: call_accept_callback_def Let_def runs_at_most_one_def split: if_splits
        dest!: item_calls_run)
  with 2 show ?thesis by blast
qed

text \<open>
  C11: A socket that accepts keeps accepting: after every poll that returns, for every result
  of an accept but \<^verbatim>\<open>ENOBUFS\<close>, the last entry handed to the kernel is a new accept on the same
  descriptor, with the same identifier and with the value 0 behind its \<^verbatim>\<open>addrlen\<close>.  With
  \<^verbatim>\<open>ENOBUFS\<close>, which \<^verbatim>\<open>accept(2)\<close> knows, nothing is handed over, so that the socket does not accept
  any more.  In both cases the item stays in the table under its identifier, and if the accept
  failed, no function of the client is run.  The client has to be careful in this poll: the
  function that is run hands over only items that are in the table and have not been handed over before.
\<close>

theorem accept_keeps_accepting:
  assumes env: "env_ok env" and careful: "careful_in env client st" and inv: "pool_inv (m_pool st)"
    and peek: "e_peek_cqe env (trace st) = (0, c)"
    and l: "lookup (m_pool st) (cqe_user_data c) = Some a"
    and t: "m_work_type (deref (m_pool st) a) = ACCEPT"
    and run: "poll_completion_queues env (invoke env client) st = Inr (st', err)"
  shows "lookup (m_pool st') (cqe_user_data c) = Some a \<and>
     (if cqe_res c = - ENOBUFS then trace st' = trace st @ [Ev_cqe c, Ev_cq_advance 1]
      else \<exists>earlier. sqes (trace st') = earlier @ [\<lparr>sqe_user_data = cqe_user_data c,
        sqe_prep = Prep_accept (get_fd (m_socket (deref (m_pool st) a))) 0 0, sqe_flags = 0, sqe_buf_group = 0\<rparr>]) \<and>
     (cqe_res c < 0 \<longrightarrow> callbacks (trace st') = callbacks (trace st))"
proof (cases "cqe_res c = - ENOBUFS")
  case True
  with poll_completion[OF peek, of "invoke env client"] completion_of_live[OF inv l] run l show ?thesis
    by (auto simp: call_callback_and_free_work_item_id_def)
next
  case nb: False
  let ?st = "log_ev (Ev_cqe c) st" and ?i = "cqe_user_data c" and ?cbs = "checked env client"
  let ?sw = "accept_written env a ?st"
  have inv0: "pool_inv (m_pool ?st)" and l0: "lookup (m_pool ?st) ?i = Some a"
    and t0: "m_work_type (deref (m_pool ?st) a) = ACCEPT" using inv l t by simp_all
  note a = pool_invD(1)[OF inv0 l0]
  from run careful poll_completion[OF peek, of ?cbs] obtain st2 where
    c: "call_callback_and_free_work_item_id env ?cbs c ?st = Inr st2" and
    st': "st' = log_ev (Ev_cq_advance 1) st2" by (auto simp: careful_in_def)
  from accept_completion_runs[OF inv0 l0 nb t0 c] obtain st1 where
    r: "runs_at_most_one ?cbs ?sw st1" "cqe_res c < 0 \<longrightarrow> st1 = ?sw" and
    s: "submit_item_at (submit env (buffer_size st1)) a st1 = Inr st2" by blast
  have pre: "pre_step a ?st ?sw" and post: "post_step a st1 st1"
    by (auto simp: pre_step_def post_step_def accept_written_def split_beta)
  have B: "pool_inv (m_pool st1)" "run_frame ?st st1"
    using watched.before_last_ok[OF env inv0 a pre r(1) post] by simp_all
  have S: "starts ?st st1" by (rule watched.before_last_starts[OF env inv0 a pre r(1) post])
  have l1: "lookup (m_pool st1) ?i = Some a" and k1: "m_socket (deref (m_pool st1) a) = m_socket (deref (m_pool st) a)"
    using B l0 a by (auto simp: run_frame_def pool_grows_def)
  have "request_of ?st ?i \<noteq> None" using l0 t0 by (simp add: request_of_def)
  with starts_ids[OF S] have "request_of st1 ?i = request_of ?st ?i" by metis
  then have "m_work_type (deref (m_pool st1) a) = ACCEPT"
    using l0 l1 t0 by (auto simp: request_of_def split: if_splits)
  with resubmit_frame[OF B(1) l1 s] k1 have
    "lookup (m_pool st2) ?i = Some a" "callbacks (trace st2) = callbacks (trace st1)"
    "\<exists>earlier. sqes (trace st2) = earlier @ [\<lparr>sqe_user_data = ?i,
        sqe_prep = Prep_accept (get_fd (m_socket (deref (m_pool st) a))) 0 0, sqe_flags = 0, sqe_buf_group = 0\<rparr>]"
    using l1 by (auto simp: prepare_def Let_def)
  moreover have "callbacks (trace ?sw) = callbacks (trace st)"
    by (simp add: accept_written_def update_item_def split_beta)
  ultimately show ?thesis using r(2) nb by (simp add: st')
qed

text \<open>
  The address that an accepted connection reports: for the length of an IPv4 address
  the library stores the bytes as an IPv6 address, so that \<^verbatim>\<open>get_type\<close> says
  \<^verbatim>\<open>IPV6_TCP\<close> of an IPv4 peer; for the length of an IPv6 address it says \<^verbatim>\<open>IPV4_TCP\<close>;
  for every other length (in particular when the kernel has left no address) the program stops.
\<close>

lemma accepted_family_is_swapped:
  "(case IPAddress_of_storage bytes n of
      Inl e \<Rightarrow> e = Assertion_failed \<and> n \<notin> {sizeof_sockaddr_in, sizeof_sockaddr_in6}
    | Inr addr \<Rightarrow>
        n = sizeof_sockaddr_in \<and> accept_get_type addr = IPV6_TCP \<and> m_in4 addr = None \<and>
          accept_get_port addr = sin_port (sockaddr_in_of_bytes bytes) \<or>
        n = sizeof_sockaddr_in6 \<and> accept_get_type addr = IPV4_TCP \<and> m_in6 addr = None \<and>
          accept_get_port addr = sin6_port (sockaddr_in6_of_bytes bytes))"
  by (auto simp: IPAddress_of_storage_def Let_def accept_get_type_def accept_get_port_def sizeof_defs
      sockaddr_in_of_bytes_def sockaddr_in6_of_bytes_def assertE_def)

section \<open>Receiving\<close>

definition cqe_buffer :: "cqe \<Rightarrow> nat" where
  "cqe_buffer c = unat (drop_bit 16 (cqe_flags c))"

text \<open>The last step of a receive: release or submit again, as the client's function says.\<close>

definition after_receive :: "env \<Rightarrow> nat \<Rightarrow> nat \<Rightarrow> ReceivePostAction \<Rightarrow> uring \<Rightarrow> uring res" where
  "after_receive env wid a act st =
     (case act of NONE \<Rightarrow> release wid st
      | RE_SUBMIT \<Rightarrow> submit_item_at (submit env (buffer_size st)) a st)"

lemma recv_completion_eq:
  assumes "pool_inv (m_pool st)" and "lookup (m_pool st) (cqe_user_data c) = Some a"
    and "cqe_res c \<noteq> - ENOBUFS" and "m_work_type (deref (m_pool st) a) = RECV"
  shows "call_callback_and_free_work_item_id env cbs c st =
     bindE (call_recv_callback env cbs a c st) (\<lambda>(st1, act). after_receive env (cqe_user_data c) a act st1)"
  using assms(3,4) completion_of_live[OF assms(1,2)]
  by (cases "call_recv_callback env cbs a c st")
    (auto simp: call_callback_and_free_work_item_id_def after_receive_def split: ReceivePostAction.splits)

lemma recv_item_callback:
  assumes "pool_inv (m_pool st)" and "lookup (m_pool st) wid = Some a"
    and "m_work_type (deref (m_pool st) a) = RECV" and "cb_func (m_callback (deref (m_pool st) a)) = Some f"
  shows "item_call_recv_callback cbs (deref (m_pool st) a) m st2 = cbs f (Received m) st2"
proof -
  have "callback_fits RECV (m_callback (deref (m_pool st) a))"
    using pool_invD(5)[OF assms(1,2)] assms(3) by (simp add: item_inv_def)
  with assms(4) show ?thesis
    by (cases "m_callback (deref (m_pool st) a)") (auto simp: item_call_recv_callback_def call_func_def)
qed

text \<open>
  C13: A successful receive on a stream socket runs the client's function on a message that
  is exactly the buffer named by the completion, with the number of bytes the kernel
  reports; only after the function has returned is that buffer given back, and only then
  is the item released or submitted again, as the function has answered; the completion
  itself is given back last.
\<close>

theorem stream_receive_order:
  assumes inv: "pool_inv (m_pool st)" and peek: "e_peek_cqe env (trace st) = (0, c)"
    and l: "lookup (m_pool st) (cqe_user_data c) = Some a"
    and t: "m_work_type (deref (m_pool st) a) = RECV" and s: "item_is_stream (deref (m_pool st) a)"
    and f: "cb_func (m_callback (deref (m_pool st) a)) = Some f" and r: "0 \<le> cqe_res c"
  shows "poll_completion_queues env (invoke env client) st =
     bindE (invoke env client f (Received \<lparr>rm_data = get_buffer st (cqe_buffer c),
         rm_size = nat (cqe_res c), rm_source_address = IPAddress_default\<rparr>) (log_ev (Ev_cqe c) st))
       (\<lambda>(st1, act). bindE (after_receive env (cqe_user_data c) a act (recycle_buffer (cqe_buffer c) st1))
         (\<lambda>st2. Inr (log_ev (Ev_cq_advance 1) st2, OK)))"
proof -
  let ?st = "log_ev (Ev_cqe c) st"
  have p: "pool_inv (m_pool ?st)" "lookup (m_pool ?st) (cqe_user_data c) = Some a"
    "m_work_type (deref (m_pool ?st) a) = RECV" "cqe_res c \<noteq> - ENOBUFS"
    "cb_func (m_callback (deref (m_pool ?st) a)) = Some f"
    using inv l t f r by (simp_all add: errno_defs)
  have "call_recv_callback env cbs a c ?st = bindE (cbs f (Received \<lparr>rm_data = get_buffer st (cqe_buffer c),
         rm_size = nat (cqe_res c), rm_source_address = IPAddress_default\<rparr>) ?st)
       (\<lambda>(st1, act). Inr (recycle_buffer (cqe_buffer c) st1, act))" for cbs
    using r s
    by (simp add: recv_item_callback[OF inv l t f] call_recv_callback_def Let_def
        call_recv_handler_stream_def cqe_buffer_def)
  then show ?thesis
    unfolding poll_completion[OF peek] recv_completion_eq[OF p(1,2,4,3)]
    by (cases "invoke env client f (Received \<lparr>rm_data = get_buffer st (cqe_buffer c),
         rm_size = nat (cqe_res c), rm_source_address = IPAddress_default\<rparr>) ?st") (auto simp: split_beta)
qed

text \<open>
  C12: A receive that fails: \<^verbatim>\<open>ENOBUFS\<close> is ignored (the item stays in the table with no
  request in flight), a connection reset by the peer is submitted again (the code compares
  with \<^verbatim>\<open>EAI_INTR\<close>, which is the number of that error, where it means an interrupted call),
  and every other failure, an interrupted call included, stops the program.
\<close>

theorem receive_errors:
  assumes inv: "pool_inv (m_pool st)" and peek: "e_peek_cqe env (trace st) = (0, c)"
    and l: "lookup (m_pool st) (cqe_user_data c) = Some a"
    and t: "m_work_type (deref (m_pool st) a) = RECV" and r: "cqe_res c < 0"
  shows "poll_completion_queues env (invoke env client) st =
     (if cqe_res c = - ENOBUFS then Inr (log_ev (Ev_cq_advance 1) (log_ev (Ev_cqe c) st), OK)
      else if cqe_res c = - ECONNRESET
      then bindE (submit_item_at (submit env (buffer_size st)) a (log_ev (Ev_cqe c) st))
             (\<lambda>st2. Inr (log_ev (Ev_cq_advance 1) st2, OK))
      else Inl Aborted)"
proof (cases "cqe_res c = - ENOBUFS")
  case True
  then show ?thesis using poll_completion[OF peek, of "invoke env client"]
      completion_of_live[of "log_ev (Ev_cqe c) st" c a] inv l
    by (simp add: call_callback_and_free_work_item_id_def)
next
  case False
  let ?st = "log_ev (Ev_cqe c) st"
  have p: "pool_inv (m_pool ?st)" "lookup (m_pool ?st) (cqe_user_data c) = Some a"
    "m_work_type (deref (m_pool ?st) a) = RECV"
    using inv l t by simp_all
  have "call_recv_callback env cbs a c ?st =
      (if cqe_res c = - ECONNRESET then Inr (?st, RE_SUBMIT) else Inl Aborted)" for cbs
    using r by (simp add: call_recv_callback_def errno_defs)
  with False show ?thesis
    unfolding poll_completion[OF peek] recv_completion_eq[OF p(1,2) False p(3)]
    by (simp add: after_receive_def)
qed

section \<open>Buffers\<close>

lemma api_frame_given:
  assumes "api_frame st st'"
  shows "given (trace st') = given (trace st) \<and> get_buffer st' = get_buffer st \<and> buffer_size st' = buffer_size st"
proof -
  from assms obtain p tr where "st' = st\<lparr>m_pool := p, trace := tr\<rparr>" unfolding api_frame_def by blast
  then have "get_buffer st' = get_buffer st" "buffer_size st' = buffer_size st"
    by (simp_all add: get_buffer_def fun_eq_iff buffer_size_def)
  with assms show ?thesis by (auto simp: api_frame_def trace_grows_def)
qed

lemma given_log_ev [simp]: "\<not> is_buf_event e \<Longrightarrow> given (trace (log_ev e st)) = given (trace st)"
  by simp

lemma release_given: "release wid st = Inr st' \<Longrightarrow> given (trace st') = given (trace st)"
  by (auto simp: release_def)

lemma resubmit_given:
  assumes "pool_inv (m_pool st)" and "submit_item_at (submit env (buffer_size st)) a st = Inr st'"
  shows "given (trace st') = given (trace st)"
  using submit_item_at_frame[OF assms(1) ring.overloads_keep(1) overloads_hand_over(1) assms(2)]
    api_frame_given by blast

text \<open>Whether a completion is a receive that reaches \<^verbatim>\<open>recycle_buffer\<close>.\<close>

definition gives_back :: "uring \<Rightarrow> cqe \<Rightarrow> bool" where
  "gives_back st c \<longleftrightarrow> 0 \<le> cqe_res c \<and> (\<exists>a. lookup (m_pool st) (cqe_user_data c) = Some a \<and>
     m_work_type (deref (m_pool st) a) = RECV)"

context client_runner
begin

lemma run_given:
  assumes env: "env_ok env" and inv: "pool_inv (m_pool st)" and run: "runs_at_most_one cbs st st1"
  shows "pool_inv (m_pool st1) \<and> given (trace st1) = given (trace st) \<and> get_buffer st1 = get_buffer st \<and>
     buffer_size st1 = buffer_size st \<and> run_frame st st1"
  using run unfolding runs_at_most_one_def
proof (elim disjE exE)
  assume "st1 = st" then show ?thesis using inv by simp
next
  fix f x act assume "cbs f x st = Inr (st1, act)"
  from callback_ok[OF env inv this] api_frame_given api_frame_run show ?thesis by blast
qed

lemma recv_given:
  assumes env: "env_ok env" and inv: "pool_inv (m_pool st)"
    and run: "call_recv_callback env cbs a c st = Inr (st', act)"
  shows "pool_inv (m_pool st') \<and> run_frame st st' \<and> given (trace st') = given (trace st) @
     (if 0 \<le> cqe_res c then [(get_buffer st (cqe_buffer c), buffer_size st, cqe_buffer c)] else [])"
proof (cases "cqe_res c < 0")
  case True
  with run inv show ?thesis by (auto simp: call_recv_callback_def split: if_splits)
next
  case False
  with run obtain st1 where st': "st' = recycle_buffer (cqe_buffer c) st1" and
    "call_recv_handler_stream cbs (get_buffer st (cqe_buffer c)) a c st = Inr (st1, act) \<or>
     call_recv_handler_datagram env cbs (get_buffer st (cqe_buffer c)) a c st = Inr (st1, act)"
    by (auto simp: call_recv_callback_def cqe_buffer_def Let_def split: if_splits)
  then have "runs_at_most_one cbs st st1"
    by (auto simp: call_recv_handler_stream_def call_recv_handler_datagram_def Let_def runs_at_most_one_def
        split: if_splits option.splits dest!: item_calls_run)
  note R = run_given[OF env inv this]
  have "post_step a st1 st'" by (auto simp: post_step_def st')
  moreover have "run_frame st1 st'"
    by (simp add: st' run_frame_def) (simp add: recycle_buffer_def log_ev_def)
  ultimately show ?thesis
    using R False given_recycle[of "trace st1"] run_frame_trans[of st st1 st'] by (simp add: st')
qed

lemma completion_given:
  assumes env: "env_ok env" and inv: "pool_inv (m_pool st)"
    and run: "call_callback_and_free_work_item_id env cbs c st = Inr st'"
  shows "given (trace st') = given (trace st) @
     (if gives_back st c then [(get_buffer st (cqe_buffer c), buffer_size st, cqe_buffer c)] else [])"
proof (cases "lookup (m_pool st) (cqe_user_data c)")
  case None
  with run get_work_item_eq[OF inv, of "cqe_user_data c"] show ?thesis
    by (auto simp: call_callback_and_free_work_item_id_def gives_back_def split: if_splits)
next
  case (Some a)
  note a = pool_invD(1)[OF inv Some]
  show ?thesis
  proof (cases "cqe_res c = - ENOBUFS")
    case True
    with run Some completion_of_live[OF inv Some] show ?thesis
      by (simp add: call_callback_and_free_work_item_id_def gives_back_def errno_defs)
  next
    case False
    show ?thesis
    proof (cases "m_work_type (deref (m_pool st) a) = RECV")
      case True
      from run recv_completion_eq[OF inv Some False True] obtain st1 act where
        1: "call_recv_callback env cbs a c st = Inr (st1, act)" and
        2: "after_receive env (cqe_user_data c) a act st1 = Inr st'" by auto
      note R = recv_given[OF env inv 1]
      have "given (trace st') = given (trace st1)"
        using 2 R release_given resubmit_given
        by (auto simp: after_receive_def split: ReceivePostAction.splits)
      with R True Some show ?thesis by (simp add: gives_back_def)
    next
      case other: False
      from completion_shape[OF inv Some False run] other obtain s0 s1 s2 where
        s: "pre_step a st s0" "runs_at_most_one cbs s0 s1" "post_step a s1 s2" "trace s2 = trace s1" and
        f: "finishes env (cqe_user_data c) a s2 st'" by blast
      have "trace s0 = trace st" using s(1) by (auto simp: pre_step_def update_item_def)
      moreover have "pool_inv (m_pool s0)" using pre_step_ok[OF inv a s(1)] by blast
      ultimately have "given (trace s2) = given (trace st)"
        using run_given[OF env _ s(2)] s(4) by simp
      moreover have "pool_inv (m_pool s2)" using before_last_ok[OF env inv a s(1-3)] by simp
      then have "given (trace st') = given (trace s2)"
        using f release_given resubmit_given unfolding finishes_def by blast
      ultimately show ?thesis using other Some by (simp add: gives_back_def)
    qed
  qed
qed

end

text \<open>
  Every poll that takes a completion gives the kernel at most one buffer: if the
  completion is a successful receive of a live item, exactly the buffer in the upper half
  of its flags, otherwise none; whatever the client's functions do in between.
\<close>

lemma poll_gives_back_at_most_one_buffer:
  assumes "env_ok env" and "pool_inv (m_pool st)" and "e_peek_cqe env (trace st) = (0, c)"
    and "poll_completion_queues env (invoke env client) st = Inr (st', err)"
  shows "given (trace st') = given (trace st) @
     (if gives_back st c then [(get_buffer st (cqe_buffer c), buffer_size st, cqe_buffer c)] else [])"
proof -
  let ?st = "log_ev (Ev_cqe c) st"
  from assms(4) poll_completion[OF assms(3)] obtain st1 where
    1: "call_callback_and_free_work_item_id env (invoke env client) c ?st = Inr st1" and
    st': "st' = log_ev (Ev_cq_advance 1) st1" by auto
  have "pool_inv (m_pool ?st)" using assms(2) by simp
  from scripts.completion_given[OF assms(1) this 1] show ?thesis
    by (simp add: st' gives_back_def)
qed

text \<open>The buffers that completions have taken out of the ring.\<close>

definition taken :: "event list \<Rightarrow> nat list" where
  "taken tr = map cqe_buffer (List.filter (\<lambda>c. cqe_flags c AND IORING_CQE_F_BUFFER \<noteq> 0) (cqes tr))"

definition given_ids :: "event list \<Rightarrow> nat list" where
  "given_ids tr = map (\<lambda>(_, _, b). b) (given tr)"

lemma poll_buffer_ids:
  assumes "env_ok env" and "pool_inv (m_pool st)" and "e_peek_cqe env (trace st) = (0, c)"
    and "poll_completion_queues env (invoke env client) st = Inr (st', err)"
  shows "given_ids (trace st') = given_ids (trace st) @ (if gives_back st c then [cqe_buffer c] else [])"
    "taken (trace st') = taken (trace st) @
       (if cqe_flags c AND IORING_CQE_F_BUFFER \<noteq> 0 then [cqe_buffer c] else [])"
proof -
  show "given_ids (trace st') = given_ids (trace st) @ (if gives_back st c then [cqe_buffer c] else [])"
    using poll_gives_back_at_most_one_buffer[OF assms] by (simp add: given_ids_def)
  from assms(4) poll_completion[OF assms(3)] obtain st1 where
    1: "call_callback_and_free_work_item_id env (invoke env client) c (log_ev (Ev_cqe c) st) = Inr st1" and
    st': "st' = log_ev (Ev_cq_advance 1) st1" by auto
  have "pool_inv (m_pool (log_ev (Ev_cqe c) st))" using assms(2) by simp
  from scripts.completion_inv[OF assms(1) this 1] have "cqes (trace st') = cqes (trace st) @ [c]"
    by (auto simp: st')
  then show "taken (trace st') = taken (trace st) @
       (if cqe_flags c AND IORING_CQE_F_BUFFER \<noteq> 0 then [cqe_buffer c] else [])"
    by (simp add: taken_def)
qed

text \<open>
  C24: The count of the buffers: a poll leaves the difference between the buffers given to
  the kernel and those taken by completions as it was if the kernel names a buffer
  exactly in the successful receives; a successful receive that names none (the end of a
  stream) gives the kernel a buffer too many, number 0 for flags of zero, and a buffer
  named by any other completion (one whose item is gone, say) is lost.
\<close>

theorem poll_buffer_count:
  assumes "env_ok env" and "pool_inv (m_pool st)" and "e_peek_cqe env (trace st) = (0, c)"
    and "poll_completion_queues env (invoke env client) st = Inr (st', err)"
  shows "int (count_list (given_ids (trace st')) i) - int (count_list (taken (trace st')) i) =
     int (count_list (given_ids (trace st)) i) - int (count_list (taken (trace st)) i) +
     (if i \<noteq> cqe_buffer c then 0
      else of_bool (gives_back st c) - of_bool (cqe_flags c AND IORING_CQE_F_BUFFER \<noteq> 0))"
  by (simp add: poll_buffer_ids[OF assms])

text \<open>
  C34: A completion whose identifier is not live: below the size of the table it is logged
  and given back, and no function of the client is run; an identifier equal to the size
  passes the assertion of \<^verbatim>\<open>get_work_item\<close> and reads one slot past the end of the
  vector; a larger one stops the program.
\<close>

theorem completion_of_unknown_identifier:
  assumes inv: "pool_inv (m_pool st)" and peek: "e_peek_cqe env (trace st) = (0, c)"
    and l: "lookup (m_pool st) (cqe_user_data c) = None"
  shows "poll_completion_queues env (invoke env client) st =
     (if cqe_user_data c < length (m_work_items (m_pool st))
      then Inr (log_ev (Ev_cq_advance 1) (log_ev (Ev_cqe c) st), OK)
      else if cqe_user_data c = length (m_work_items (m_pool st)) then Inl Undefined_behaviour
      else Inl Assertion_failed)"
  using get_work_item_eq[OF inv, of "cqe_user_data c"] l
  by (simp add: poll_completion[OF peek] call_callback_and_free_work_item_id_def)

section \<open>Datagrams\<close>

text \<open>
  C15: A datagram that the kernel's header does not describe well, whose sender's name is
  larger than any address, or that was truncated is dropped: the client's function is not
  run, the buffer is given back and the receive is submitted again, even if the completion
  says that the multishot request is still active.
\<close>

theorem bad_datagram_is_dropped:
  assumes inv: "pool_inv (m_pool st)" and peek: "e_peek_cqe env (trace st) = (0, c)"
    and l: "lookup (m_pool st) (cqe_user_data c) = Some a"
    and t: "m_work_type (deref (m_pool st) a) = RECV" and s: "\<not> item_is_stream (deref (m_pool st) a)"
    and r: "0 \<le> cqe_res c" and b: "cqe_flags c AND IORING_CQE_F_BUFFER \<noteq> 0"
    and bad: "case e_recvmsg_validate env (trace st @ [Ev_cqe c]) (get_buffer st (cqe_buffer c)) (cqe_res c)
                (m_msg (deref (m_pool st) a)) of
       None \<Rightarrow> True | Some ro \<Rightarrow> ro_namelen ro > sizeof_sockaddr_storage \<or> ro_flags ro AND MSG_TRUNC \<noteq> 0"
  shows "poll_completion_queues env (invoke env client) st =
     bindE (submit_item_at (submit env (buffer_size st)) a (recycle_buffer (cqe_buffer c) (log_ev (Ev_cqe c) st)))
       (\<lambda>st2. Inr (log_ev (Ev_cq_advance 1) st2, OK))"
proof -
  let ?st = "log_ev (Ev_cqe c) st"
  have p: "pool_inv (m_pool ?st)" "lookup (m_pool ?st) (cqe_user_data c) = Some a"
    "m_work_type (deref (m_pool ?st) a) = RECV" "cqe_res c \<noteq> - ENOBUFS"
    using inv l t r by (simp_all add: errno_defs)
  have h: "call_recv_handler_datagram env cbs (get_buffer st (cqe_buffer c)) a c ?st = Inr (?st, RE_SUBMIT)" for cbs
    using b bad by (auto simp: call_recv_handler_datagram_def Let_def split: option.splits)
  have "call_recv_callback env cbs a c ?st = Inr (recycle_buffer (cqe_buffer c) ?st, RE_SUBMIT)" for cbs
    using r s h[of cbs, unfolded cqe_buffer_def] by (simp add: call_recv_callback_def Let_def cqe_buffer_def)
  moreover have "buffer_size (recycle_buffer (cqe_buffer c) ?st) = buffer_size st"
    by (simp add: buffer_size_def)
  ultimately show ?thesis
    unfolding poll_completion[OF peek] recv_completion_eq[OF p(1,2,4,3)]
    by (simp add: after_receive_def)
qed

lemma datagram_handler:
  assumes inv: "pool_inv (m_pool st)" and l: "lookup (m_pool st) (cqe_user_data c) = Some a"
    and t: "m_work_type (deref (m_pool st) a) = RECV"
    and f: "cb_func (m_callback (deref (m_pool st) a)) = Some f"
    and b: "cqe_flags c AND IORING_CQE_F_BUFFER \<noteq> 0"
    and v: "e_recvmsg_validate env (trace st) buf (cqe_res c) (m_msg (deref (m_pool st) a)) = Some ro"
    and ok: "ro_namelen ro \<le> sizeof_sockaddr_storage" "ro_flags ro AND MSG_TRUNC = 0"
    and p: "e_recvmsg_payload env (trace st) buf (m_msg (deref (m_pool st) a)) \<noteq> 0"
  shows "call_recv_handler_datagram env cbs buf a c st =
     (let message = (\<lambda>source. Received
            \<lparr>rm_data = e_recvmsg_payload env (trace st) buf (m_msg (deref (m_pool st) a)),
             rm_size = e_recvmsg_payload_length env (trace st) buf (cqe_res c) (m_msg (deref (m_pool st) a)),
             rm_source_address = source\<rparr>);
          name = e_recvmsg_name env (trace st) buf
      in if ro_namelen ro \<in> {0, sizeof_sockaddr_in}
         then cbs f (message \<lparr>m_in4 = Some (sockaddr_in_of_bytes name), m_in6 = None\<rparr>) st
         else if ro_namelen ro = sizeof_sockaddr_in6
         then cbs f (message \<lparr>m_in4 = None, m_in6 = Some (sockaddr_in6_of_bytes name)\<rparr>) st
         else Inl Aborted)"
  using b v ok p recv_item_callback[OF inv l t f, of cbs]
  by (simp add: call_recv_handler_datagram_def Let_def IPAddress_of_sockaddr_in_def
      IPAddress_of_sockaddr_in6_def)

text \<open>
  C14: A well-formed datagram reaches the client's function with the payload that liburing
  locates in the buffer of the completion and with the sender's address, which is read as
  one of IPv4 or IPv6 by the size of its name; only after the function has returned is the
  buffer given back, and then the item is released or submitted again, as the function has
  answered.  A name of any other size stops the program.
\<close>

theorem good_datagram_is_delivered:
  assumes inv: "pool_inv (m_pool st)" and peek: "e_peek_cqe env (trace st) = (0, c)"
    and l: "lookup (m_pool st) (cqe_user_data c) = Some a"
    and t: "m_work_type (deref (m_pool st) a) = RECV" and s: "\<not> item_is_stream (deref (m_pool st) a)"
    and f: "cb_func (m_callback (deref (m_pool st) a)) = Some f"
    and r: "0 \<le> cqe_res c" and b: "cqe_flags c AND IORING_CQE_F_BUFFER \<noteq> 0"
    and now: "now = trace st @ [Ev_cqe c]" "buf = get_buffer st (cqe_buffer c)"
    and v: "e_recvmsg_validate env now buf (cqe_res c) (m_msg (deref (m_pool st) a)) = Some ro"
    and ok: "ro_namelen ro \<le> sizeof_sockaddr_storage" "ro_flags ro AND MSG_TRUNC = 0"
    and p: "e_recvmsg_payload env now buf (m_msg (deref (m_pool st) a)) \<noteq> 0"
  shows "poll_completion_queues env (invoke env client) st =
     (let name = e_recvmsg_name env now buf;
          deliver = (\<lambda>source. bindE (invoke env client f (Received
              \<lparr>rm_data = e_recvmsg_payload env now buf (m_msg (deref (m_pool st) a)),
               rm_size = e_recvmsg_payload_length env now buf (cqe_res c) (m_msg (deref (m_pool st) a)),
               rm_source_address = source\<rparr>) (log_ev (Ev_cqe c) st))
            (\<lambda>(st1, act). bindE (after_receive env (cqe_user_data c) a act (recycle_buffer (cqe_buffer c) st1))
              (\<lambda>st2. Inr (log_ev (Ev_cq_advance 1) st2, OK))))
      in if ro_namelen ro \<in> {0, sizeof_sockaddr_in}
         then deliver \<lparr>m_in4 = Some (sockaddr_in_of_bytes name), m_in6 = None\<rparr>
         else if ro_namelen ro = sizeof_sockaddr_in6
         then deliver \<lparr>m_in4 = None, m_in6 = Some (sockaddr_in6_of_bytes name)\<rparr>
         else Inl Aborted)"
proof -
  let ?st = "log_ev (Ev_cqe c) st"
  have q: "pool_inv (m_pool ?st)" "lookup (m_pool ?st) (cqe_user_data c) = Some a"
    "m_work_type (deref (m_pool ?st) a) = RECV" "cqe_res c \<noteq> - ENOBUFS"
    "cb_func (m_callback (deref (m_pool ?st) a)) = Some f"
    using inv l t f r by (simp_all add: errno_defs)
  have h: "call_recv_callback env cbs a c ?st =
      bindE (call_recv_handler_datagram env cbs buf a c ?st)
        (\<lambda>(st1, act). Inr (recycle_buffer (cqe_buffer c) st1, act))" for cbs
    using r s by (simp add: call_recv_callback_def Let_def cqe_buffer_def now(2))
  have bind: "bindE (bindE (bindE m (\<lambda>(st1, act). Inr (g st1, act))) (\<lambda>(st1, act). k st1 act)) j =
      bindE m (\<lambda>(st1, act). bindE (k (g st1) act) j)"
    for m :: "(uring \<times> ReceivePostAction) res" and g k and j :: "uring \<Rightarrow> (uring \<times> error_code) res"
    by (cases m) (auto simp: split_beta)
  have d: "e_recvmsg_validate env (trace ?st) buf (cqe_res c) (m_msg (deref (m_pool ?st) a)) = Some ro"
    "e_recvmsg_payload env (trace ?st) buf (m_msg (deref (m_pool ?st) a)) \<noteq> 0"
    using v p by (simp_all add: now(1))
  show ?thesis
    unfolding poll_completion[OF peek] recv_completion_eq[OF q(1,2,4,3)] h bind
      datagram_handler[OF q(1,2,3,5) b d(1) ok d(2)]
    by (simp add: Let_def now(1))
qed

section \<open>Concrete completions\<close>

text \<open>A ring with one item, number 0, and a kernel that reports one completion.\<close>

definition one_item :: "work_type \<Rightarrow> callback \<Rightarrow> isocket \<Rightarrow> uring" where
  "one_item t cb s = (IOUring_new \<lparr>ring_addr = 0, ring_entries = 0, bgid = 0, reg_flags = 0\<rparr> 64)\<lparr>
     m_initialized := True, buffer_base := 36864,
     m_pool := \<lparr>heap = [(WorkItem_new zero_item 0 [] s)\<lparr>m_work_type := t, m_callback := cb\<rparr>],
                m_work_items = [Some 0], m_free_ids = []\<rparr>\<rparr>"

definition reporting :: "int \<Rightarrow> 32 word \<Rightarrow> env" where
  "reporting res flags = quiet_env\<lparr>e_peek_cqe :=
     (\<lambda>_. (0, \<lparr>cqe_user_data = 0, cqe_res = res, cqe_flags = flags\<rparr>))\<rparr>"

lemma one_item_inv: "callback_fits t cb \<Longrightarrow> pool_inv (m_pool (one_item t cb s))"
  using item_inv_new[of zero_item 0 "[]" s]
  by (auto simp: one_item_def pool_inv_def lookup_def deref_def item_inv_def)

lemma one_item_simps [simp]:
  "lookup (m_pool (one_item t cb s)) 0 = Some 0"
  "m_work_type (deref (m_pool (one_item t cb s)) 0) = t"
  "m_callback (deref (m_pool (one_item t cb s)) 0) = cb"
  "m_socket (deref (m_pool (one_item t cb s)) 0) = s"
  "length (heap (m_pool (one_item t cb s))) = 1"
  "length (m_work_items (m_pool (one_item t cb s))) = 1"
  "trace (one_item t cb s) = []"
  "buf_shift (one_item t cb s) = 12" "buffer_base (one_item t cb s) = 36864"
  by (simp_all add: one_item_def lookup_def deref_def IOUring_new_def BUF_SHIFT_def)

lemma reporting_simps [simp]:
  "e_peek_cqe (reporting res flags) tr = (0, \<lparr>cqe_user_data = 0, cqe_res = res, cqe_flags = flags\<rparr>)"
  "env_ok (reporting res flags)"
  "e_get_sqe (reporting res flags) = e_get_sqe quiet_env"
  "e_accept_memory (reporting res flags) = e_accept_memory quiet_env"
  "e_recvmsg_validate (reporting res flags) = e_recvmsg_validate quiet_env"
  by (simp_all add: reporting_def env_ok_def)

definition udp_socket :: isocket where
  "udp_socket = ISocket_new IPV4_UDP 319 MULTICAST_PACKET_SOCKET 5"

definition tcp_socket :: isocket where
  "tcp_socket = ISocket_new IPV4_TCP 80 SERVER_STREAM_SOCKET 5"

lemma socket_kinds [simp]:
  "is_stream tcp_socket" "\<not> is_stream udp_socket" "get_fd tcp_socket = 5" "get_fd udp_socket = 5"
  by (simp_all add: is_stream_def tcp_socket_def udp_socket_def ISocket_new_def get_fd_def)

theorem request_completes_once_witness:
  "\<exists>st'. poll_completion_queues (reporting 3 0) (invoke (reporting 3 0) idle_client)
       (one_item SEND_STREAM_DATA (Send_cb (Some 7)) tcp_socket) = Inr (st', OK) \<and>
     callbacks (trace st') = [(7, SendResult 3)] \<and> next_id (m_pool st') = 0"
proof -
  let ?st = "one_item SEND_STREAM_DATA (Send_cb (Some 7)) tcp_socket"
  let ?c = "\<lparr>cqe_user_data = 0, cqe_res = 3, cqe_flags = 0\<rparr>"
  have "pool_inv (m_pool ?st)" by (simp add: one_item_inv)
  from request_completes_once[of "reporting 3 0" ?st ?c 0 7 "SendResult 3" idle_client, OF _ this]
  show ?thesis by (simp add: errno_defs completes_once_def) (metis)
qed

theorem failed_request_is_dropped_witness:
  "\<exists>st'. poll_completion_queues (reporting (-111) 0) (invoke (reporting (-111) 0) idle_client)
       (one_item CONNECT (Connect_cb (Some 7)) tcp_socket) = Inr (st', OK) \<and> callbacks (trace st') = []"
proof -
  let ?st = "one_item CONNECT (Connect_cb (Some 7)) tcp_socket"
  let ?c = "\<lparr>cqe_user_data = 0, cqe_res = -111, cqe_flags = 0\<rparr>"
  have "pool_inv (m_pool ?st)" by (simp add: one_item_inv)
  from failed_request_is_dropped[of ?st "reporting (-111) 0" ?c 0 idle_client, OF this]
  show ?thesis by (auto simp: errno_defs)
qed

text \<open>A submission on that ring goes through.\<close>

lemma submit_one_item:
  "prepare (buffer_size st) (deref (m_pool st) 0) = Inr (wi, p, fl) \<Longrightarrow> 0 < length (heap (m_pool st)) \<Longrightarrow>
     e_get_sqe env = e_get_sqe quiet_env \<Longrightarrow>
     \<exists>st'. submit_item_at (submit env (buffer_size st)) 0 st = Inr st'"
  by (simp add: submit_item_at_def submit_at_def submit_def get_sqe_def try_get_sqe_def split_beta Let_def)

theorem accept_keeps_accepting_witness:
  "\<exists>st' e. poll_completion_queues (reporting (-24) 0) (invoke (reporting (-24) 0) idle_client)
       (one_item ACCEPT (Accept_cb (Some 7)) tcp_socket) = Inr (st', OK) \<and>
     sqes (trace st') = [e] \<and> sqe_prep e = Prep_accept 5 0 0"
proof -
  let ?st = "one_item ACCEPT (Accept_cb (Some 7)) tcp_socket" and ?env = "reporting (-24) 0"
  let ?c = "\<lparr>cqe_user_data = 0, cqe_res = -24, cqe_flags = 0\<rparr>"
  let ?aw = "accept_written ?env 0 (log_ev (Ev_cqe ?c) ?st)"
  have inv: "pool_inv (m_pool ?st)" by (simp add: one_item_inv)
  have aw: "m_work_type (deref (m_pool ?aw) 0) = ACCEPT" "length (heap (m_pool ?aw)) = 1"
    by (simp_all add: accept_written_def update_item_def)
  have "\<exists>st2. submit_item_at (submit ?env (buffer_size ?aw)) 0 ?aw = Inr st2"
    using aw by (intro submit_one_item) (auto simp: prepare_def Let_def)
  then obtain st2 where s2: "submit_item_at (submit ?env (buffer_size ?aw)) 0 ?aw = Inr st2" by blast
  have "get_work_item (m_pool ?st) 0 = Inr (Some 0)" using get_work_item_eq[OF inv, of 0] by simp
  then have run: "poll_completion_queues ?env (invoke ?env idle_client) ?st = Inr (log_ev (Ev_cq_advance 1) st2, OK)"
    using s2 by (simp add: poll_completion_queues_def call_callback_and_free_work_item_id_def
        call_accept_callback_def errno_defs)
  have "sqes (trace st2) = [e] \<longleftrightarrow> sqes (trace (log_ev (Ev_cq_advance 1) st2)) = [e]" for e by simp
  moreover obtain earlier e where "sqes (trace (log_ev (Ev_cq_advance 1) st2)) = earlier @ [e]"
    "sqe_prep e = Prep_accept 5 0 0"
    using accept_keeps_accepting[OF _ idle_careful inv _ _ _ run, of ?c 0] by (auto simp: errno_defs)
  moreover have "length (sqes (trace st2)) = 1"
    using s2 by (auto simp: submit_item_at_def submit_at_def split_beta accept_written_def update_item_def
        dest!: submit_projections split: if_splits)
  ultimately show ?thesis using run by (auto simp: length_Suc_conv)
qed

theorem stream_receive_order_witness:
  "\<exists>st'. poll_completion_queues (reporting 6 196609) (invoke (reporting 6 196609) idle_client)
       (one_item RECV (Recv_cb (Some 7)) tcp_socket) = Inr (st', OK) \<and>
     callbacks (trace st') =
       [(7, Received \<lparr>rm_data = 49152, rm_size = 6, rm_source_address = IPAddress_default\<rparr>)]"
proof -
  let ?st = "one_item RECV (Recv_cb (Some 7)) tcp_socket" and ?env = "reporting 6 196609"
  let ?c = "\<lparr>cqe_user_data = 0, cqe_res = 6, cqe_flags = 196609\<rparr>"
  have inv: "pool_inv (m_pool ?st)" by (simp add: one_item_inv)
  have b: "cqe_buffer ?c = 3" by (simp add: cqe_buffer_def drop_bit_eq_div)
  have g: "get_buffer ?st 3 = 49152" by (simp add: get_buffer_def push_bit_eq_mult)
  let ?m = "Received \<lparr>rm_data = 49152, rm_size = 6, rm_source_address = IPAddress_default\<rparr>"
  let ?st1 = "recycle_buffer 3 (log_ev (Ev_callback 7 ?m) (log_ev (Ev_cqe ?c) ?st))"
  have "pool_inv (m_pool ?st1)" "lookup (m_pool ?st1) 0 = Some 0" using inv by simp_all
  from release_succeeds[OF this] obtain st2 where s2: "release 0 ?st1 = Inr st2" by blast
  have "trace st2 = trace ?st1" using s2 by (auto simp: release_def)
  then show ?thesis
    using stream_receive_order[OF inv, of ?env ?c 0 7 idle_client] s2
    by (auto simp: b g item_is_stream_def after_receive_def errno_defs)
qed

theorem receive_errors_witness:
  "poll_completion_queues (reporting (-4) 0) (invoke (reporting (-4) 0) idle_client)
     (one_item RECV (Recv_cb (Some 7)) tcp_socket) = Inl Aborted"
  using receive_errors[OF one_item_inv[of RECV "Recv_cb (Some 7)" tcp_socket],
      of "reporting (-4) 0" "\<lparr>cqe_user_data = 0, cqe_res = -4, cqe_flags = 0\<rparr>" 0 idle_client]
  by (simp add: errno_defs)

text \<open>The end of a stream: the kernel names no buffer.\<close>

lemma end_of_stream_run:
  "\<exists>st'. poll_completion_queues (reporting 0 0) (invoke (reporting 0 0) idle_client)
       (one_item RECV (Recv_cb (Some 7)) tcp_socket) = Inr (st', OK)"
proof -
  let ?st = "one_item RECV (Recv_cb (Some 7)) tcp_socket" and ?env = "reporting 0 0"
  let ?c = "\<lparr>cqe_user_data = 0, cqe_res = 0, cqe_flags = 0\<rparr>"
  have inv: "pool_inv (m_pool ?st)" by (simp add: one_item_inv)
  have g: "get_work_item (m_pool ?st) 0 = Inr (Some 0)" using get_work_item_eq[OF inv, of 0] by simp
  obtain st1 where run: "call_recv_callback ?env (invoke ?env idle_client) 0 ?c (log_ev (Ev_cqe ?c) ?st) = Inr (st1, NONE)"
    "m_pool st1 = m_pool ?st"
    by (simp add: call_recv_callback_def Let_def item_is_stream_def call_recv_handler_stream_def
        item_call_recv_callback_def call_func_def)
  from run(2) release_succeeds[of st1 0 0] inv obtain st2 where "release 0 st1 = Inr st2" by auto
  with run(1) g show ?thesis
    by (simp add: poll_completion_queues_def call_callback_and_free_work_item_id_def errno_defs)
qed

theorem poll_buffer_count_witness:
  "\<exists>st'. poll_completion_queues (reporting 0 0) (invoke (reporting 0 0) idle_client)
       (one_item RECV (Recv_cb (Some 7)) tcp_socket) = Inr (st', OK) \<and>
     int (count_list (given_ids (trace st')) 0) - int (count_list (taken (trace st')) 0) =
     int (count_list (given_ids []) 0) - int (count_list (taken []) 0) + 1"
proof -
  let ?st = "one_item RECV (Recv_cb (Some 7)) tcp_socket"
  obtain st' where r: "poll_completion_queues (reporting 0 0) (invoke (reporting 0 0) idle_client) ?st = Inr (st', OK)"
    using end_of_stream_run by blast
  from poll_buffer_count[OF reporting_simps(2) one_item_inv reporting_simps(1) r, of 0] r
  show ?thesis by (simp add: gives_back_def cqe_buffer_def)
qed

theorem completion_of_unknown_identifier_witness:
  "poll_completion_queues (quiet_env\<lparr>e_peek_cqe := (\<lambda>_. (0, \<lparr>cqe_user_data = 1, cqe_res = 0, cqe_flags = 0\<rparr>))\<rparr>)
     (invoke (quiet_env\<lparr>e_peek_cqe := (\<lambda>_. (0, \<lparr>cqe_user_data = 1, cqe_res = 0, cqe_flags = 0\<rparr>))\<rparr>) idle_client)
     (one_item RECV (Recv_cb (Some 7)) tcp_socket) = Inl Undefined_behaviour"
proof -
  have "lookup (m_pool (one_item RECV (Recv_cb (Some 7)) tcp_socket)) 1 = None" by (simp add: lookup_def)
  then show ?thesis
    using completion_of_unknown_identifier[OF one_item_inv[of RECV "Recv_cb (Some 7)" tcp_socket],
        of "quiet_env\<lparr>e_peek_cqe := (\<lambda>_. (0, \<lparr>cqe_user_data = 1, cqe_res = 0, cqe_flags = 0\<rparr>))\<rparr>"
           "\<lparr>cqe_user_data = 1, cqe_res = 0, cqe_flags = 0\<rparr>" idle_client]
    by simp
qed

theorem bad_datagram_is_dropped_witness:
  "\<exists>st' e. poll_completion_queues (reporting 9 196611) (invoke (reporting 9 196611) idle_client)
       (one_item RECV (Recv_cb (Some 7)) udp_socket) = Inr (st', OK) \<and> callbacks (trace st') = [] \<and>
     given_ids (trace st') = [3] \<and> sqes (trace st') = [e]"
proof -
  let ?st = "one_item RECV (Recv_cb (Some 7)) udp_socket" and ?env = "reporting 9 196611"
  let ?c = "\<lparr>cqe_user_data = 0, cqe_res = 9, cqe_flags = 196611\<rparr>"
  let ?r = "recycle_buffer (cqe_buffer ?c) (log_ev (Ev_cqe ?c) ?st)"
  have inv: "pool_inv (m_pool ?st)" by (simp add: one_item_inv)
  have b: "cqe_buffer ?c = 3" by (simp add: cqe_buffer_def drop_bit_eq_div)
  have s: "buffer_size ?st = buffer_size ?r" by (simp add: buffer_size_def)
  have "\<exists>st2. submit_item_at (submit ?env (buffer_size ?r)) 0 ?r = Inr st2"
    by (intro submit_one_item) (auto simp: prepare_def Let_def item_is_stream_def)
  then obtain st2 where s2: "submit_item_at (submit ?env (buffer_size ?st)) 0 ?r = Inr st2"
    unfolding s by blast
  have fr: "callbacks (trace st2) = []" "given (trace st2) = given (trace ?r)" "length (sqes (trace st2)) = 1"
    using submit_item_at_frame[OF _ ring.overloads_keep(1) overloads_hand_over(1) s2] inv api_frame_given
    by auto
  have "given_ids (trace st2) = [3]"
    unfolding given_ids_def fr(2) using given_recycle[of "[Ev_cqe ?c]"]
    by (simp add: b given_def ring_view_def ring_empty_def)
  moreover have "IORING_CQE_F_BUFFER AND 196611 \<noteq> 0" by (simp add: IORING_CQE_F_BUFFER_def)
  then have "poll_completion_queues ?env (invoke ?env idle_client) ?st = Inr (log_ev (Ev_cq_advance 1) st2, OK)"
    using bad_datagram_is_dropped[OF inv, of ?env ?c 0 idle_client] s2
    by (simp add: item_is_stream_def quiet_env_def IORING_CQE_F_BUFFER_def)
  ultimately show ?thesis using fr by (auto simp: length_Suc_conv given_ids_def)
qed

definition example_sender :: sockaddr_in where
  "example_sender = \<lparr>sin_family = AF_INET, sin_port = 0x3F01, sin_addr = 0x0100007F, sin_zero = 0\<rparr>"

definition datagram_env :: env where
  "datagram_env = (reporting 149 196611)\<lparr>
     e_recvmsg_validate := (\<lambda>_ _ _ _. Some \<lparr>ro_namelen = 16, ro_controllen = 0, ro_payloadlen = 5, ro_flags = 0\<rparr>),
     e_recvmsg_name := (\<lambda>_ _. sockaddr_in_bytes example_sender),
     e_recvmsg_payload := (\<lambda>_ buf _. buf + 144), e_recvmsg_payload_length := (\<lambda>_ _ _ _. 5)\<rparr>"

theorem good_datagram_is_delivered_witness:
  "\<exists>st'. poll_completion_queues datagram_env (invoke datagram_env idle_client)
       (one_item RECV (Recv_cb (Some 7)) udp_socket) = Inr (st', OK) \<and>
     callbacks (trace st') = [(7, Received \<lparr>rm_data = 49296, rm_size = 5,
       rm_source_address = \<lparr>m_in4 = Some example_sender, m_in6 = None\<rparr>\<rparr>)]"
proof -
  let ?st = "one_item RECV (Recv_cb (Some 7)) udp_socket" and ?env = datagram_env
  let ?c = "\<lparr>cqe_user_data = 0, cqe_res = 149, cqe_flags = 196611\<rparr>"
  let ?m = "Received \<lparr>rm_data = 49296, rm_size = 5,
       rm_source_address = \<lparr>m_in4 = Some example_sender, m_in6 = None\<rparr>\<rparr>"
  have inv: "pool_inv (m_pool ?st)" by (simp add: one_item_inv)
  have b: "cqe_buffer ?c = 3" by (simp add: cqe_buffer_def drop_bit_eq_div)
  have g: "get_buffer ?st 3 = 49152" by (simp add: get_buffer_def push_bit_eq_mult)
  let ?st1 = "recycle_buffer 3 (log_ev (Ev_callback 7 ?m) (log_ev (Ev_cqe ?c) ?st))"
  have "pool_inv (m_pool ?st1)" "lookup (m_pool ?st1) 0 = Some 0" using inv by simp_all
  from release_succeeds[OF this] obtain st2 where s2: "release 0 ?st1 = Inr st2" by blast
  have "callbacks (trace st2) = [(7, ?m)]" using s2 by (auto simp: release_def recycle_buffer_def)
  moreover have n: "sockaddr_in_of_bytes (sockaddr_in_bytes example_sender) = example_sender"
    using sockaddr_in_of_bytes_append[of example_sender "[]"] by simp
  ultimately show ?thesis
    using good_datagram_is_delivered[OF inv, of ?env ?c 0 7 _ 49152
        "\<lparr>ro_namelen = 16, ro_controllen = 0, ro_payloadlen = 5, ro_flags = 0\<rparr>" idle_client, OF _ _ _ _ _ _ _ refl] s2
    by (simp add: datagram_env_def b g item_is_stream_def sizeof_defs IORING_CQE_F_BUFFER_def
        after_receive_def Let_def)
qed

end
