(* ===== verification/Entries.thy ===== *)
theory Entries
  imports Dispatch
begin

text \<open>
  The last entry that was handed to the kernel under an identifier.  Whatever the client
  and the kernel do, it asks for the operation of the item that the identifier stands for:
  a completion is dispatched by the type of the item, so this is what makes the dispatch
  right.
\<close>

section \<open>The last entry of an identifier\<close>

definition last_entry :: "event list \<Rightarrow> nat \<Rightarrow> sqe option" where
  "last_entry tr i = List.find (\<lambda>e. sqe_user_data e = i) (rev (sqes tr))"

lemma find_append:
  "List.find P (xs @ ys) = (case List.find P xs of None \<Rightarrow> List.find P ys | Some x \<Rightarrow> Some x)"
  by (induction xs) simp_all

lemma find_distinct:
  "distinct (map f xs) \<Longrightarrow> x \<in> set xs \<Longrightarrow> List.find (\<lambda>y. f y = f x) xs = Some x"
  by (induction xs) force+

lemma last_entry_unchanged: "sqes tr' = sqes tr \<Longrightarrow> last_entry tr' = last_entry tr"
  by (simp add: last_entry_def fun_eq_iff)

lemma last_entry_new:
  assumes "sqes tr' = sqes tr @ es" and "distinct (map sqe_user_data es)" and "e \<in> set es"
  shows "last_entry tr' (sqe_user_data e) = Some e"
  using find_distinct[of sqe_user_data "rev es" e] assms
  by (simp add: last_entry_def find_append rev_map[symmetric])

lemma last_entry_old:
  assumes "sqes tr' = sqes tr @ es" and "i \<notin> sqe_user_data ` set es"
  shows "last_entry tr' i = last_entry tr i"
proof -
  have "List.find (\<lambda>e. sqe_user_data e = i) (rev es) = None"
    using assms(2) by (auto simp: find_None_iff)
  then show ?thesis using assms(1) by (simp add: last_entry_def find_append)
qed

section \<open>Entries fit items\<close>

definition entries_fit :: "uring \<Rightarrow> bool" where
  "entries_fit st \<longleftrightarrow> (\<forall>i t cb. request_of st i = Some (t, cb) \<longrightarrow>
     (\<exists>e. last_entry (trace st) i = Some e \<and> entry_fits t e))"

lemma entries_fitD:
  "entries_fit st \<Longrightarrow> request_of st i = Some (t, cb) \<Longrightarrow>
     \<exists>e. last_entry (trace st) i = Some e \<and> entry_fits t e"
  unfolding entries_fit_def by blast

lemma entries_fit_shrinks:
  assumes "entries_fit st" and "sqes (trace st') = sqes (trace st)"
    and "\<And>i r. request_of st' i = Some r \<Longrightarrow> request_of st i = Some r"
  shows "entries_fit st'"
proof -
  have "last_entry (trace st') = last_entry (trace st)" by (rule last_entry_unchanged[OF assms(2)])
  with assms(1,3) show ?thesis unfolding entries_fit_def by metis
qed

lemma starts_entries:
  assumes fit: "entries_fit st" and s: "starts st st'"
  shows "entries_fit st'"
  unfolding entries_fit_def
proof (intro allI impI)
  fix i t cb assume q: "request_of st' i = Some (t, cb)"
  from s obtain es where es: "starts_by es st st'" unfolding starts_def ..
  note S = es[unfolded starts_by_def]
  show "\<exists>e. last_entry (trace st') i = Some e \<and> entry_fits t e"
  proof (cases "i \<in> sqe_user_data ` set es")
    case True
    then obtain e where e: "e \<in> set es" "i = sqe_user_data e" by blast
    with S q have "entry_fits t e" by auto
    with e S last_entry_new[of "trace st'" "trace st" es e] show ?thesis by blast
  next
    case False
    with S q have "request_of st i = Some (t, cb)" by simp
    moreover have "last_entry (trace st') i = last_entry (trace st) i"
      by (rule last_entry_old[OF _ False]) (use S in blast)
    ultimately show ?thesis using entries_fitD[OF fit] by metis
  qed
qed

lemma release_entries:
  assumes "entries_fit st" and inv: "pool_inv (m_pool st)" and l: "lookup (m_pool st) wid = Some a"
    and r: "release wid st = Inr st'"
  shows "entries_fit st'"
  using release_frame[OF inv l r]
  by (intro entries_fit_shrinks[OF assms(1)]) (auto split: if_splits)

lemma resubmit_entries:
  assumes fit: "entries_fit st" and inv: "pool_inv (m_pool st)" and l: "lookup (m_pool st) wid = Some a"
    and r: "submit_item_at (submit env (buffer_size st)) a st = Inr st'"
  shows "entries_fit st'"
  unfolding entries_fit_def
proof (intro allI impI)
  fix i t cb assume q: "request_of st' i = Some (t, cb)"
  note R = resubmit_frame[OF inv l r]
  then obtain p fl where
    p: "prepare (buffer_size st) (deref (m_pool st) a) = Inr (deref (m_pool st') a, p, fl)" and
    s: "sqes (trace st') = sqes (trace st) @
      [\<lparr>sqe_user_data = wid, sqe_prep = p, sqe_flags = fl, sqe_buf_group = 0\<rparr>]"
    by blast
  show "\<exists>e. last_entry (trace st') i = Some e \<and> entry_fits t e"
  proof (cases "i = wid")
    case True
    let ?e = "\<lparr>sqe_user_data = wid, sqe_prep = p, sqe_flags = fl, sqe_buf_group = 0\<rparr>"
    have "lookup (m_pool st') wid = Some a" using R l by simp
    with q True have t: "m_work_type (deref (m_pool st') a) = t"
      by (simp add: request_of_def split: if_splits)
    have "entry_fits t ?e" unfolding t[symmetric] by (rule conjunct1[OF prepare_fits[OF p]])
    moreover have "last_entry (trace st') wid = Some ?e" using last_entry_new[OF s, of ?e] by simp
    ultimately show ?thesis using True by blast
  next
    case False
    have "request_of st i = Some (t, cb)" using q R by simp
    moreover have "last_entry (trace st') i = last_entry (trace st) i"
      by (rule last_entry_old[OF s]) (use False in simp)
    ultimately show ?thesis using entries_fitD[OF fit] by metis
  qed
qed

context careful_runner
begin

lemma completion_entries:
  assumes env: "env_ok env" and inv: "pool_inv (m_pool st)" and fit: "entries_fit st"
    and run: "call_callback_and_free_work_item_id env cbs c st = Inr st'"
  shows "entries_fit st'"
proof (cases "\<exists>a. lookup (m_pool st) (cqe_user_data c) = Some a \<and> cqe_res c \<noteq> - ENOBUFS")
  case False
  then have "st' = st"
    using run get_work_item_eq[OF inv, of "cqe_user_data c"]
    by (cases "lookup (m_pool st) (cqe_user_data c)")
      (auto simp: call_callback_and_free_work_item_id_def Let_def split: if_splits)
  with fit show ?thesis by simp
next
  case True
  then obtain a where l: "lookup (m_pool st) (cqe_user_data c) = Some a" and nb: "cqe_res c \<noteq> - ENOBUFS"
    by blast
  note a = pool_invD(1)[OF inv l]
  from completion_shape[OF inv l nb run] obtain s0 s1 s2 where
    s: "pre_step a st s0" "runs_at_most_one cbs s0 s1" "post_step a s1 s2" and
    f: "finishes env (cqe_user_data c) a s2 st'" by blast
  have B: "pool_inv (m_pool s2)" "run_frame st s2" "starts st s2"
    using before_last_ok[OF env inv a s] before_last_starts[OF env inv a s] by simp_all
  then have l2: "lookup (m_pool s2) (cqe_user_data c) = Some a"
    using l by (simp add: run_frame_def pool_grows_def)
  from starts_entries[OF fit B(3)] B(1) f release_entries[OF _ _ l2] resubmit_entries[OF _ _ l2]
  show ?thesis unfolding finishes_def by blast
qed

lemma poll_entries:
  assumes env: "env_ok env" and inv: "pool_inv (m_pool st)" and fit: "entries_fit st"
    and run: "poll_completion_queues env cbs st = Inr (st', err)"
  shows "entries_fit st'"
proof -
  have log: "entries_fit (log_ev e s)" if "entries_fit s" "\<forall>q. e \<noteq> Ev_sqe q" for e s
    by (rule entries_fit_shrinks[OF that(1)]) (use that(2) in \<open>auto split: event.split\<close>)
  from run consider st1 c where
      "call_callback_and_free_work_item_id env cbs c (log_ev (Ev_cqe c) st) = Inr st1"
      "st' = log_ev (Ev_cq_advance 1) st1"
    | "st' = log_ev Ev_no_cqe st"
    by (auto simp: poll_completion_queues_def split_beta split: if_splits)
  then show ?thesis
  proof cases
    case 1
    have "entries_fit (log_ev (Ev_cqe c) st)" "pool_inv (m_pool (log_ev (Ev_cqe c) st))"
      using fit inv log by simp_all
    from completion_entries[OF env this(2,1) 1(1)] log 1(2) show ?thesis by simp
  qed (use fit log in simp)
qed

end

end
