(* ===== verification/Init.thy ===== *)
theory Init
  imports BufferPool
begin

text \<open>
  \<^verbatim>\<open>IOUring::init\<close> with \<^verbatim>\<open>init_ring\<close> and \<^verbatim>\<open>probe_features\<close> (\<^verbatim>\<open>src/IOUring.cpp\<close>), and the
  probe itself, \<^verbatim>\<open>src/ProbeUringFeatures.hpp\<close>.  The repository is modelled as it is built by
  default, without \<^verbatim>\<open>SUPPORT_LISTEN_IN_LIBURING\<close>.
\<close>

section \<open>Features\<close>

datatype UringFeature =
    UringFeature_UNKNOWN
  | IORING_OP_NOP
  | IORING_OP_READV
  | IORING_OP_WRITEV
  | IORING_OP_FSYNC
  | IORING_OP_READ_FIXED
  | IORING_OP_WRITE_FIXED
  | IORING_OP_POLL_ADD
  | IORING_OP_POLL_REMOVE
  | IORING_OP_SYNC_FILE_RANGE
  | IORING_OP_SENDMSG
  | IORING_OP_RECVMSG
  | IORING_OP_TIMEOUT
  | IORING_OP_TIMEOUT_REMOVE
  | IORING_OP_ACCEPT
  | IORING_OP_ASYNC_CANCEL
  | IORING_OP_LINK_TIMEOUT
  | IORING_OP_CONNECT
  | IORING_OP_FALLOCATE
  | IORING_OP_OPENAT
  | IORING_OP_CLOSE
  | IORING_OP_FILES_UPDATE
  | IORING_OP_STATX
  | IORING_OP_READ
  | IORING_OP_WRITE
  | IORING_OP_FADVISE
  | IORING_OP_MADVISE
  | IORING_OP_SEND
  | IORING_OP_RECV
  | IORING_OP_OPENAT2
  | IORING_OP_EPOLL_CTL
  | IORING_OP_SPLICE
  | IORING_OP_PROVIDE_BUFFERS
  | IORING_OP_REMOVE_BUFFERS
  | IORING_OP_TEE
  | IORING_OP_SHUTDOWN
  | IORING_OP_RENAMEAT
  | IORING_OP_UNLINKAT
  | IORING_OP_MKDIRAT
  | IORING_OP_SYMLINKAT
  | IORING_OP_LINKAT

text \<open>
  The enumeration in its order, and the order that \<^verbatim>\<open>std::map<UringFeature, bool>\<close> uses.
\<close>

definition all_features :: "UringFeature list" where
  "all_features =
     [UringFeature_UNKNOWN,
      IORING_OP_NOP, IORING_OP_READV, IORING_OP_WRITEV, IORING_OP_FSYNC, IORING_OP_READ_FIXED,
      IORING_OP_WRITE_FIXED, IORING_OP_POLL_ADD, IORING_OP_POLL_REMOVE,
      IORING_OP_SYNC_FILE_RANGE, IORING_OP_SENDMSG, IORING_OP_RECVMSG, IORING_OP_TIMEOUT,
      IORING_OP_TIMEOUT_REMOVE, IORING_OP_ACCEPT, IORING_OP_ASYNC_CANCEL,
      IORING_OP_LINK_TIMEOUT, IORING_OP_CONNECT, IORING_OP_FALLOCATE, IORING_OP_OPENAT,
      IORING_OP_CLOSE, IORING_OP_FILES_UPDATE, IORING_OP_STATX, IORING_OP_READ,
      IORING_OP_WRITE, IORING_OP_FADVISE, IORING_OP_MADVISE, IORING_OP_SEND, IORING_OP_RECV,
      IORING_OP_OPENAT2, IORING_OP_EPOLL_CTL, IORING_OP_SPLICE, IORING_OP_PROVIDE_BUFFERS,
      IORING_OP_REMOVE_BUFFERS, IORING_OP_TEE, IORING_OP_SHUTDOWN, IORING_OP_RENAMEAT,
      IORING_OP_UNLINKAT, IORING_OP_MKDIRAT, IORING_OP_SYMLINKAT, IORING_OP_LINKAT]"

primrec ordinal :: "UringFeature \<Rightarrow> nat" where
  "ordinal UringFeature_UNKNOWN = 0"
| "ordinal IORING_OP_NOP = 1"
| "ordinal IORING_OP_READV = 2"
| "ordinal IORING_OP_WRITEV = 3"
| "ordinal IORING_OP_FSYNC = 4"
| "ordinal IORING_OP_READ_FIXED = 5"
| "ordinal IORING_OP_WRITE_FIXED = 6"
| "ordinal IORING_OP_POLL_ADD = 7"
| "ordinal IORING_OP_POLL_REMOVE = 8"
| "ordinal IORING_OP_SYNC_FILE_RANGE = 9"
| "ordinal IORING_OP_SENDMSG = 10"
| "ordinal IORING_OP_RECVMSG = 11"
| "ordinal IORING_OP_TIMEOUT = 12"
| "ordinal IORING_OP_TIMEOUT_REMOVE = 13"
| "ordinal IORING_OP_ACCEPT = 14"
| "ordinal IORING_OP_ASYNC_CANCEL = 15"
| "ordinal IORING_OP_LINK_TIMEOUT = 16"
| "ordinal IORING_OP_CONNECT = 17"
| "ordinal IORING_OP_FALLOCATE = 18"
| "ordinal IORING_OP_OPENAT = 19"
| "ordinal IORING_OP_CLOSE = 20"
| "ordinal IORING_OP_FILES_UPDATE = 21"
| "ordinal IORING_OP_STATX = 22"
| "ordinal IORING_OP_READ = 23"
| "ordinal IORING_OP_WRITE = 24"
| "ordinal IORING_OP_FADVISE = 25"
| "ordinal IORING_OP_MADVISE = 26"
| "ordinal IORING_OP_SEND = 27"
| "ordinal IORING_OP_RECV = 28"
| "ordinal IORING_OP_OPENAT2 = 29"
| "ordinal IORING_OP_EPOLL_CTL = 30"
| "ordinal IORING_OP_SPLICE = 31"
| "ordinal IORING_OP_PROVIDE_BUFFERS = 32"
| "ordinal IORING_OP_REMOVE_BUFFERS = 33"
| "ordinal IORING_OP_TEE = 34"
| "ordinal IORING_OP_SHUTDOWN = 35"
| "ordinal IORING_OP_RENAMEAT = 36"
| "ordinal IORING_OP_UNLINKAT = 37"
| "ordinal IORING_OP_MKDIRAT = 38"
| "ordinal IORING_OP_SYMLINKAT = 39"
| "ordinal IORING_OP_LINKAT = 40"

lemma nth_ordinal: "all_features ! ordinal f = f"
  by (cases f) (simp_all add: all_features_def)

lemma ordinal_inject [simp]: "ordinal f = ordinal g \<longleftrightarrow> f = g"
  by (metis nth_ordinal)

instantiation UringFeature :: linorder
begin

definition less_eq_UringFeature :: "UringFeature \<Rightarrow> UringFeature \<Rightarrow> bool" where
  "less_eq_UringFeature f g \<longleftrightarrow> ordinal f \<le> ordinal g"

definition less_UringFeature :: "UringFeature \<Rightarrow> UringFeature \<Rightarrow> bool" where
  "less_UringFeature f g \<longleftrightarrow> ordinal f < ordinal g"

instance
  by standard (auto simp: less_eq_UringFeature_def less_UringFeature_def)

end

text \<open>
  The \<^verbatim>\<open>switch\<close> over the operation numbers of \<^verbatim>\<open>linux/io_uring.h\<close>, where the cases
  \<^verbatim>\<open>IORING_OP_NOP\<close>, \<^verbatim>\<open>IORING_OP_READV\<close>, ... have the numbers 0, 1, ...
\<close>

definition convert_uring_op_to_feature :: "int \<Rightarrow> UringFeature" where
  "convert_uring_op_to_feature op =
     (if op = 0 then IORING_OP_NOP
     else if op = 1 then IORING_OP_READV
     else if op = 2 then IORING_OP_WRITEV
     else if op = 3 then IORING_OP_FSYNC
     else if op = 4 then IORING_OP_READ_FIXED
     else if op = 5 then IORING_OP_WRITE_FIXED
     else if op = 6 then IORING_OP_POLL_ADD
     else if op = 7 then IORING_OP_POLL_REMOVE
     else if op = 8 then IORING_OP_SYNC_FILE_RANGE
     else if op = 9 then IORING_OP_SENDMSG
     else if op = 10 then IORING_OP_RECVMSG
     else if op = 11 then IORING_OP_TIMEOUT
     else if op = 12 then IORING_OP_TIMEOUT_REMOVE
     else if op = 13 then IORING_OP_ACCEPT
     else if op = 14 then IORING_OP_ASYNC_CANCEL
     else if op = 15 then IORING_OP_LINK_TIMEOUT
     else if op = 16 then IORING_OP_CONNECT
     else if op = 17 then IORING_OP_FALLOCATE
     else if op = 18 then IORING_OP_OPENAT
     else if op = 19 then IORING_OP_CLOSE
     else if op = 20 then IORING_OP_FILES_UPDATE
     else if op = 21 then IORING_OP_STATX
     else if op = 22 then IORING_OP_READ
     else if op = 23 then IORING_OP_WRITE
     else if op = 24 then IORING_OP_FADVISE
     else if op = 25 then IORING_OP_MADVISE
     else if op = 26 then IORING_OP_SEND
     else if op = 27 then IORING_OP_RECV
     else if op = 28 then IORING_OP_OPENAT2
     else if op = 29 then IORING_OP_EPOLL_CTL
     else if op = 30 then IORING_OP_SPLICE
     else if op = 31 then IORING_OP_PROVIDE_BUFFERS
     else if op = 32 then IORING_OP_REMOVE_BUFFERS
     else if op = 33 then IORING_OP_TEE
     else if op = 34 then IORING_OP_SHUTDOWN
     else if op = 35 then IORING_OP_RENAMEAT
     else if op = 36 then IORING_OP_UNLINKAT
     else if op = 37 then IORING_OP_MKDIRAT
     else if op = 38 then IORING_OP_SYMLINKAT
     else if op = 39 then IORING_OP_LINKAT
      else UringFeature_UNKNOWN)"

section \<open>The probe\<close>

definition IO_URING_OP_SUPPORTED :: "16 word" where "IO_URING_OP_SUPPORTED = 1"

text \<open>The map \<^verbatim>\<open>m_features\<close> after the loop of the constructor over the entries of the probe.\<close>

type_synonym features = "UringFeature \<Rightarrow> bool option"

definition probe_entry :: "int \<times> 16 word \<Rightarrow> features \<Rightarrow> features" where
  "probe_entry e m_features =
     (let (op, flags) = e in
      if flags AND IO_URING_OP_SUPPORTED = 0 then m_features
      else m_features(convert_uring_op_to_feature op \<mapsto> True))"

definition ProbeUringFeatures_new :: "(int \<times> 16 word) list option \<Rightarrow> features res" where
  "ProbeUringFeatures_new m_probe =
     (case m_probe of
        None \<Rightarrow> Inl Aborted
      | Some ops \<Rightarrow> Inr (fold probe_entry ops Map.empty))"

definition supports :: "features \<Rightarrow> UringFeature \<Rightarrow> bool" where
  "supports m_features f \<longleftrightarrow> m_features f \<noteq> None"

section \<open>Initialisation\<close>

definition init_ring :: "env \<Rightarrow> uring \<Rightarrow> uring res" where
  "init_ring env st =
     (let ret = e_queue_init env (trace st);
          st = log_ev (Ev_queue_init (m_queue_size st) ret) st
      in if ret \<noteq> 0 then Inl Aborted else Inr (log_ev Ev_ring_dontfork st))"

definition probe_features :: "env \<Rightarrow> uring \<Rightarrow> uring res" where
  "probe_features env st =
     bindE (ProbeUringFeatures_new (e_probe env (trace st))) (\<lambda>probe.
     bindE (assertE (supports probe IORING_OP_ACCEPT)) (\<lambda>_.
     bindE (assertE (supports probe IORING_OP_RECV)) (\<lambda>_.
     bindE (assertE (supports probe IORING_OP_RECVMSG)) (\<lambda>_.
     bindE (assertE (supports probe IORING_OP_SEND)) (\<lambda>_.
     bindE (assertE (supports probe IORING_OP_SENDMSG)) (\<lambda>_.
     bindE (assertE (supports probe IORING_OP_CLOSE)) (\<lambda>_.
     bindE (assertE (supports probe IORING_OP_CONNECT)) (\<lambda>_.
       Inr (log_ev Ev_probe st)))))))))"

text \<open>\<^verbatim>\<open>init\<close> marks the ring as initialised whatever \<^verbatim>\<open>setup_buffer_pool\<close> returns.\<close>

definition IOUring_init :: "env \<Rightarrow> uring \<Rightarrow> (uring \<times> error_code) res" where
  "IOUring_init env st =
     bindE (init_ring env st) (\<lambda>st.
     bindE (probe_features env st) (\<lambda>st.
       let (st, ret) = setup_buffer_pool env st
       in Inr (st\<lparr>m_initialized := True\<rparr>, ret)))"

section \<open>What initialisation leaves alone\<close>

lemma add_events_silent [simp]:
  "sqes (map (\<lambda>i. Ev_buf_ring_add (f i) l i n i) is) = []"
  "cqes (map (\<lambda>i. Ev_buf_ring_add (f i) l i n i) is) = []"
  "callbacks (map (\<lambda>i. Ev_buf_ring_add (f i) l i n i) is) = []"
  by (induction "is") simp_all

lemma setup_buffer_pool_silent:
  assumes "setup_buffer_pool env st = (st', r)"
  shows "m_pool st' = m_pool st \<and> buf_shift st' = buf_shift st \<and> sqes (trace st') = sqes (trace st) \<and>
     cqes (trace st') = cqes (trace st) \<and> callbacks (trace st') = callbacks (trace st)"
proof (cases "e_mmap env (trace st)")
  case None
  with assms show ?thesis by (auto simp: setup_buffer_pool_def)
next
  case (Some addr)
  with assms show ?thesis
    unfolding setup_buffer_pool_def Let_def fold_push_send_id fold_add_buffer
    by (auto split: if_splits)
qed

lemma init_silent:
  assumes "IOUring_init env st = Inr (st', r)"
  shows "m_pool st' = m_pool st \<and> m_initialized st' \<and> buf_shift st' = buf_shift st \<and>
     sqes (trace st') = sqes (trace st) \<and> cqes (trace st') = cqes (trace st) \<and>
     callbacks (trace st') = callbacks (trace st)"
proof -
  from assms obtain st1 st2 st3 where 1: "init_ring env st = Inr st1" and 2: "probe_features env st1 = Inr st2"
    and 3: "setup_buffer_pool env st2 = (st3, r)" and st': "st' = st3\<lparr>m_initialized := True\<rparr>"
    by (auto simp: IOUring_init_def split_beta prod_eq_iff)
  have "st2 = log_ev Ev_probe st1" using 2 by (auto simp: probe_features_def)
  moreover have "m_pool st1 = m_pool st \<and> buf_shift st1 = buf_shift st \<and> sqes (trace st1) = sqes (trace st) \<and>
      cqes (trace st1) = cqes (trace st) \<and> callbacks (trace st1) = callbacks (trace st)"
    using 1 by (auto simp: init_ring_def Let_def split: if_splits)
  ultimately show ?thesis using setup_buffer_pool_silent[OF 3] by (simp add: st')
qed

section \<open>The features of a probe\<close>

lemma convert_known:
  assumes "0 \<le> op" and "op < 40"
  shows "ordinal (convert_uring_op_to_feature op) = nat op + 1"
proof -
  have "op \<in> set [0..39]" using assms by simp
  also have "[0..39 :: int] = [0,1,2,3,4,5,6,7,8,9,10,11,12,13,14,15,16,17,18,19,20,21,22,23,24,25,26,27,28,
      29,30,31,32,33,34,35,36,37,38,39]"
    by (simp add: upto_rec1)
  finally show ?thesis
    by (simp only: set_simps insert_iff empty_iff)
      (elim disjE FalseE; simp add: convert_uring_op_to_feature_def)
qed

lemma convert_unknown:
  "op < 0 \<or> 40 \<le> op \<Longrightarrow> convert_uring_op_to_feature op = UringFeature_UNKNOWN"
  by (auto simp: convert_uring_op_to_feature_def)

text \<open>The \<^verbatim>\<open>switch\<close> respects the order of both enumerations.\<close>

lemma convert_mono:
  "0 \<le> op \<Longrightarrow> op < op' \<Longrightarrow> op' < 40 \<Longrightarrow>
     convert_uring_op_to_feature op < convert_uring_op_to_feature op'"
  by (simp add: less_UringFeature_def convert_known)

lemma convert_eq_iff:
  assumes "f \<noteq> UringFeature_UNKNOWN"
  shows "convert_uring_op_to_feature op = f \<longleftrightarrow> 0 \<le> op \<and> op < 40 \<and> ordinal f = nat op + 1"
proof (cases "0 \<le> op \<and> op < 40")
  case True
  then show ?thesis using convert_known[of op] ordinal_inject[of "convert_uring_op_to_feature op" f] by auto
next
  case False
  then show ?thesis using convert_unknown[of op] assms by auto
qed

lemma fold_probe_entry:
  "fold probe_entry ops m f \<noteq> None \<longleftrightarrow> m f \<noteq> None \<or>
     (\<exists>(op, flags) \<in> set ops. flags AND IO_URING_OP_SUPPORTED \<noteq> 0 \<and> convert_uring_op_to_feature op = f)"
proof (induction ops arbitrary: m)
  case (Cons e ops)
  have "probe_entry e m f \<noteq> None \<longleftrightarrow> m f \<noteq> None \<or>
      (case e of (op, flags) \<Rightarrow> flags AND IO_URING_OP_SUPPORTED \<noteq> 0 \<and> convert_uring_op_to_feature op = f)"
    by (auto simp: probe_entry_def Let_def split_beta)
  with Cons show ?case by auto
qed simp

text \<open>
  After probing, a feature other than the unknown one is supported exactly when the
  kernel lists the operation with its number and sets the supported flag there; this holds
  for all forty operations of the table, whatever else the kernel lists.
\<close>

lemma supports_iff_probed:
  assumes "ProbeUringFeatures_new (Some ops) = Inr probe" and "f \<noteq> UringFeature_UNKNOWN"
  shows "supports probe f \<longleftrightarrow>
     (\<exists>(op, flags) \<in> set ops. 0 \<le> op \<and> op < 40 \<and> ordinal f = nat op + 1 \<and> flags AND IO_URING_OP_SUPPORTED \<noteq> 0)"
proof -
  have "supports probe f \<longleftrightarrow> (\<exists>(op, flags) \<in> set ops. flags AND IO_URING_OP_SUPPORTED \<noteq> 0 \<and>
      convert_uring_op_to_feature op = f)"
    using assms(1) fold_probe_entry[of ops Map.empty f] by (auto simp: ProbeUringFeatures_new_def supports_def)
  also have "\<dots> \<longleftrightarrow> (\<exists>(op, flags) \<in> set ops. 0 \<le> op \<and> op < 40 \<and> ordinal f = nat op + 1 \<and>
      flags AND IO_URING_OP_SUPPORTED \<noteq> 0)"
    using convert_eq_iff[OF assms(2)] by auto
  finally show ?thesis .
qed

section \<open>The outcome of initialisation\<close>

text \<open>The numbers of the operations in the interface of the kernel, and what a probe says of one.\<close>

definition required_ops :: "int list" where
  "required_ops = [13, 27, 10, 26, 9, 19, 16]"

definition kernel_supports :: "(int \<times> 16 word) list \<Rightarrow> int \<Rightarrow> bool" where
  "kernel_supports ops n \<longleftrightarrow> (\<exists>flags. (n, flags) \<in> set ops \<and> flags AND IO_URING_OP_SUPPORTED \<noteq> 0)"

lemma supports_kernel:
  assumes "ProbeUringFeatures_new (Some ops) = Inr probe"
  shows "supports probe IORING_OP_ACCEPT \<longleftrightarrow> kernel_supports ops 13"
    "supports probe IORING_OP_RECV \<longleftrightarrow> kernel_supports ops 27"
    "supports probe IORING_OP_RECVMSG \<longleftrightarrow> kernel_supports ops 10"
    "supports probe IORING_OP_SEND \<longleftrightarrow> kernel_supports ops 26"
    "supports probe IORING_OP_SENDMSG \<longleftrightarrow> kernel_supports ops 9"
    "supports probe IORING_OP_CLOSE \<longleftrightarrow> kernel_supports ops 19"
    "supports probe IORING_OP_CONNECT \<longleftrightarrow> kernel_supports ops 16"
proof -
  have "supports probe f \<longleftrightarrow> kernel_supports ops n"
    if "f \<noteq> UringFeature_UNKNOWN" "ordinal f = nat n + 1" "0 \<le> n" "n < 40" for f n
  proof -
    have "nat m + 1 = ordinal f \<and> 0 \<le> m \<longleftrightarrow> m = n" for m using that by auto
    then show ?thesis
      using supports_iff_probed[OF assms that(1)] that unfolding kernel_supports_def by fastforce
  qed
  from this[of IORING_OP_ACCEPT 13] this[of IORING_OP_RECV 27] this[of IORING_OP_RECVMSG 10]
    this[of IORING_OP_SEND 26] this[of IORING_OP_SENDMSG 9] this[of IORING_OP_CLOSE 19]
    this[of IORING_OP_CONNECT 16]
  show "supports probe IORING_OP_ACCEPT \<longleftrightarrow> kernel_supports ops 13"
    "supports probe IORING_OP_RECV \<longleftrightarrow> kernel_supports ops 27"
    "supports probe IORING_OP_RECVMSG \<longleftrightarrow> kernel_supports ops 10"
    "supports probe IORING_OP_SEND \<longleftrightarrow> kernel_supports ops 26"
    "supports probe IORING_OP_SENDMSG \<longleftrightarrow> kernel_supports ops 9"
    "supports probe IORING_OP_CLOSE \<longleftrightarrow> kernel_supports ops 19"
    "supports probe IORING_OP_CONNECT \<longleftrightarrow> kernel_supports ops 16"
    by simp_all
qed

lemma probe_features_iff:
  "probe_features env st = Inr st' \<longleftrightarrow> st' = log_ev Ev_probe st \<and>
     (\<exists>ops. e_probe env (trace st) = Some ops \<and> (\<forall>n \<in> set required_ops. kernel_supports ops n))"
proof (cases "e_probe env (trace st)")
  case None
  then show ?thesis by (simp add: probe_features_def ProbeUringFeatures_new_def)
next
  case (Some ops)
  obtain probe where p: "ProbeUringFeatures_new (Some ops) = Inr probe"
    by (simp add: ProbeUringFeatures_new_def)
  show ?thesis
    by (auto simp: probe_features_def Some p supports_kernel[OF p] required_ops_def)
qed

lemma failed_setup_gives_nothing:
  assumes "setup_buffer_pool env st = (st', r)" and "r \<noteq> OK"
    and "\<forall>e \<in> set (trace st). \<not> is_buf_event e"
  shows "\<forall>e \<in> set (trace st'). \<not> is_buf_event e"
  using assms by (auto simp: setup_buffer_pool_def Let_def split: option.splits if_splits)

text \<open>
  C32: Initialisation of a new ring: it returns exactly if the queues could be made and the
  kernel supports the seven operations that the library uses, and aborts otherwise.  When
  it returns, the ring counts as initialised, also if the buffers could not be set up:
  then the error is only in the result, and the kernel has no buffer.
\<close>

theorem init_outcome:
  fixes qs
  defines "t \<equiv> [Ev_queue_init qs 0, Ev_ring_dontfork]"
  shows "((\<exists>st r. IOUring_init env (IOUring_new junk qs) = Inr (st, r)) \<longleftrightarrow>
       e_queue_init env [] = 0 \<and>
       (\<exists>ops. e_probe env t = Some ops \<and> (\<forall>n \<in> set required_ops. kernel_supports ops n)))
    \<and> (\<forall>st r. IOUring_init env (IOUring_new junk qs) = Inr (st, r) \<longrightarrow>
         m_initialized st
         \<and> (r \<noteq> OK \<longrightarrow> given (trace st) = [])
         \<and> (e_mmap env (t @ [Ev_probe]) = None \<longrightarrow> r = MMAP_FAILED))"
proof -
  let ?st = "log_ev Ev_ring_dontfork (log_ev (Ev_queue_init qs 0) (IOUring_new junk qs))"
  have new: "trace (IOUring_new junk qs) = []" by (simp add: IOUring_new_def)
  then have tr: "trace ?st = t" by (simp add: t_def)
  have ring: "init_ring env (IOUring_new junk qs) = Inr st1 \<longleftrightarrow> e_queue_init env [] = 0 \<and> st1 = ?st" for st1
    by (auto simp: init_ring_def IOUring_new_def log_ev_def Let_def)
  have init: "IOUring_init env (IOUring_new junk qs) = Inr (st, r) \<longleftrightarrow>
      e_queue_init env [] = 0 \<and>
      (\<exists>ops. e_probe env t = Some ops \<and> (\<forall>n \<in> set required_ops. kernel_supports ops n)) \<and>
      (\<exists>st'. setup_buffer_pool env (log_ev Ev_probe ?st) = (st', r) \<and> st = st'\<lparr>m_initialized := True\<rparr>)" for st r
    by (auto simp: IOUring_init_def ring probe_features_iff new t_def split: prod.splits)
  have "given (trace st') = []" if "setup_buffer_pool env (log_ev Ev_probe ?st) = (st', r)" "r \<noteq> OK" for st' r
  proof -
    have "\<forall>e \<in> set (trace st'). \<not> is_buf_event e"
      by (rule failed_setup_gives_nothing[OF that]) (simp add: IOUring_new_def)
    then show ?thesis using ring_view_other[of "trace st'"] by (simp add: given_def ring_empty_def)
  qed
  moreover have "r = MMAP_FAILED"
    if "setup_buffer_pool env (log_ev Ev_probe ?st) = (st', r)" "e_mmap env (t @ [Ev_probe]) = None" for st' r
    using that tr by (auto simp: setup_buffer_pool_def Let_def)
  moreover have "\<exists>r st'. setup_buffer_pool env (log_ev Ev_probe ?st) = (st', r)"
    by (metis prod.exhaust)
  ultimately show ?thesis unfolding init by auto
qed

theorem init_outcome_witness:
  "\<exists>st. IOUring_init (quiet_env\<lparr>e_mmap := (\<lambda>_. None)\<rparr>)
        (IOUring_new \<lparr>ring_addr = 0, ring_entries = 0, bgid = 0, reg_flags = 0\<rparr> 64) = Inr (st, MMAP_FAILED)
     \<and> m_initialized st \<and> given (trace st) = []"
proof -
  let ?env = "quiet_env\<lparr>e_mmap := (\<lambda>_. None)\<rparr>"
  let ?junk = "\<lparr>ring_addr = 0, ring_entries = 0, bgid = 0, reg_flags = 0\<rparr>"
  have "(n, 1) \<in> set (map (\<lambda>i. (i, 1 :: 16 word)) [0..39])" if "n \<in> set required_ops" for n
    unfolding set_map set_upto using that by (auto simp: required_ops_def)
  then have "\<forall>n \<in> set required_ops. kernel_supports (map (\<lambda>i. (i, 1)) [0..39]) n"
    unfolding kernel_supports_def IO_URING_OP_SUPPORTED_def
    by (metis and.idem zero_neq_one)
  then obtain st r where i: "IOUring_init ?env (IOUring_new ?junk 64) = Inr (st, r)"
    using init_outcome[of ?env ?junk 64] by (auto simp: quiet_env_def simp del: upto_rec_numeral)
  with init_outcome[of ?env ?junk 64] show ?thesis by auto
qed

end
