(* ===== verification/Requests.thy ===== *)
theory Requests
  imports Entries NewRequests Init "HOL-Library.Multiset"
begin

text \<open>
  The whole program as a state machine: after \<^verbatim>\<open>init\<close>, the client calls the interface and
  polls for completions in any order.  The requests that the kernel holds are read off
  the trace: the entries handed over minus the completions taken.  Shown here: every
  completion finds the item, with the callback that fits it, under whose identifier its
  request was submitted; and which items are left over.
\<close>

section \<open>Requests in flight\<close>

definition handed_over :: "event list \<Rightarrow> nat multiset" where
  "handed_over tr = mset (map sqe_user_data (sqes tr))"

text \<open>
  A completion with the flag \<^verbatim>\<open>IORING_CQE_F_MORE\<close> does not end its request: the kernel keeps
  a multishot receive active and reports further completions for it.
\<close>

definition ends_request :: "cqe \<Rightarrow> bool" where
  "ends_request c \<longleftrightarrow> cqe_flags c AND IORING_CQE_F_MORE = 0"

definition completed :: "event list \<Rightarrow> nat multiset" where
  "completed tr = mset (map cqe_user_data (List.filter ends_request (cqes tr)))"

definition in_flight :: "event list \<Rightarrow> nat multiset" where
  "in_flight tr = handed_over tr - completed tr"

text \<open>
  What \<^verbatim>\<open>io_uring(7)\<close> promises: a completion belongs to a request that was submitted and has
  not ended yet.
\<close>

definition kernel_ok :: "env \<Rightarrow> bool" where
  "kernel_ok env \<longleftrightarrow> (\<forall>tr c. e_peek_cqe env tr = (0, c) \<longrightarrow> cqe_user_data c \<in># in_flight tr)"

text \<open>
  A kernel that ends a request with its first completion.  This is so for all requests but
  the receive of datagrams, which is multishot; \<open>more_leaves_request\<close> shows what the flag
  does to the program.
\<close>

definition single_shot :: "env \<Rightarrow> bool" where
  "single_shot env \<longleftrightarrow> (\<forall>tr. ends_request (snd (e_peek_cqe env tr)))"

text \<open>
  Requests in flight belong to live items, at most one to an item.  \<open>hole\<close> is an identifier
  whose request has just completed and whose item is still in the table.
\<close>

definition flight_inv :: "nat set \<Rightarrow> uring \<Rightarrow> bool" where
  "flight_inv hole st \<longleftrightarrow> pool_inv (m_pool st) \<and> completed (trace st) \<subseteq># handed_over (trace st) \<and>
     (\<forall>i. count (in_flight (trace st)) i \<le> (if request_of st i = None \<or> i \<in> hole then 0 else 1))"

text \<open>The same with nothing left over: every submitted item has a request in flight.\<close>

definition exact :: "nat set \<Rightarrow> uring \<Rightarrow> bool" where
  "exact hole st \<longleftrightarrow>
     (\<forall>i. count (in_flight (trace st)) i = (if request_of st i = None \<or> i \<in> hole then 0 else 1))"

lemma flight_inv_pool: "flight_inv hole st \<Longrightarrow> pool_inv (m_pool st)"
  by (simp add: flight_inv_def)

lemma flight_inv_le:
  "flight_inv hole st \<Longrightarrow>
     count (in_flight (trace st)) i \<le> (if request_of st i = None \<or> i \<in> hole then 0 else 1)"
  by (simp add: flight_inv_def)

lemma in_flight_once:
  assumes "flight_inv {} st" and "i \<in># in_flight (trace st)"
  shows "count (in_flight (trace st)) i = 1"
proof -
  have "0 < count (in_flight (trace st)) i" using assms(2) by (simp only: count_greater_zero_iff)
  moreover have "count (in_flight (trace st)) i \<le> 1" by (rule order_trans[OF flight_inv_le[OF assms(1)]]) simp
  ultimately show ?thesis by linarith
qed

lemma flight_inv_no_hole: "flight_inv hole st \<Longrightarrow> flight_inv {} st"
  unfolding flight_inv_def
proof (elim conjE, intro conjI allI)
  fix i
  assume "\<forall>i. count (in_flight (trace st)) i \<le> (if request_of st i = None \<or> i \<in> hole then 0 else 1)"
  then have "count (in_flight (trace st)) i \<le> (if request_of st i = None \<or> i \<in> hole then 0 else 1)" ..
  then show "count (in_flight (trace st)) i \<le> (if request_of st i = None \<or> i \<in> {} then 0 else 1)"
    by (cases "request_of st i"; cases "i \<in> hole") simp_all
qed

lemma in_flight_grows:
  assumes "completed (trace st) \<subseteq># handed_over (trace st)"
    and "map sqe_user_data (sqes (trace st')) = map sqe_user_data (sqes (trace st)) @ I"
    and "cqes (trace st') = cqes (trace st)"
  shows "in_flight (trace st') = in_flight (trace st) + mset I"
    "completed (trace st') \<subseteq># handed_over (trace st')"
proof -
  have "handed_over (trace st') = handed_over (trace st) + mset I"
    "completed (trace st') = completed (trace st)"
    using assms(2,3) by (simp_all add: handed_over_def completed_def)
  with assms(1) show "in_flight (trace st') = in_flight (trace st) + mset I"
    "completed (trace st') \<subseteq># handed_over (trace st')"
    by (simp_all add: in_flight_def subset_mset.add_diff_assoc2 subset_mset.add_increasing2)
qed

text \<open>Starting requests keeps the invariant.\<close>

lemma starts_flight:
  assumes inv: "flight_inv hole st" and s: "starts st st'" and p: "pool_inv (m_pool st')"
    and c: "cqes (trace st') = cqes (trace st)" and h: "\<forall>i \<in> hole. request_of st i \<noteq> None"
  shows "flight_inv hole st' \<and> (exact hole st \<longrightarrow> exact hole st') \<and> (\<forall>i \<in> hole. request_of st' i \<noteq> None)"
proof -
  from s obtain I where I: "distinct I"
    "\<forall>i \<in> set I. request_of st i = None \<and> request_of st' i \<noteq> None"
    "\<forall>i. i \<notin> set I \<longrightarrow> request_of st' i = request_of st i"
    "map sqe_user_data (sqes (trace st')) = map sqe_user_data (sqes (trace st)) @ I"
    using starts_ids by blast
  have sub: "completed (trace st) \<subseteq># handed_over (trace st)" using inv by (simp add: flight_inv_def)
  note f = in_flight_grows[OF sub I(4) c]
  have new: "count (in_flight (trace st')) i = count (in_flight (trace st)) i + (if i \<in> set I then 1 else 0)" for i
    using I(1) by (simp add: f(1) distinct_count_atmost_1[THEN iffD1])
  have z: "i \<notin> hole" "count (in_flight (trace st)) i = 0" if "i \<in> set I" for i
    using I(2) h inv that
    by (auto simp: flight_inv_def count_eq_zero_iff split: if_splits dest!: spec[of _ i])
  have "count (in_flight (trace st')) i \<le> (if request_of st' i = None \<or> i \<in> hole then 0 else 1)" for i
    using new[of i] z[of i] I(2,3) inv by (cases "i \<in> set I") (auto simp: flight_inv_def)
  moreover have "exact hole st'" if e: "exact hole st"
    unfolding exact_def
  proof
    fix i
    show "count (in_flight (trace st')) i = (if request_of st' i = None \<or> i \<in> hole then 0 else 1)"
      using new[of i] z[of i] I(2,3) e by (cases "i \<in> set I") (auto simp: exact_def)
  qed
  moreover have "\<forall>i \<in> hole. request_of st' i \<noteq> None" using h I(2,3) by metis
  ultimately show ?thesis using p f(2) by (simp add: flight_inv_def)
qed

section \<open>One completion\<close>

lemma take_completion:
  assumes inv: "flight_inv {} st" and c: "cqe_user_data c \<in># in_flight (trace st)"
    and e: "ends_request c"
  shows "flight_inv {cqe_user_data c} (log_ev (Ev_cqe c) st) \<and>
     (exact {} st \<longrightarrow> exact {cqe_user_data c} (log_ev (Ev_cqe c) st)) \<and> request_of st (cqe_user_data c) \<noteq> None"
proof -
  let ?i = "cqe_user_data c" and ?st = "log_ev (Ev_cqe c) st"
  have sub: "completed (trace st) \<subseteq># handed_over (trace st)"
    and le: "\<And>i. count (in_flight (trace st)) i \<le> (if request_of st i = None then 0 else 1)"
    using inv by (auto simp: flight_inv_def)
  have eqs: "handed_over (trace ?st) = handed_over (trace st)"
    "completed (trace ?st) = add_mset ?i (completed (trace st))"
    using e by (simp_all add: handed_over_def completed_def)
  have "count (completed (trace st)) ?i < count (handed_over (trace st)) ?i"
    using c by (simp add: in_flight_def in_diff_count)
  then have "completed (trace ?st) \<subseteq># handed_over (trace ?st)"
    using sub unfolding eqs by (auto simp: subseteq_mset_def Suc_le_eq)
  moreover have fl: "in_flight (trace ?st) = in_flight (trace st) - {#?i#}"
    unfolding in_flight_def eqs by simp
  moreover have one: "count (in_flight (trace st)) ?i = 1" "request_of st ?i \<noteq> None"
  proof -
    have "0 < count (in_flight (trace st)) ?i" using c by (simp only: count_greater_zero_iff)
    moreover have "count (in_flight (trace st)) ?i \<le> 1" by (rule order_trans[OF le]) simp
    ultimately show "count (in_flight (trace st)) ?i = 1" by linarith
    show "request_of st ?i \<noteq> None"
    proof
      assume n: "request_of st ?i = None"
      have "count (in_flight (trace st)) ?i \<le> 0" using le[of ?i] by (simp only: n simp_thms if_True)
      with \<open>0 < count (in_flight (trace st)) ?i\<close> show False by linarith
    qed
  qed
  moreover have "count (in_flight (trace ?st)) j \<le> (if request_of ?st j = None \<or> j \<in> {?i} then 0 else 1)" for j
    using le[of j] one by (cases "j = ?i") (simp_all add: fl[simplified])
  moreover have "exact {?i} ?st" if "exact {} st"
    using that one by (auto simp: exact_def fl[simplified])
  ultimately show ?thesis using inv by (simp add: flight_inv_def)
qed

lemma release_flight:
  assumes inv: "flight_inv {wid} st" and l: "lookup (m_pool st) wid = Some a"
    and r: "release wid st = Inr st'"
  shows "flight_inv {} st' \<and> (exact {wid} st \<longrightarrow> exact {} st')"
proof -
  note R = release_frame[OF flight_inv_pool[OF inv] l r]
  have "(request_of st' i = None \<or> i \<in> {}) = (request_of st i = None \<or> i \<in> {wid})" for i
    using R by (simp del: not_None_eq)
  moreover have "trace st' = trace st" "pool_inv (m_pool st')" using R by simp_all
  ultimately show ?thesis using inv by (simp add: flight_inv_def exact_def)
qed

lemma resubmit_flight:
  assumes inv: "flight_inv {wid} st" and l: "lookup (m_pool st) wid = Some a"
    and q: "request_of st wid \<noteq> None" and r: "submit_item_at (submit env (buffer_size st)) a st = Inr st'"
  shows "flight_inv {} st' \<and> (exact {wid} st \<longrightarrow> exact {} st')"
proof -
  note R = resubmit_frame[OF flight_inv_pool[OF inv] l r]
  have sub: "completed (trace st) \<subseteq># handed_over (trace st)" using inv by (simp add: flight_inv_def)
  have m: "map sqe_user_data (sqes (trace st')) = map sqe_user_data (sqes (trace st)) @ [wid]"
    using R by auto
  have c: "cqes (trace st') = cqes (trace st)" using R by (auto simp: run_frame_def)
  note f = in_flight_grows[OF sub m c]
  have z: "count (in_flight (trace st)) wid = 0"
    using inv by (auto simp: flight_inv_def dest!: spec[of _ wid])
  have "count (in_flight (trace st')) i \<le> (if request_of st' i = None \<or> i \<in> {} then 0 else 1)" for i
    using flight_inv_le[OF inv, of i] z q R by (cases "i = wid") (simp_all add: f(1))
  moreover have "exact {} st'" if "exact {wid} st"
    using that z q R by (auto simp: f(1) exact_def)
  ultimately show ?thesis using R f(2) by (simp add: flight_inv_def)
qed

lemma flight_inv_cong:
  "m_pool st' = m_pool st \<Longrightarrow> sqes (trace st') = sqes (trace st) \<Longrightarrow> cqes (trace st') = cqes (trace st) \<Longrightarrow>
     flight_inv hole st' = flight_inv hole st \<and> exact hole st' = exact hole st"
  using request_of_cong[of st' st]
  by (simp add: flight_inv_def exact_def in_flight_def handed_over_def completed_def)

context careful_runner
begin

lemma poll_flight:
  assumes env: "env_ok env" and k: "kernel_ok env" "single_shot env" and inv: "flight_inv {} st"
    and run: "poll_completion_queues env cbs st = Inr (st', err)"
  shows "flight_inv {} st' \<and>
     (exact {} st \<longrightarrow> cqe_res (snd (e_peek_cqe env (trace st))) \<noteq> - ENOBUFS \<longrightarrow> exact {} st')"
proof (cases "fst (e_peek_cqe env (trace st)) = 0")
  case False
  with run have "st' = log_ev Ev_no_cqe st"
    by (auto simp: poll_completion_queues_def split_beta split: if_splits)
  with inv flight_inv_cong[of st' st] show ?thesis by simp
next
  case True
  let ?c = "snd (e_peek_cqe env (trace st))"
  let ?i = "cqe_user_data ?c" and ?st0 = "log_ev (Ev_cqe ?c) st"
  from True run obtain st1 where run1: "call_callback_and_free_work_item_id env cbs ?c ?st0 = Inr st1"
    and st': "st' = log_ev (Ev_cq_advance 1) st1"
    by (auto simp: poll_completion_queues_def split_beta)
  have "?i \<in># in_flight (trace st)" using k(1) True unfolding kernel_ok_def by (metis prod.collapse)
  note T = take_completion[OF inv this k(2)[unfolded single_shot_def, rule_format]]
  then have q: "request_of ?st0 ?i \<noteq> None" by simp
  then obtain a where l: "lookup (m_pool ?st0) ?i = Some a"
    by (auto simp: request_of_def split: option.splits)
  have pinv: "pool_inv (m_pool ?st0)" using T flight_inv_pool by blast
  have "flight_inv {} st1 \<and> (exact {?i} ?st0 \<longrightarrow> cqe_res ?c \<noteq> - ENOBUFS \<longrightarrow> exact {} st1)"
  proof (cases "cqe_res ?c = - ENOBUFS")
    case True
    then have "st1 = ?st0"
      using run1 l get_work_item_eq[OF pinv, of ?i] lookup_less[OF l]
      by (simp add: call_callback_and_free_work_item_id_def)
    with conjunct1[OF T, THEN flight_inv_no_hole] True show ?thesis by simp
  next
    case False
    from completion_shape[OF pinv l False run1] obtain s0 s1 s2 where
      s: "pre_step a ?st0 s0" "runs_at_most_one cbs s0 s1" "post_step a s1 s2" and
      f: "finishes env ?i a s2 st1" by blast
    note a = pool_invD(1)[OF pinv l]
    have B: "pool_inv (m_pool s2)" "run_frame ?st0 s2" "starts ?st0 s2"
      using before_last_ok[OF env pinv a s] before_last_starts[OF env pinv a s] by simp_all
    then have l2: "lookup (m_pool s2) ?i = Some a" and c2: "cqes (trace s2) = cqes (trace ?st0)"
      using l by (auto simp: run_frame_def pool_grows_def)
    have S: "flight_inv {?i} s2 \<and> (exact {?i} ?st0 \<longrightarrow> exact {?i} s2) \<and> request_of s2 ?i \<noteq> None"
      using starts_flight[of "{?i}" ?st0 s2, OF _ B(3,1) c2] T q by blast
    with f release_flight[OF _ l2] resubmit_flight[OF _ l2] show ?thesis
      unfolding finishes_def by blast
  qed
  with T show ?thesis using flight_inv_cong[of st' st1] by (simp add: st')
qed

end

section \<open>The program\<close>

text \<open>
  The states of a program that creates the ring, calls \<^verbatim>\<open>init\<close>, and then calls the
  interface and polls in any order.
\<close>

inductive reachable :: "env \<Rightarrow> uring invoker \<Rightarrow> uring \<Rightarrow> bool" for env cbs where
  init: "IOUring_init env (IOUring_new junk queue_size) = Inr (st, r) \<Longrightarrow> reachable env cbs st"
| call: "reachable env cbs st \<Longrightarrow> call_ok st c \<Longrightarrow> api_step env st c = Inr st' \<Longrightarrow> reachable env cbs st'"
| poll: "reachable env cbs st \<Longrightarrow> poll_completion_queues env cbs st = Inr (st', r) \<Longrightarrow>
    reachable env cbs st'"

inductive_cases reachableE: "reachable env cbs st"

lemma init_flight:
  assumes "IOUring_init env (IOUring_new junk queue_size) = Inr (st, r)"
  shows "flight_inv {} st \<and> exact {} st"
proof -
  from init_silent[OF assms] have s: "m_pool st = WorkPool_new" "sqes (trace st) = []" "cqes (trace st) = []"
    by (simp_all add: IOUring_new_def)
  then have "pool_inv (m_pool st)" by (simp add: pool_inv_new)
  with s show ?thesis
    by (simp add: flight_inv_def exact_def in_flight_def handed_over_def completed_def
        request_of_def lookup_def) (simp add: WorkPool_new_def)
qed

lemma api_step_flight:
  assumes env: "env_ok env" and inv: "flight_inv {} st" and ok: "call_ok st c"
    and step: "api_step env st c = Inr st'"
  shows "flight_inv {} st' \<and> (exact {} st \<longrightarrow> exact {} st')"
proof -
  note p = flight_inv_pool[OF inv]
  have "starts st st'"
    using api_step_starts[OF env p step ok] by (blast intro: starts_none_starts starts_one_starts)
  moreover have "pool_inv (m_pool st')" "cqes (trace st') = cqes (trace st)"
    using api_step_ok[OF env p step] by (auto simp: api_ok_def api_frame_def trace_grows_def)
  ultimately show ?thesis using starts_flight[OF inv] by simp
qed

context careful_runner
begin

lemma reachable_flight:
  assumes env: "env_ok env" and k: "kernel_ok env" "single_shot env" and r: "reachable env cbs st"
  shows "flight_inv {} st"
  using r
proof induction
  case (init junk queue_size st r)
  then show ?case using init_flight by blast
next
  case (call st c st')
  then show ?case using api_step_flight[OF env] by blast
next
  case (poll st st' r)
  then show ?case using poll_flight[OF env k] by blast
qed

lemma reachable_exact:
  assumes env: "env_ok env" and k: "kernel_ok env" "single_shot env" and nb: "\<forall>tr. cqe_res (snd (e_peek_cqe env tr)) \<noteq> - ENOBUFS"
    and r: "reachable env cbs st"
  shows "exact {} st"
  using r
proof induction
  case (init junk queue_size st r)
  then show ?case using init_flight by blast
next
  case (call st c st')
  then show ?case using api_step_flight[OF env reachable_flight[OF env k]] by blast
next
  case (poll st st' r)
  then show ?case using poll_flight[OF env k reachable_flight[OF env k]] nb by blast
qed

lemma reachable_entries:
  assumes env: "env_ok env" and r: "reachable env cbs st"
  shows "pool_inv (m_pool st) \<and> entries_fit st"
  using r
proof induction
  case (init junk queue_size st r)
  from init_silent[OF init] have "m_pool st = WorkPool_new" by (simp add: IOUring_new_def)
  then have "pool_inv (m_pool st)" "request_of st = Map.empty"
    using pool_inv_new by (auto simp: request_of_def lookup_def WorkPool_new_def)
  then show ?case by (simp add: entries_fit_def)
next
  case (call st c st')
  have "starts st st'"
    using api_step_starts[OF env _ call(3,2)] call(4) by (blast intro: starts_none_starts starts_one_starts)
  then show ?case
    using call(4) starts_entries api_step_ok[OF env _ call(3)] by (auto simp: api_ok_def)
next
  case (poll st st' r)
  then show ?case using poll_entries[OF env] poll_inv[OF env] by blast
qed

end

text \<open>
  A careful client: in no poll of a run does one of its functions hand over an item that is
  not in the table or has been handed over before.  It may acquire items at any time, in a
  function or between polls, and hand each over later.
\<close>

definition careful_client :: "env \<Rightarrow> client \<Rightarrow> bool" where
  "careful_client env client \<longleftrightarrow> (\<forall>st. reachable env (invoke env client) st \<longrightarrow> careful_in env client st)"

lemma careful_reachable:
  assumes careful: "careful_client env client"
  shows "reachable env (invoke env client) st \<Longrightarrow> reachable env (checked env client) st"
proof (induction rule: reachable.induct)
  case (init junk queue_size st r)
  then show ?case by (rule reachable.init)
next
  case (call st c st')
  then show ?case by (blast intro: reachable.call)
next
  case (poll st st' r)
  then have "poll_completion_queues env (checked env client) st = Inr (st', r)"
    using careful by (simp add: careful_client_def careful_in_def)
  with poll.IH show ?case by (rule reachable.poll)
qed

lemma idle_careful_client: "careful_client env idle_client"
  by (simp add: careful_client_def idle_careful)

lemma scripts_pool_inv:
  assumes env: "env_ok env"
  shows "reachable env (invoke env client) st \<Longrightarrow> pool_inv (m_pool st)"
proof (induction rule: reachable.induct)
  case (init junk queue_size st r)
  then show ?case using init_flight flight_inv_pool by blast
next
  case (call st c st')
  then show ?case using api_step_ok[OF env] by (auto simp: api_ok_def)
next
  case (poll st st' r)
  then show ?case using scripts.poll_inv[OF env] by blast
qed

text \<open>A client that hands over each item in the function that has acquired it is careful.\<close>

lemma answering_careful: "env_ok env \<Longrightarrow> careful_client env (answering_client socket d)"
  unfolding careful_client_def
  using careful_in_legal[OF scripts_pool_inv] answering_legal by simp

section \<open>Properties\<close>

text \<open>
  C1: In every reachable state of a program with a careful client, a completion that the
  kernel reports finds a live item: the pool returns the object whose request completed,
  that object carries the identifier, its type is that of the operation that the kernel was
  asked for under this identifier, and the callback it holds is the alternative of the
  variant that its type needs.  So neither the branch for a missing item, nor the assertion
  on the type, nor the handling of another operation, nor a wrong alternative of the variant
  is ever met.  A client is careful if no function of it that is run hands over an item that
  is not in the table or has been handed over before; it may acquire an item, fill it and
  hand it over in the same function or later.  The kernel reports completions of requests
  in flight only, and ends each with its first completion; so this is not shown for a
  multishot receive of datagrams that it keeps active.
\<close>

theorem completion_finds_its_item:
  assumes "env_ok env" and "kernel_ok env" "single_shot env" and "careful_client env client"
    and "reachable env (invoke env client) st" and "e_peek_cqe env (trace st) = (0, c)"
  shows "\<exists>a. get_work_item (m_pool st) (cqe_user_data c) = Inr (Some a) \<and>
     m_id (deref (m_pool st) a) = cqe_user_data c \<and> m_work_type (deref (m_pool st) a) \<noteq> UNKNOWN \<and>
     (\<exists>e. last_entry (trace st) (cqe_user_data c) = Some e \<and> entry_fits (m_work_type (deref (m_pool st) a)) e) \<and>
     callback_fits (m_work_type (deref (m_pool st) a)) (m_callback (deref (m_pool st) a))"
proof -
  have inv: "flight_inv {} st"
    using watched.reachable_flight[OF assms(1-3) careful_reachable[OF assms(4,5)]] .
  note p = flight_inv_pool[OF inv]
  have "cqe_user_data c \<in># in_flight (trace st)" using assms(2,6) by (simp add: kernel_ok_def)
  moreover have "ends_request c" using assms(3,6) unfolding single_shot_def by (metis snd_conv)
  ultimately have "request_of st (cqe_user_data c) \<noteq> None" using take_completion[OF inv] by blast
  then obtain a where l: "lookup (m_pool st) (cqe_user_data c) = Some a"
    and t: "m_work_type (deref (m_pool st) a) \<noteq> UNKNOWN"
    by (auto simp: request_of_def split: option.splits if_splits)
  have "get_work_item (m_pool st) (cqe_user_data c) = Inr (Some a)"
    using get_work_item_eq[OF p] l lookup_less[OF l] by simp
  moreover have "\<exists>e. last_entry (trace st) (cqe_user_data c) = Some e \<and>
      entry_fits (m_work_type (deref (m_pool st) a)) e"
    using watched.reachable_entries[OF assms(1) careful_reachable[OF assms(4,5)]] l t
    by (auto simp: entries_fit_def request_of_def)
  ultimately show ?thesis using t pool_invD[OF p l] by (simp add: item_inv_def)
qed

text \<open>
  C2: No submitted item is leaked: in every reachable state the identifiers of the submitted
  items are exactly those of the requests in flight, each once.  This holds for a careful
  client (no function of it that is run hands over an item that is not in the table or has
  been handed over before) and a kernel that reports completions of requests in flight only,
  ends each request with its first completion and never reports \<^verbatim>\<open>ENOBUFS\<close>.
\<close>

theorem submitted_items_are_in_flight:
  assumes "env_ok env" and "kernel_ok env" "single_shot env" and "careful_client env client"
    and "\<forall>tr. cqe_res (snd (e_peek_cqe env tr)) \<noteq> - ENOBUFS"
    and "reachable env (invoke env client) st"
  shows "in_flight (trace st) = mset_set {i. request_of st i \<noteq> None}"
proof -
  have e: "exact {} st"
    using watched.reachable_exact[OF assms(1-3,5) careful_reachable[OF assms(4,6)]] .
  have "{i. request_of st i \<noteq> None} \<subseteq> live (m_pool st)"
    by (auto simp: request_of_def live_def split: option.splits)
  then have "finite {i. request_of st i \<noteq> None}" by (rule finite_subset) simp
  then show ?thesis using e by (intro multiset_eqI) (auto simp: exact_def count_mset_set')
qed

text \<open>Until it is released or submitted again, the request whose completion is handled stays as it is.\<close>

lemma request_stays_in_flight:
  assumes env: "env_ok env" and p: "pool_inv (m_pool s)"
    and req: "request_of s i \<noteq> None" and l: "lookup (m_pool s) i = Some a"
    and sub: "completed (trace s) \<subseteq># handed_over (trace s)"
    and s: "pre_step a s s0" "runs_at_most_one (checked env client) s0 s1" "post_step a s1 s2"
  shows "pool_inv (m_pool s2)" "lookup (m_pool s2) i = Some a"
    "count (in_flight (trace s2)) i = count (in_flight (trace s)) i"
    "completed (trace s2) \<subseteq># handed_over (trace s2)"
proof -
  note a = pool_invD(1)[OF p l]
  have B: "pool_inv (m_pool s2)" "run_frame s s2"
    using watched.before_last_ok[OF env p a s] by simp_all
  then have "lookup (m_pool s2) i = Some a" and c2: "cqes (trace s2) = cqes (trace s)"
    using l by (auto simp: run_frame_def pool_grows_def)
  moreover from watched.before_last_starts[OF env p a s] obtain I where
    I: "\<forall>i \<in> set I. request_of s i = None"
       "map sqe_user_data (sqes (trace s2)) = map sqe_user_data (sqes (trace s)) @ I"
    using starts_ids by blast
  moreover have "i \<notin> set I" using I(1) req by auto
  ultimately show "pool_inv (m_pool s2)" "lookup (m_pool s2) i = Some a"
    "count (in_flight (trace s2)) i = count (in_flight (trace s)) i"
    "completed (trace s2) \<subseteq># handed_over (trace s2)"
    using in_flight_grows[OF sub I(2) c2] B(1) by (simp_all add: count_mset)
qed

text \<open>
  C16: The flag \<^verbatim>\<open>IORING_CQE_F_MORE\<close> is ignored.  Let the requests in flight belong to live
  items, at most one to an item, and let the kernel keep a receive active after a completion
  other than \<^verbatim>\<open>ENOBUFS\<close>.  If the poll returns, and the function that it runs hands over only
  items that are in the table and have not been handed over before, then the program has
  either released the item, so that the identifier of the active request is the next to be
  given out for another one, or it has submitted the item again, so that two requests with
  this identifier are active.
\<close>

theorem more_leaves_request:
  assumes env: "env_ok env" and careful: "careful_in env client st" and inv: "flight_inv {} st"
    and peek: "e_peek_cqe env (trace st) = (0, c)" and k: "cqe_user_data c \<in># in_flight (trace st)"
    and more: "\<not> ends_request c" and l: "lookup (m_pool st) (cqe_user_data c) = Some a"
    and t: "m_work_type (deref (m_pool st) a) = RECV" and nb: "cqe_res c \<noteq> - ENOBUFS"
    and run: "poll_completion_queues env (invoke env client) st = Inr (st', err)"
  shows "lookup (m_pool st') (cqe_user_data c) = None \<and> next_id (m_pool st') = cqe_user_data c \<and>
      count (in_flight (trace st')) (cqe_user_data c) = 1 \<or>
    lookup (m_pool st') (cqe_user_data c) = Some a \<and>
      count (in_flight (trace st')) (cqe_user_data c) = 2"
proof -
  let ?i = "cqe_user_data c" and ?st = "log_ev (Ev_cqe c) st" and ?cbs = "checked env client"
  have p: "pool_inv (m_pool ?st)" and l0: "lookup (m_pool ?st) ?i = Some a"
    using flight_inv_pool[OF inv] l by simp_all
  from run careful obtain st1 where run1: "call_callback_and_free_work_item_id env ?cbs c ?st = Inr st1"
    and st': "st' = log_ev (Ev_cq_advance 1) st1"
    by (auto simp: careful_in_def poll_completion[OF peek])
  have one: "count (in_flight (trace st)) ?i = 1" by (rule in_flight_once[OF inv k])
  have sub: "completed (trace ?st) \<subseteq># handed_over (trace ?st)" and
    fl: "in_flight (trace ?st) = in_flight (trace st)"
    using inv more by (simp_all add: flight_inv_def in_flight_def completed_def handed_over_def)
  from completion_shape[OF p l0 nb run1] obtain s0 s1 s2 where
    s: "pre_step a ?st s0" "runs_at_most_one ?cbs s0 s1" "post_step a s1 s2" and f: "finishes env ?i a s2 st1"
    by blast
  have "request_of ?st ?i \<noteq> None" using l t by (simp add: request_of_def)
  note B = request_stays_in_flight[OF env p this l0 sub s]
  have g: "count (in_flight (trace s2)) ?i = 1" using B(3) one fl by simp
  have e: "in_flight (trace st') = in_flight (trace st1)" "m_pool st' = m_pool st1"
    by (simp_all add: st' in_flight_def completed_def handed_over_def)
  from f show ?thesis
    unfolding finishes_def e
  proof
    assume r: "release ?i s2 = Inr st1"
    from release_frame[OF B(1,2) r] release_next_id[OF r] g show
      "lookup (m_pool st1) ?i = None \<and> next_id (m_pool st1) = ?i \<and> count (in_flight (trace st1)) ?i = 1 \<or>
       lookup (m_pool st1) ?i = Some a \<and> count (in_flight (trace st1)) ?i = 2" by simp
  next
    assume r: "submit_item_at (submit env (buffer_size s2)) a s2 = Inr st1"
    note R = resubmit_frame[OF B(1,2) r]
    have "map sqe_user_data (sqes (trace st1)) = map sqe_user_data (sqes (trace s2)) @ [?i]" using R by auto
    moreover have "cqes (trace st1) = cqes (trace s2)" using R by (auto simp: run_frame_def)
    ultimately have "in_flight (trace st1) = in_flight (trace s2) + {#?i#}"
      using in_flight_grows(1)[OF B(4), of st1 "[?i]"] by simp
    then have "count (in_flight (trace st1)) ?i = 2" using g by simp
    with R B(2) show
      "lookup (m_pool st1) ?i = None \<and> next_id (m_pool st1) = ?i \<and> count (in_flight (trace st1)) ?i = 1 \<or>
       lookup (m_pool st1) ?i = Some a \<and> count (in_flight (trace st1)) ?i = 2" by simp
  qed
qed

text \<open>
  C17: Nothing in the library stops a client that is not careful.  Let the requests in flight
  belong to live items, at most one to an item, as they do as long as clients are careful.  Whatever has become of an
  item that a client has acquired on a stream socket, \<^verbatim>\<open>submit_stream_data\<close> on it succeeds when the
  queue has room and makes one more request under the identifier of the item, and the table
  stays as it is.  So two requests are in flight under one identifier if the item was handed
  over before, and a request is in flight that no item, or the item of somebody else, stands
  for if it was released.
\<close>

theorem hand_over_is_unchecked:
  assumes inv: "flight_inv {} st" and room: "queue_has_room env" and a: "a < length (heap (m_pool st))"
    and s: "is_stream (m_socket (deref (m_pool st) a))" and i: "i = m_id (deref (m_pool st) a)"
  shows "\<exists>st'. api_step env st (Api_submit_stream_data a h) = Inr st' \<and>
     in_flight (trace st') = add_mset i (in_flight (trace st)) \<and> lookup (m_pool st') = lookup (m_pool st) \<and>
     (i \<in># in_flight (trace st) \<longrightarrow> count (in_flight (trace st')) i = 2) \<and>
     (lookup (m_pool st) i \<noteq> Some a \<longrightarrow> request_of st' i = request_of st i)"
proof -
  let ?wi = "deref (m_pool st) a" and ?f = "submit_stream_data (submit env (buffer_size st)) h"
  let ?wi1 = "?wi\<lparr>m_callback := Send_cb h, m_work_type := SEND_STREAM_DATA\<rparr>"
  note p = flight_inv_pool[OF inv]
  have "prepare (buffer_size st) ?wi1 = Inr (?wi1, Prep_send (get_fd (m_socket ?wi))
      (contents (m_send_packet ?wi)) (packet_size (m_send_packet ?wi)) 0, link_flag ?wi1)"
    using s by (simp add: prepare_def Let_def item_is_stream_def get_raw_send_packet_def contents_def)
  from submit_runs[OF room this, of "trace st"] obtain tr' e where
    f: "?f ?wi (trace st) = Inr (?wi1, tr')" "sqes tr' = sqes (trace st) @ [e]" "sqe_user_data e = i"
    by (auto simp: submit_stream_data_def i)
  from submit_item_at_runs[of a st ?f, OF a f(1)] obtain st' where r: "submit_item_at ?f a st = Inr st'" by blast
  note F = submit_item_at_frame[OF p ring.overloads_keep(5) overloads_hand_over(5) r]
  have q: "map sqe_user_data (sqes (trace st')) = map sqe_user_data (sqes (trace st)) @ [i]"
    using F f by auto
  have "completed (trace st) \<subseteq># handed_over (trace st)" using inv by (simp add: flight_inv_def)
  moreover have "cqes (trace st') = cqes (trace st)" using F by (auto simp: api_frame_def trace_grows_def)
  ultimately have fl: "in_flight (trace st') = add_mset i (in_flight (trace st))"
    using in_flight_grows(1)[OF _ q] by simp
  have "count (in_flight (trace st')) i = 2" if "i \<in># in_flight (trace st)"
    using in_flight_once[OF inv that] by (simp only: fl count_add_mset if_True simp_thms)
  moreover have "request_of st' i = request_of st i" if "lookup (m_pool st) i \<noteq> Some a"
    using that F by (auto simp: request_of_def split: option.split)
  ultimately show ?thesis using r fl F by auto
qed

text \<open>A bad datagram, with the flag: the receive is active twice.\<close>

definition waiting :: "work_type \<Rightarrow> callback \<Rightarrow> isocket \<Rightarrow> prep \<Rightarrow> uring" where
  "waiting t cb s p =
     log_ev (Ev_sqe \<lparr>sqe_user_data = 0, sqe_prep = p, sqe_flags = 0, sqe_buf_group = 0\<rparr>) (one_item t cb s)"

definition receiving :: uring where
  "receiving = waiting RECV (Recv_cb (Some 7)) udp_socket
     (Prep_recvmsg_multishot 5 msghdr_zero \<lparr>iov_base = Iov_null, iov_len = 0\<rparr> MSG_TRUNC)"

lemma waiting_simps [simp]:
  "m_pool (waiting t cb s p) = m_pool (one_item t cb s)" "buf_shift (waiting t cb s p) = 12"
  "in_flight (trace (waiting t cb s p)) = {#0#}"
  by (simp_all add: waiting_def in_flight_def handed_over_def completed_def)

lemma receiving_simps [simp]:
  "m_pool receiving = m_pool (one_item RECV (Recv_cb (Some 7)) udp_socket)"
  "in_flight (trace receiving) = {#0#}" "buf_shift receiving = 12"
  by (simp_all add: receiving_def)

lemma waiting_flight:
  assumes "callback_fits t cb" and "t \<noteq> UNKNOWN"
  shows "flight_inv {} (waiting t cb s p)"
proof -
  have "request_of (waiting t cb s p) i = (if i = 0 then Some (t, cb) else None)" for i
    using assms(2) by (simp add: request_of_def) (simp add: one_item_def lookup_def)
  then show ?thesis
    using one_item_inv[OF assms(1), of s]
    by (simp add: flight_inv_def) (simp add: waiting_def handed_over_def completed_def)
qed

lemma receiving_flight: "flight_inv {} receiving"
  unfolding receiving_def by (rule waiting_flight) simp_all

theorem more_leaves_request_witness:
  "\<exists>st'. poll_completion_queues (reporting 9 196611) (invoke (reporting 9 196611) idle_client) receiving =
       Inr (st', OK) \<and> count (in_flight (trace st')) 0 = 2"
proof -
  let ?env = "reporting 9 196611" and ?c = "\<lparr>cqe_user_data = 0, cqe_res = 9, cqe_flags = 196611\<rparr>"
  let ?cbs = "invoke ?env idle_client" and ?st = "log_ev (Ev_cqe ?c) receiving"
  let ?r = "recycle_buffer (cqe_buffer ?c) ?st"
  have p: "pool_inv (m_pool ?st)" using flight_inv_pool[OF receiving_flight] by simp
  have "\<exists>st2. submit_item_at (submit ?env (buffer_size ?r)) 0 ?r = Inr st2"
    by (intro submit_one_item) (auto simp: prepare_def Let_def item_is_stream_def)
  then obtain st2 where s2: "submit_item_at (submit ?env (buffer_size ?r)) 0 ?r = Inr st2" by blast
  have "call_recv_callback ?env ?cbs 0 ?c ?st = Inr (?r, RE_SUBMIT)"
    by (simp add: call_recv_callback_def call_recv_handler_datagram_def Let_def item_is_stream_def
        quiet_env_def IORING_CQE_F_BUFFER_def cqe_buffer_def)
  then have run: "poll_completion_queues ?env ?cbs receiving = Inr (log_ev (Ev_cq_advance 1) st2, OK)"
    using recv_completion_eq[OF p, of ?c 0 ?env ?cbs] s2
    by (simp add: poll_completion after_receive_def errno_defs)
  have "lookup (m_pool st2) 0 = Some 0"
    using resubmit_frame[OF _ _ s2, of 0] p by simp
  then show ?thesis
    using more_leaves_request[OF _ idle_careful receiving_flight _ _ _ _ _ _ run, of ?c 0] run
    by (simp add: ends_request_def IORING_CQE_F_MORE_def errno_defs)
qed

text \<open>A send that is in flight is handed over once more.\<close>

theorem hand_over_is_unchecked_witness:
  "\<exists>st'. api_step quiet_env (waiting SEND_STREAM_DATA (Send_cb (Some 7)) tcp_socket (Prep_send 5 [] 0 0))
       (Api_submit_stream_data 0 (Some 8)) = Inr st' \<and> count (in_flight (trace st')) 0 = 2"
proof -
  let ?st = "waiting SEND_STREAM_DATA (Send_cb (Some 7)) tcp_socket (Prep_send 5 [] 0 0)"
  have "queue_has_room quiet_env" by (simp add: queue_has_room_def)
  moreover have "m_id (deref (m_pool ?st) 0) = 0" by (simp add: one_item_def deref_def)
  ultimately show ?thesis
    using hand_over_is_unchecked[OF waiting_flight[of SEND_STREAM_DATA "Send_cb (Some 7)" tcp_socket "Prep_send 5 [] 0 0"],
        of quiet_env 0 0 "Some 8"] by auto
qed

section \<open>A concrete program\<close>

text \<open>
  A kernel that completes the requests in the order in which they were submitted, with
  result 0.
\<close>

definition fifo_pending :: "event list \<Rightarrow> nat list" where
  "fifo_pending tr = fold remove1 (map cqe_user_data (List.filter ends_request (cqes tr))) (map sqe_user_data (sqes tr))"

definition fifo_env :: env where
  "fifo_env = quiet_env\<lparr>e_peek_cqe := (\<lambda>tr. case fifo_pending tr of
     [] \<Rightarrow> (- EAGAIN, \<lparr>cqe_user_data = 0, cqe_res = 0, cqe_flags = 0\<rparr>)
   | i # _ \<Rightarrow> (0, \<lparr>cqe_user_data = i, cqe_res = 0, cqe_flags = 0\<rparr>))\<rparr>"

lemma fifo_env_simps [simp]:
  "e_queue_init fifo_env = e_queue_init quiet_env" "e_probe fifo_env = e_probe quiet_env"
  "e_get_sqe fifo_env = e_get_sqe quiet_env" "e_submit fifo_env = e_submit quiet_env"
  "e_junk fifo_env = e_junk quiet_env"
  by (simp_all add: fifo_env_def)

lemma mset_fold_remove1: "mset (fold remove1 xs ys) = mset ys - mset xs"
  by (induction xs arbitrary: ys) (simp_all add: diff_diff_add_mset)

lemma mset_fifo_pending: "mset (fifo_pending tr) = in_flight tr"
  by (simp add: fifo_pending_def mset_fold_remove1 in_flight_def handed_over_def completed_def)

lemma fifo_kernel_ok: "kernel_ok fifo_env"
proof -
  have "cqe_user_data c \<in> set (fifo_pending tr)" if "e_peek_cqe fifo_env tr = (0, c)" for tr c
    using that by (auto simp: fifo_env_def errno_defs split: list.splits)
  then show ?thesis unfolding kernel_ok_def by (simp flip: mset_fifo_pending)
qed

lemma fifo_single_shot: "single_shot fifo_env"
  by (simp add: single_shot_def fifo_env_def ends_request_def split: list.split)

lemma fifo_env_ok: "env_ok fifo_env"
  by (simp add: env_ok_def)

text \<open>Its ring after \<^verbatim>\<open>init\<close> and one request to close a socket.\<close>

lemma probe_features_quiet:
  assumes e: "e_probe env = e_probe quiet_env"
  shows "probe_features env st = Inr (log_ev Ev_probe st)"
proof -
  let ?ops = "map (\<lambda>i. (i, 1)) [0..39] :: (int \<times> 16 word) list"
  have e': "e_probe env tr = Some ?ops" for tr by (simp only: e quiet_env_simps)
  define q where "q = fold probe_entry ?ops Map.empty"
  have p: "ProbeUringFeatures_new (Some ?ops) = Inr q"
    by (simp only: ProbeUringFeatures_new_def option.case q_def)
  have "supports q f" if "f \<in> {IORING_OP_ACCEPT, IORING_OP_RECV, IORING_OP_RECVMSG, IORING_OP_SEND,
      IORING_OP_SENDMSG, IORING_OP_CLOSE, IORING_OP_CONNECT}" for f
  proof -
    let ?op = "int (ordinal f) - 1"
    have "1 \<le> ordinal f \<and> ordinal f \<le> 40 \<and> f \<noteq> UringFeature_UNKNOWN" using that by auto
    then have c: "convert_uring_op_to_feature ?op = f" and r: "0 \<le> ?op" "?op \<le> 39"
      by (auto simp: convert_eq_iff)
    have "(?op, 1) \<in> set ?ops" unfolding set_map set_upto using r by simp
    then have "\<exists>(op, flags) \<in> set ?ops. flags AND IO_URING_OP_SUPPORTED \<noteq> 0 \<and>
        convert_uring_op_to_feature op = f"
      by (rule bexI[rotated]) (simp add: c IO_URING_OP_SUPPORTED_def)
    then show ?thesis unfolding supports_def q_def fold_probe_entry by blast
  qed
  then have "supports q IORING_OP_ACCEPT" "supports q IORING_OP_RECV" "supports q IORING_OP_RECVMSG"
    "supports q IORING_OP_SEND" "supports q IORING_OP_SENDMSG" "supports q IORING_OP_CLOSE"
    "supports q IORING_OP_CONNECT" by blast+
  then show ?thesis unfolding probe_features_def e' p bindE_simps by (simp only: assertE_simps bindE_simps)
qed

lemma fifo_init: "\<exists>st r. IOUring_init fifo_env (IOUring_new junk queue_size) = Inr (st, r)"
  by (simp add: IOUring_init_def init_ring_def probe_features_quiet split: prod.split)

lemma fifo_close:
  assumes "m_initialized st" and "m_pool st = WorkPool_new"
  shows "\<exists>st'. api_step fifo_env st (Api_submit_close zero_socket (Some 7)) = Inr st' \<and>
     map sqe_user_data (sqes (trace st')) = map sqe_user_data (sqes (trace st)) @ [0] \<and>
     cqes (trace st') = cqes (trace st)"
  using assms
  by (simp add: submit_close_def with_pool_def alloc_close_work_item_def internal_alloc_work_item_def
      WorkPool_new_def submit_at_def deref_def store_def submit_close_item_def submit_def get_sqe_def
      try_get_sqe_def prepare_def submit_all_requests_def Let_def)

lemma fifo_one_close:
  "\<exists>st. reachable fifo_env (invoke fifo_env client) st \<and> m_initialized st \<and>
     request_of st = [0 \<mapsto> (CLOSE, Close_cb (Some 7))] \<and> callbacks (trace st) = [] \<and>
     map sqe_user_data (sqes (trace st)) = [0] \<and> cqes (trace st) = [] \<and>
     e_peek_cqe fifo_env (trace st) = (0, \<lparr>cqe_user_data = 0, cqe_res = 0, cqe_flags = 0\<rparr>)"
proof -
  obtain junk st0 r where i: "IOUring_init fifo_env (IOUring_new junk 64) = Inr (st0, r)"
    using fifo_init by blast
  from init_silent[OF i] have s: "m_initialized st0" "m_pool st0 = WorkPool_new" "callbacks (trace st0) = []"
    "sqes (trace st0) = []" "cqes (trace st0) = []"
    by (simp_all add: IOUring_new_def)
  have "\<exists>st. api_step fifo_env st0 (Api_submit_close zero_socket (Some 7)) = Inr st \<and>
      request_of st = [0 \<mapsto> (CLOSE, Close_cb (Some 7))] \<and> callbacks (trace st) = [] \<and> m_initialized st"
    using s(1-3)
    by (auto simp: submit_close_def with_pool_def alloc_close_work_item_def internal_alloc_work_item_def
        WorkPool_new_def submit_at_def deref_def store_def submit_close_item_def submit_def get_sqe_def
        try_get_sqe_def prepare_def submit_all_requests_def request_of_def lookup_def WorkItem_new_def
        fun_eq_iff is_free_def Let_def)
  then obtain st where c: "api_step fifo_env st0 (Api_submit_close zero_socket (Some 7)) = Inr st"
    and q: "request_of st = [0 \<mapsto> (CLOSE, Close_cb (Some 7))]" "callbacks (trace st) = []" "m_initialized st"
    by blast
  have t: "map sqe_user_data (sqes (trace st)) = [0]" "cqes (trace st) = []"
    using fifo_close[OF s(1,2)] c s(4,5) by auto
  have "reachable fifo_env (invoke fifo_env client) st"
    by (rule reachable.call[OF reachable.init[OF i] _ c]) (simp add: call_ok_def)
  moreover have "fifo_pending (trace st) = [0]" by (simp add: fifo_pending_def t)
  then have "e_peek_cqe fifo_env (trace st) = (0, \<lparr>cqe_user_data = 0, cqe_res = 0, cqe_flags = 0\<rparr>)"
    by (simp add: fifo_env_def)
  ultimately show ?thesis using q t by (intro exI[of _ st] conjI)
qed

text \<open>
  The function that waits for the close acquires an item and hands it over: the next
  completion is that of its send.
\<close>

definition answering :: client where
  "answering = answering_client tcp_socket [1, 2, 3]"

lemma fifo_room: "queue_has_room fifo_env"
  by (simp add: queue_has_room_def)

lemma fifo_answered:
  "\<exists>st i. reachable fifo_env (invoke fifo_env answering) st \<and> callbacks (trace st) = [(7, CloseResult 0)] \<and>
     cqes (trace st) = [\<lparr>cqe_user_data = 0, cqe_res = 0, cqe_flags = 0\<rparr>] \<and>
     request_of st i = Some (SEND_STREAM_DATA, Send_cb (Some 9)) \<and>
     e_peek_cqe fifo_env (trace st) = (0, \<lparr>cqe_user_data = i, cqe_res = 0, cqe_flags = 0\<rparr>)"
proof -
  let ?c = "\<lparr>cqe_user_data = 0, cqe_res = 0, cqe_flags = 0\<rparr>" and ?cbs = "invoke fifo_env answering"
  obtain st0 where r0: "reachable fifo_env ?cbs st0" and i0: "m_initialized st0"
    and q0: "request_of st0 = [0 \<mapsto> (CLOSE, Close_cb (Some 7))]" and c0: "callbacks (trace st0) = []"
    and t0: "map sqe_user_data (sqes (trace st0)) = [0]" "cqes (trace st0) = []"
    and peek: "e_peek_cqe fifo_env (trace st0) = (0, ?c)"
    using fifo_one_close[of answering] by (elim exE conjE) (rule that)
  let ?st = "log_ev (Ev_cqe ?c) st0"
  have p: "pool_inv (m_pool ?st)" using scripts_pool_inv[OF fifo_env_ok r0] by simp
  have "request_of st0 0 = Some (CLOSE, Close_cb (Some 7))" by (simp add: q0)
  then obtain a where l: "lookup (m_pool ?st) 0 = Some a" and
    a: "m_work_type (deref (m_pool ?st) a) = CLOSE" "m_callback (deref (m_pool ?st) a) = Close_cb (Some 7)"
    by (auto simp: request_of_def split: option.splits if_splits)
  have "m_initialized ?st" using i0 by (simp add: log_ev_def)
  from answering_runs[OF fifo_env_ok fifo_room p this, of tcp_socket "[1, 2, 3]" "CloseResult 0"] obtain st1 where
    run: "?cbs 7 (CloseResult 0) ?st = Inr (st1, NONE)" and
    n: "new_request tcp_socket SEND_STREAM_DATA (Send_cb (Some 9)) (Prep_send 5 [1, 2, 3] 3 0)
          (log_ev (Ev_callback 7 (CloseResult 0)) ?st) st1"
    by (auto simp: answering_def BUF_SIZE_def numeral_3_eq_3)
  note C = scripts.callback_ok[OF fifo_env_ok p run]
  from n obtain i b e where i: "lookup (m_pool ?st) i = None" "lookup (m_pool st1) = (lookup (m_pool ?st))(i \<mapsto> b)"
    "m_work_type (deref (m_pool st1) b) = SEND_STREAM_DATA" "m_callback (deref (m_pool st1) b) = Send_cb (Some 9)"
    and e: "sqes (trace st1) = sqes (trace ?st) @ [e]" "sqe_user_data e = i"
    unfolding new_request_def by auto
  have ne: "i \<noteq> 0" using i(1) l by (cases "i = 0") simp_all
  have l1: "lookup (m_pool st1) 0 = Some a" and p1: "pool_inv (m_pool st1)" using i(2) l ne C by simp_all
  from release_succeeds[OF p1 l1] obtain st2 where r2: "release 0 st1 = Inr st2" by blast
  note R = release_frame[OF p1 l1 r2]
  have "get_work_item (m_pool ?st) 0 = Inr (Some a)" using completion_of_live[OF p, of ?c] l by simp
  then have "poll_completion_queues fifo_env ?cbs st0 = Inr (log_ev (Ev_cq_advance 1) st2, OK)"
    using a run r2 by (simp add: poll_completion[OF peek] call_callback_and_free_work_item_id_def
        call_close_callback_def item_call_close_callback_def call_func_def errno_defs)
  with r0 have r: "reachable fifo_env ?cbs (log_ev (Ev_cq_advance 1) st2)" by (rule reachable.poll)
  have "request_of st2 i = Some (SEND_STREAM_DATA, Send_cb (Some 9))"
    using R ne i by (simp add: request_of_def)
  moreover have cq: "cqes (trace st2) = [?c]" using C R t0(2) by (auto simp: api_frame_def trace_grows_def)
  moreover have "map sqe_user_data (sqes (trace st2)) = [0, i]" using R e t0(1) by simp
  with cq have "fifo_pending (trace st2) = [i]" by (simp add: fifo_pending_def ends_request_def)
  moreover have "callbacks (trace st2) = [(7, CloseResult 0)]" using C R c0 by simp
  ultimately show ?thesis using r
    by (intro exI[of _ "log_ev (Ev_cq_advance 1) st2"] exI[of _ i]) (simp add: fifo_env_def fifo_pending_def)
qed

lemma answering_careful_client: "careful_client fifo_env answering"
  unfolding answering_def by (rule answering_careful[OF fifo_env_ok])

theorem completion_finds_its_item_witness:
  "\<exists>st i a. reachable fifo_env (invoke fifo_env answering) st \<and> callbacks (trace st) = [(7, CloseResult 0)] \<and>
     e_peek_cqe fifo_env (trace st) = (0, \<lparr>cqe_user_data = i, cqe_res = 0, cqe_flags = 0\<rparr>) \<and>
     get_work_item (m_pool st) i = Inr (Some a) \<and> request_of st i = Some (SEND_STREAM_DATA, Send_cb (Some 9))"
proof -
  obtain st i where r: "reachable fifo_env (invoke fifo_env answering) st"
    and p: "e_peek_cqe fifo_env (trace st) = (0, \<lparr>cqe_user_data = i, cqe_res = 0, cqe_flags = 0\<rparr>)"
    and q: "callbacks (trace st) = [(7, CloseResult 0)]" "request_of st i = Some (SEND_STREAM_DATA, Send_cb (Some 9))"
    using fifo_answered by blast
  from completion_finds_its_item[OF fifo_env_ok fifo_kernel_ok fifo_single_shot answering_careful_client r p] r p q
  show ?thesis by auto
qed

lemma fifo_no_enobufs: "\<forall>tr. cqe_res (snd (e_peek_cqe fifo_env tr)) \<noteq> - ENOBUFS"
  by (simp add: fifo_env_def errno_defs split: list.split)

theorem submitted_items_are_in_flight_witness:
  "\<exists>st i. reachable fifo_env (invoke fifo_env answering) st \<and>
     in_flight (trace st) = mset_set {i. request_of st i \<noteq> None} \<and> i \<in># in_flight (trace st) \<and>
     request_of st i = Some (SEND_STREAM_DATA, Send_cb (Some 9))"
proof -
  obtain st i where r: "reachable fifo_env (invoke fifo_env answering) st"
    and p: "e_peek_cqe fifo_env (trace st) = (0, \<lparr>cqe_user_data = i, cqe_res = 0, cqe_flags = 0\<rparr>)"
    and q: "request_of st i = Some (SEND_STREAM_DATA, Send_cb (Some 9))"
    using fifo_answered by blast
  have "i \<in># in_flight (trace st)" using fifo_kernel_ok p unfolding kernel_ok_def by fastforce
  with r q submitted_items_are_in_flight[OF fifo_env_ok fifo_kernel_ok fifo_single_shot answering_careful_client
      fifo_no_enobufs r]
  show ?thesis by blast
qed

end
