(* ===== verification/RequestMachine.thy ===== *)
theory RequestMachine
  imports Requests "HOL-Library.Sublist"
begin

text \<open>
  An abstract machine of requests, which the library implements: what the machine shows is
  which requests are awaited, which completions have been seen and which functions of the
  client have been run.  Memory, identifiers' reuse, buffers and the queues are not seen.
\<close>

section \<open>The machine\<close>

record machine =
  awaiting :: "nat \<Rightarrow> (work_type \<times> callback) option"
  seen :: "cqe list"
  client_runs :: "(nat \<times> cb_arg) list"

text \<open>What a function may be told of a completion with result \<open>r\<close>.\<close>

fun tells :: "work_type \<Rightarrow> int \<Rightarrow> cb_arg \<Rightarrow> bool" where
  "tells ACCEPT r (AcceptResult n ad) = (n = r \<and> 0 \<le> r)"
| "tells CONNECT r (ConnectResult n ad) = (n = r \<and> 0 \<le> r)"
| "tells SEND_STREAM_DATA r (SendResult n) = (n = r \<and> 0 \<le> r)"
| "tells SEND_WORKPACKET r (SendResult n) = (n = r \<and> 0 \<le> r)"
| "tells RECV r (Received m) = (0 \<le> r)"
| "tells CLOSE r (CloseResult n) = (n = r)"
| "tells t r x = False"

inductive machine_step :: "machine \<Rightarrow> machine \<Rightarrow> bool" where
  request: "awaiting m i = None \<Longrightarrow> t \<noteq> UNKNOWN \<Longrightarrow> callback_fits t cb \<Longrightarrow>
    machine_step m (m\<lparr>awaiting := (awaiting m)(i \<mapsto> (t, cb))\<rparr>)"
| answered: "awaiting m (cqe_user_data c) = Some (t, cb) \<Longrightarrow> cb_func cb = Some f \<Longrightarrow> tells t (cqe_res c) x \<Longrightarrow>
    t \<noteq> ACCEPT \<Longrightarrow>
    machine_step m \<lparr>awaiting = (awaiting m)(cqe_user_data c := None), seen = seen m @ [c], client_runs = client_runs m @ [(f, x)]\<rparr>"
| served: "awaiting m (cqe_user_data c) = Some (t, cb) \<Longrightarrow> cb_func cb = Some f \<Longrightarrow> tells t (cqe_res c) x \<Longrightarrow>
    t \<in> {ACCEPT, RECV} \<Longrightarrow>
    machine_step m (m\<lparr>seen := seen m @ [c], client_runs := client_runs m @ [(f, x)]\<rparr>)"
| dropped: "awaiting m (cqe_user_data c) = Some (t, cb) \<Longrightarrow>
    t \<in> {CONNECT, SEND_STREAM_DATA, SEND_WORKPACKET} \<Longrightarrow> cqe_res c < 0 \<Longrightarrow>
    machine_step m (m\<lparr>awaiting := (awaiting m)(cqe_user_data c := None), seen := seen m @ [c]\<rparr>)"
| retried: "awaiting m (cqe_user_data c) = Some (t, cb) \<Longrightarrow> t = ACCEPT \<and> cqe_res c < 0 \<or> t = RECV \<Longrightarrow>
    machine_step m (m\<lparr>seen := seen m @ [c]\<rparr>)"
| ignored: "awaiting m (cqe_user_data c) = None \<or> cqe_res c = - ENOBUFS \<Longrightarrow>
    machine_step m (m\<lparr>seen := seen m @ [c]\<rparr>)"

definition machine_start :: machine where
  "machine_start = \<lparr>awaiting = Map.empty, seen = [], client_runs = []\<rparr>"

text \<open>What the machine promises: functions run in the order of completions, one for each.\<close>

definition in_order :: "machine \<Rightarrow> bool" where
  "in_order m \<longleftrightarrow> (\<exists>cs. subseq cs (seen m) \<and>
     list_all2 (\<lambda>(f, x) c. \<exists>t. tells t (cqe_res c) x) (client_runs m) cs)"

lemma in_order_skip: "in_order m \<Longrightarrow> seen m' = seen m @ [c] \<Longrightarrow> client_runs m' = client_runs m \<Longrightarrow> in_order m'"
  unfolding in_order_def by (auto intro: subseq_rev_drop_many)

lemma in_order_run:
  assumes "in_order m" and "seen m' = seen m @ [c]" and "client_runs m' = client_runs m @ [(f, x)]"
    and "tells t (cqe_res c) x"
  shows "in_order m'"
proof -
  from assms(1) obtain cs where "subseq cs (seen m)"
    "list_all2 (\<lambda>(f, x) c. \<exists>t. tells t (cqe_res c) x) (client_runs m) cs"
    unfolding in_order_def by blast
  then have "subseq (cs @ [c]) (seen m')"
    "list_all2 (\<lambda>(f, x) c. \<exists>t. tells t (cqe_res c) x) (client_runs m') (cs @ [c])"
    using assms by (auto intro!: list_all2_appendI)
  then show ?thesis unfolding in_order_def by blast
qed

lemma machine_step_in_order: "machine_step m m' \<Longrightarrow> in_order m \<Longrightarrow> in_order m'"
proof (induction rule: machine_step.induct)
  case (request m i t cb)
  then show ?case by (simp add: in_order_def)
qed (auto intro: in_order_run in_order_skip)

lemma machine_in_order: "machine_step\<^sup>*\<^sup>* machine_start m \<Longrightarrow> in_order m"
proof (induction rule: rtranclp_induct)
  case base
  then show ?case by (simp add: machine_start_def in_order_def)
qed (rule machine_step_in_order)

section \<open>The machine behind a ring\<close>

definition machine_of :: "uring \<Rightarrow> machine" where
  "machine_of st = \<lparr>awaiting = request_of st, seen = cqes (trace st), client_runs = callbacks (trace st)\<rparr>"

lemma request_fits:
  assumes "pool_inv (m_pool st)" and "request_of st i = Some (t, cb)"
  shows "t \<noteq> UNKNOWN \<and> callback_fits t cb"
proof -
  from assms(2) obtain a where "lookup (m_pool st) i = Some a" and
    "t = m_work_type (deref (m_pool st) a)" "cb = m_callback (deref (m_pool st) a)" "t \<noteq> UNKNOWN"
    by (auto simp: request_of_def split: option.splits if_splits)
  then show ?thesis using pool_invD(5)[OF assms(1)] by (auto simp: item_inv_def)
qed

text \<open>New requests, one after the other.\<close>

lemma machine_requests:
  assumes "distinct I" and "\<forall>i \<in> set I. awaiting m i = None \<and>
      (\<exists>t cb. p i = Some (t, cb) \<and> t \<noteq> UNKNOWN \<and> callback_fits t cb)"
    and "\<forall>i. i \<notin> set I \<longrightarrow> p i = awaiting m i"
  shows "machine_step\<^sup>*\<^sup>* m (m\<lparr>awaiting := p\<rparr>)"
  using assms
proof (induction I arbitrary: m)
  case Nil
  then have "p = awaiting m" by auto
  then show ?case by simp
next
  case (Cons i I)
  then obtain t cb where i: "p i = Some (t, cb)" "t \<noteq> UNKNOWN" "callback_fits t cb" "awaiting m i = None"
    by auto
  let ?m = "m\<lparr>awaiting := (awaiting m)(i \<mapsto> (t, cb))\<rparr>"
  have "machine_step m ?m" using i by (intro machine_step.request)
  moreover have "machine_step\<^sup>*\<^sup>* ?m (?m\<lparr>awaiting := p\<rparr>)"
    using Cons.prems i(1) by (intro Cons.IH) auto
  ultimately show ?case by (simp add: converse_rtranclp_into_rtranclp)
qed

section \<open>One completion\<close>

text \<open>
  Which functions a completion runs and what becomes of its item, for a live item of type
  \<open>t\<close> with callback \<open>cb\<close>.
\<close>

definition runs_told :: "uring invoker \<Rightarrow> work_type \<Rightarrow> callback \<Rightarrow> int \<Rightarrow> uring \<Rightarrow> uring \<Rightarrow> bool" where
  "runs_told cbs t cb r st st' \<longleftrightarrow>
     (\<exists>f x act. cb_func cb = Some f \<and> tells t r x \<and> cbs f x st = Inr (st', act))"

lemma accept_effect:
  assumes "call_accept_callback cbs a c st = Inr st'"
  shows "cqe_res c < 0 \<and> st' = st \<or> runs_told cbs ACCEPT (m_callback (deref (m_pool st) a)) (cqe_res c) st st'"
  using assms by (fastforce simp: call_accept_callback_def Let_def runs_told_def split: if_splits
      dest!: item_calls_run)

lemma close_effect:
  assumes "call_close_callback cbs a c st = Inr st'"
  shows "runs_told cbs CLOSE (m_callback (deref (m_pool st) a)) (cqe_res c) st st'"
proof -
  from assms obtain act where "item_call_close_callback cbs (deref (m_pool st) a) (cqe_res c) st = Inr (st', act)"
    by (auto simp: call_close_callback_def)
  from item_calls_run(1)[OF this] obtain f where
    "m_callback (deref (m_pool st) a) = Close_cb (Some f)" "cbs f (CloseResult (cqe_res c)) st = Inr (st', act)"
    by blast
  moreover have "tells CLOSE (cqe_res c) (CloseResult (cqe_res c))" by simp
  ultimately show ?thesis unfolding runs_told_def by (metis cb_func.simps(5))
qed

lemma connect_effect:
  assumes "call_connect_callback cbs a c st = Inr st'"
  shows "cqe_res c < 0 \<and> st' = st \<or> runs_told cbs CONNECT (m_callback (deref (m_pool st) a)) (cqe_res c) st st'"
  using assms by (fastforce simp: call_connect_callback_eq runs_told_def split: if_splits dest!: item_calls_run)

lemma send_effect:
  assumes "call_send_callback cbs a c st = Inr st'" and "t \<in> {SEND_STREAM_DATA, SEND_WORKPACKET}"
  shows "cqe_res c < 0 \<and> st' = st \<or>
    (\<exists>st1. runs_told cbs t (m_callback (deref (m_pool st) a)) (cqe_res c) st st1 \<and> post_step a st1 st')"
proof (cases "cqe_res c < 0")
  case True
  with assms show ?thesis by (simp add: call_send_callback_def)
next
  case False
  with assms obtain act where "item_call_send_callback cbs (update_item a) (deref (m_pool st) a) (cqe_res c) st =
      Inr (st', act)"
    by (auto simp: call_send_callback_def)
  from item_calls_run(5)[OF this] obtain f st1 where
    "m_callback (deref (m_pool st) a) = Send_cb (Some f)" "cbs f (SendResult (cqe_res c)) st = Inr (st1, act)"
    "st' = update_item a clean_send_packet st1" by blast
  moreover from False assms(2) have "tells t (cqe_res c) (SendResult (cqe_res c))" by auto
  ultimately show ?thesis unfolding runs_told_def post_step_def by (metis cb_func.simps(4))
qed

lemma recv_effect:
  assumes "call_recv_callback env cbs a c st = Inr (st', act)"
  shows "act = RE_SUBMIT \<and> post_step a st st' \<or>
    (\<exists>st1. runs_told cbs RECV (m_callback (deref (m_pool st) a)) (cqe_res c) st st1 \<and> post_step a st1 st')"
proof (cases "cqe_res c < 0")
  case True
  with assms show ?thesis by (auto simp: call_recv_callback_def post_step_def split: if_splits)
next
  case False
  with assms obtain st1 buf where st': "st' = recycle_buffer (unat (drop_bit 16 (cqe_flags c))) st1" and
    h: "call_recv_handler_stream cbs buf a c st = Inr (st1, act) \<or>
     call_recv_handler_datagram env cbs buf a c st = Inr (st1, act)"
    by (auto simp: call_recv_callback_def Let_def split: if_splits)
  from h False have "act = RE_SUBMIT \<and> st1 = st \<or>
      runs_told cbs RECV (m_callback (deref (m_pool st) a)) (cqe_res c) st st1"
    by (fastforce simp: call_recv_handler_stream_def call_recv_handler_datagram_def Let_def runs_told_def
        split: if_splits option.splits dest!: item_calls_run)
  then show ?thesis unfolding st' post_step_def by blast
qed

lemma completion_effect:
  assumes inv: "pool_inv (m_pool st)" and l: "lookup (m_pool st) (cqe_user_data c) = Some a"
    and nb: "cqe_res c \<noteq> - ENOBUFS"
    and t: "m_work_type (deref (m_pool st) a) = t" "m_callback (deref (m_pool st) a) = cb"
    and run: "call_callback_and_free_work_item_id env cbs c st = Inr st'"
  shows "\<exists>run s0 s1 s2. pre_step a st s0 \<and> post_step a s1 s2 \<and>
     (if run then runs_told cbs t cb (cqe_res c) s0 s1 else s1 = s0) \<and>
     (release (cqe_user_data c) s2 = Inr st' \<and>
        (if run then t \<noteq> ACCEPT else t \<in> {CONNECT, SEND_STREAM_DATA, SEND_WORKPACKET} \<and> cqe_res c < 0) \<or>
      submit_item_at (submit env (buffer_size s2)) a s2 = Inr st' \<and>
        (if run then t \<in> {ACCEPT, RECV} else t = ACCEPT \<and> cqe_res c < 0 \<or> t = RECV))"
    (is "\<exists>run s0 s1 s2. ?E run s0 s1 s2")
proof -
  note g = completion_of_live[OF inv l]
  have pre: "pre_step a st st" "pre_step a st (accept_written env a st)"
    by (auto simp: pre_step_def accept_written_def split_beta)
  have none: "post_step a s s" for s by (simp add: post_step_def)
  consider (accept) "t = ACCEPT" | (recv) "t = RECV" | (close) "t = CLOSE" | (connect) "t = CONNECT"
    | (send) "t \<in> {SEND_STREAM_DATA, SEND_WORKPACKET}" | (unknown) "t = UNKNOWN"
    by (cases t) auto
  then show ?thesis
  proof cases
    case accept
    let ?s = "accept_written env a st"
    have cb: "m_callback (deref (m_pool ?s) a) = cb"
      using t(2) pool_invD(1)[OF inv l] by (simp add: accept_written_def update_item_def split_beta)
    from accept run g nb t obtain s1 where "call_accept_callback cbs a c ?s = Inr s1"
      and "submit_item_at (submit env (buffer_size s1)) a s1 = Inr st'"
      by (auto simp: call_callback_and_free_work_item_id_def)
    with accept_effect[of cbs a c ?s s1] cb pre(2) none accept
    have "?E True ?s s1 s1 \<or> ?E False ?s s1 s1" by auto
    then show ?thesis by blast
  next
    case recv
    from recv run g nb t obtain s2 act where 1: "call_recv_callback env cbs a c st = Inr (s2, act)"
      and 2: "(case act of NONE \<Rightarrow> release (cqe_user_data c) s2
               | RE_SUBMIT \<Rightarrow> submit_item_at (submit env (buffer_size s2)) a s2) = Inr st'"
      by (auto simp: call_callback_and_free_work_item_id_def)
    from recv_effect[OF 1] show ?thesis
    proof
      assume "act = RE_SUBMIT \<and> post_step a st s2"
      then have "?E False st st s2" using 2 pre(1) recv by auto
      then show ?thesis by blast
    next
      assume "\<exists>s1. runs_told cbs RECV (m_callback (deref (m_pool st) a)) (cqe_res c) st s1 \<and> post_step a s1 s2"
      then obtain s1 where "runs_told cbs RECV cb (cqe_res c) st s1" "post_step a s1 s2" using t by blast
      then have "?E True st s1 s2" using 2 pre(1) recv by (cases act) auto
      then show ?thesis by blast
    qed
  next
    case close
    with run g nb t obtain s1 where "call_close_callback cbs a c st = Inr s1"
      and "release (cqe_user_data c) s1 = Inr st'"
      by (auto simp: call_callback_and_free_work_item_id_def)
    with close_effect[of cbs a c st s1] pre(1) none close t have "?E True st s1 s1" by auto
    then show ?thesis by blast
  next
    case connect
    with run g nb t obtain s1 where "call_connect_callback cbs a c st = Inr s1"
      and "release (cqe_user_data c) s1 = Inr st'"
      by (auto simp: call_callback_and_free_work_item_id_def)
    with connect_effect[of cbs a c st s1] pre(1) none connect t have "?E True st s1 s1 \<or> ?E False st s1 s1" by auto
    then show ?thesis by blast
  next
    case send
    with run g nb t obtain s2 where 1: "call_send_callback cbs a c st = Inr s2"
      and 2: "release (cqe_user_data c) s2 = Inr st'"
      by (auto simp: call_callback_and_free_work_item_id_def)
    from send_effect[OF 1 send] show ?thesis
    proof
      assume "cqe_res c < 0 \<and> s2 = st"
      then have "?E False st st s2" using 2 pre(1) none send by auto
      then show ?thesis by blast
    next
      assume "\<exists>s1. runs_told cbs t (m_callback (deref (m_pool st) a)) (cqe_res c) st s1 \<and> post_step a s1 s2"
      then obtain s1 where "runs_told cbs t cb (cqe_res c) st s1" "post_step a s1 s2" using t by blast
      then have "?E True st s1 s2" using 2 pre(1) send by auto
      then show ?thesis by blast
    qed
  next
    case unknown
    with run g nb t show ?thesis by (simp add: call_callback_and_free_work_item_id_def)
  qed
qed

lemma same_callbacks:
  "pre_step a st st' \<Longrightarrow> callbacks (trace st') = callbacks (trace st)"
  "post_step a st st' \<Longrightarrow> callbacks (trace st') = callbacks (trace st)"
  by (auto simp: pre_step_def post_step_def update_item_def recycle_buffer_def add_buffer_def Let_def)

section \<open>The ring implements the machine\<close>

lemma machine_grow:
  assumes "distinct I" and "\<forall>i \<in> set I. q i = None \<and> request_of st i \<noteq> None"
    and "\<forall>i. i \<notin> set I \<longrightarrow> request_of st i = q i" and p: "pool_inv (m_pool st)"
  shows "machine_step\<^sup>*\<^sup>* \<lparr>awaiting = q, seen = cqes (trace st), client_runs = callbacks (trace st)\<rparr> (machine_of st)"
    (is "machine_step\<^sup>*\<^sup>* ?m _")
proof -
  have "\<exists>t cb. request_of st i = Some (t, cb) \<and> t \<noteq> UNKNOWN \<and> callback_fits t cb" if "i \<in> set I" for i
    using that assms(2) request_fits[OF p, of i] by (cases "request_of st i") auto
  then have "machine_step\<^sup>*\<^sup>* ?m (?m\<lparr>awaiting := request_of st\<rparr>)"
    using assms(1-3) by (intro machine_requests) auto
  then show ?thesis by (simp add: machine_of_def)
qed

lemma machine_finish:
  assumes "machine_step m \<lparr>awaiting = q, seen = s, client_runs = r\<rparr>" and "distinct I"
    and "\<forall>i \<in> set I. q i = None \<and> request_of st i \<noteq> None" and "\<forall>i. i \<notin> set I \<longrightarrow> request_of st i = q i"
    and "pool_inv (m_pool st)" and "cqes (trace st) = s" and "callbacks (trace st) = r"
  shows "machine_step\<^sup>*\<^sup>* m (machine_of st)"
  using assms(1) machine_grow[OF assms(2-5)] unfolding assms(6,7) by (rule converse_rtranclp_into_rtranclp)

lemma starts_machine:
  assumes s: "starts st st'" and "pool_inv (m_pool st')" and "cqes (trace st') = cqes (trace st)"
    and "callbacks (trace st') = callbacks (trace st)"
  shows "machine_step\<^sup>*\<^sup>* (machine_of st) (machine_of st')"
  using starts_ids[OF s] machine_grow[of _ "request_of st" st'] assms(2-4) unfolding machine_of_def by auto

context careful_runner
begin

lemma told_ok:
  assumes env: "env_ok env" and inv: "pool_inv (m_pool st)"
    and run: "if run then runs_told cbs t cb r st st' else st' = st"
  shows "runs_at_most_one cbs st st'"
    and "\<exists>rs. callbacks (trace st') = callbacks (trace st) @ rs \<and>
      (if run then \<exists>f x. rs = [(f, x)] \<and> cb_func cb = Some f \<and> tells t r x else rs = [])"
proof -
  show "runs_at_most_one cbs st st'"
    using run by (auto simp: runs_told_def runs_at_most_one_def split: if_splits)
  show "\<exists>rs. callbacks (trace st') = callbacks (trace st) @ rs \<and>
      (if run then \<exists>f x. rs = [(f, x)] \<and> cb_func cb = Some f \<and> tells t r x else rs = [])"
    using run callback_ok[OF env inv] by (fastforce simp: runs_told_def split: if_splits)
qed

lemma live_completion_refines:
  assumes env: "env_ok env" and inv: "pool_inv (m_pool st)"
    and l: "lookup (m_pool st) (cqe_user_data c) = Some a" and nb: "cqe_res c \<noteq> - ENOBUFS"
    and tr: "cqes (trace st) = cs @ [c]"
    and run: "call_callback_and_free_work_item_id env cbs c st = Inr st'"
  shows "machine_step\<^sup>*\<^sup>* ((machine_of st)\<lparr>seen := cs\<rparr>) (machine_of st')"
proof -
  let ?i = "cqe_user_data c" and ?wi = "deref (m_pool st) a" and ?m = "(machine_of st)\<lparr>seen := cs\<rparr>"
  let ?t = "m_work_type ?wi" and ?cb = "m_callback ?wi"
  from completion_effect[OF inv l nb refl refl run] obtain fun_run s0 s1 s2 where
    s: "pre_step a st s0" "post_step a s1 s2" and
    told: "if fun_run then runs_told cbs ?t ?cb (cqe_res c) s0 s1 else s1 = s0" and
    out: "release ?i s2 = Inr st' \<and>
        (if fun_run then ?t \<noteq> ACCEPT else ?t \<in> {CONNECT, SEND_STREAM_DATA, SEND_WORKPACKET} \<and> cqe_res c < 0) \<or>
      submit_item_at (submit env (buffer_size s2)) a s2 = Inr st' \<and>
        (if fun_run then ?t \<in> {ACCEPT, RECV} else ?t = ACCEPT \<and> cqe_res c < 0 \<or> ?t = RECV)"
    by blast
  note a = pool_invD(1)[OF inv l]
  have p0: "pool_inv (m_pool s0)" using pre_step_ok[OF inv a s(1)] by blast
  note ran = told_ok[OF env p0 told]
  have B: "pool_inv (m_pool s2)" "run_frame st s2" "starts st s2"
    using before_last_ok[OF env inv a s(1) ran(1) s(2)] before_last_starts[OF env inv a s(1) ran(1) s(2)]
    by simp_all
  then have l2: "lookup (m_pool s2) ?i = Some a" and c2: "cqes (trace s2) = cs @ [c]"
    using l tr by (auto simp: run_frame_def pool_grows_def)
  from ran(2) obtain rs where rs: "callbacks (trace s2) = callbacks (trace st) @ rs"
    "if fun_run then \<exists>f x. rs = [(f, x)] \<and> cb_func ?cb = Some f \<and> tells ?t (cqe_res c) x else rs = []"
    using same_callbacks(1)[OF s(1)] same_callbacks(2)[OF s(2)] by metis
  have known: "request_of st ?i = Some (?t, ?cb)" if "?t \<noteq> UNKNOWN"
    using l that by (simp add: request_of_def)
  have busy: "?t \<noteq> UNKNOWN" using out rs(2) by (auto split: if_splits)
  from B(3) obtain I where I: "distinct I" "\<forall>i \<in> set I. request_of st i = None \<and> request_of s2 i \<noteq> None"
    "\<forall>i. i \<notin> set I \<longrightarrow> request_of s2 i = request_of st i"
    using starts_ids by blast
  have i: "?i \<notin> set I" using I(2) known[OF busy] by auto
  from out show ?thesis
  proof
    assume o: "release ?i s2 = Inr st' \<and>
        (if fun_run then ?t \<noteq> ACCEPT else ?t \<in> {CONNECT, SEND_STREAM_DATA, SEND_WORKPACKET} \<and> cqe_res c < 0)"
    note R = release_frame[OF B(1) l2 conjunct1[OF o]]
    let ?m1 = "\<lparr>awaiting = (request_of st)(?i := None), seen = cs @ [c], client_runs = callbacks (trace st) @ rs\<rparr>"
    have "machine_step ?m ?m1"
    proof (cases fun_run)
      case True
      then obtain f x where "rs = [(f, x)]" "cb_func ?cb = Some f" "tells ?t (cqe_res c) x" using rs(2) by auto
      with True o known[OF busy] machine_step.answered[of ?m c ?t ?cb f x] show ?thesis
        by (simp add: machine_of_def)
    next
      case False
      with rs(2) o known[OF busy] machine_step.dropped[of ?m c ?t ?cb] show ?thesis
        by (simp add: machine_of_def)
    qed
    then show ?thesis
      by (rule machine_finish[OF _ I(1)]) (use I i R rs(1) c2 in \<open>auto simp del: not_None_eq\<close>)
  next
    assume o: "submit_item_at (submit env (buffer_size s2)) a s2 = Inr st' \<and>
        (if fun_run then ?t \<in> {ACCEPT, RECV} else ?t = ACCEPT \<and> cqe_res c < 0 \<or> ?t = RECV)"
    note R = resubmit_frame[OF B(1) l2 conjunct1[OF o]]
    let ?m1 = "\<lparr>awaiting = request_of st, seen = cs @ [c], client_runs = callbacks (trace st) @ rs\<rparr>"
    have "machine_step ?m ?m1"
    proof (cases fun_run)
      case True
      then obtain f x where "rs = [(f, x)]" "cb_func ?cb = Some f" "tells ?t (cqe_res c) x" using rs(2) by auto
      with True o known[OF busy] machine_step.served[of ?m c ?t ?cb f x] show ?thesis
        by (simp add: machine_of_def)
    next
      case False
      with rs(2) o known[OF busy] machine_step.retried[of ?m c ?t ?cb] show ?thesis
        by (simp add: machine_of_def)
    qed
    then show ?thesis
      by (rule machine_finish[OF _ I(1)]) (use I R rs(1) c2 in \<open>auto simp: run_frame_def simp del: not_None_eq\<close>)
  qed
qed

lemma completion_refines:
  assumes env: "env_ok env" and inv: "pool_inv (m_pool st)"
    and run: "call_callback_and_free_work_item_id env cbs c (log_ev (Ev_cqe c) st) = Inr st'"
  shows "machine_step\<^sup>*\<^sup>* (machine_of st) (machine_of st')"
proof -
  let ?st = "log_ev (Ev_cqe c) st" and ?i = "cqe_user_data c"
  have p: "pool_inv (m_pool ?st)" using inv by simp
  have ign: ?thesis if "st' = ?st" and "request_of st ?i = None \<or> cqe_res c = - ENOBUFS"
  proof -
    have "machine_step (machine_of st) (machine_of st\<lparr>seen := seen (machine_of st) @ [c]\<rparr>)"
      using that(2) by (intro machine_step.ignored) (simp add: machine_of_def)
    then show ?thesis by (simp add: that(1) machine_of_def)
  qed
  show ?thesis
  proof (cases "lookup (m_pool ?st) ?i")
    case None
    then have "st' = ?st" "request_of st ?i = None"
      using run get_work_item_eq[OF p, of ?i]
      by (auto simp: call_callback_and_free_work_item_id_def request_of_def split: if_splits)
    then show ?thesis using ign by blast
  next
    case (Some a)
    show ?thesis
    proof (cases "cqe_res c = - ENOBUFS")
      case True
      then have "st' = ?st"
        using run completion_of_live[OF p Some] by (simp add: call_callback_and_free_work_item_id_def)
      then show ?thesis using ign True by blast
    next
      case False
      then show ?thesis using live_completion_refines[OF env p Some False _ run, of "cqes (trace st)"]
        by (simp add: machine_of_def)
    qed
  qed
qed

lemma poll_refines:
  assumes env: "env_ok env" and inv: "pool_inv (m_pool st)"
    and run: "poll_completion_queues env cbs st = Inr (st', err)"
  shows "machine_step\<^sup>*\<^sup>* (machine_of st) (machine_of st')"
proof (cases "fst (e_peek_cqe env (trace st)) = 0")
  case True
  let ?c = "snd (e_peek_cqe env (trace st))"
  from True run obtain st1 where
    1: "call_callback_and_free_work_item_id env cbs ?c (log_ev (Ev_cqe ?c) st) = Inr st1"
    and st': "st' = log_ev (Ev_cq_advance 1) st1"
    by (auto simp: poll_completion_queues_def split_beta)
  have "machine_of st' = machine_of st1" by (simp add: st' machine_of_def)
  with completion_refines[OF env inv 1] show ?thesis by simp
next
  case False
  with run have "machine_of st' = machine_of st"
    by (auto simp: poll_completion_queues_def machine_of_def split_beta split: if_splits)
  then show ?thesis by simp
qed

lemma reachable_refines:
  assumes env: "env_ok env" and r: "reachable env cbs st"
  shows "pool_inv (m_pool st) \<and> machine_step\<^sup>*\<^sup>* machine_start (machine_of st)"
  using r
proof induction
  case (init junk queue_size st r)
  have "request_of st = Map.empty" "pool_inv (m_pool st)"
    using init_silent[OF init] pool_inv_new by (auto simp: IOUring_new_def request_of_def lookup_def WorkPool_new_def)
  then show ?case using init_silent[OF init] by (simp add: machine_of_def machine_start_def IOUring_new_def)
next
  case (call st c st')
  have "api_ok st st'" using api_step_ok[OF env _ call(3)] call(4) by blast
  moreover have "starts st st'"
    using api_step_starts[OF env _ call(3,2)] call(4) by (blast intro: starts_none_starts starts_one_starts)
  ultimately show ?case
    using call(4) starts_machine[of st st'] by (auto simp: api_ok_def api_frame_def trace_grows_def)
next
  case (poll st st' r)
  then show ?case using poll_refines[OF env] poll_inv[OF env] by (meson rtranclp_trans)
qed

end

section \<open>Properties\<close>


text \<open>
  C9: The functions of a careful client (none that is run hands over an item that is not in
  the table or has been handed over before) are run in the order of the completions, each
  for a completion of its own: the runs match a subsequence of the completions taken from
  the kernel, with the result that this completion has (for a receive, a result that is not
  an error).
\<close>

theorem callbacks_in_order:
  assumes "env_ok env" and "careful_client env client" and "reachable env (invoke env client) st"
  shows "\<exists>cs. subseq cs (cqes (trace st)) \<and>
     list_all2 (\<lambda>(f, x) c. \<exists>t. tells t (cqe_res c) x) (callbacks (trace st)) cs"
proof -
  have "in_order (machine_of st)"
    using watched.reachable_refines[OF assms(1) careful_reachable[OF assms(2,3)]]
    by (blast intro: machine_in_order)
  then show ?thesis by (simp add: in_order_def machine_of_def)
qed


theorem callbacks_in_order_witness:
  "\<exists>st c i. reachable fifo_env (invoke fifo_env answering) st \<and> callbacks (trace st) = [(7, CloseResult 0)] \<and>
     subseq [c] (cqes (trace st)) \<and> cqe_res c = 0 \<and> request_of st i = Some (SEND_STREAM_DATA, Send_cb (Some 9))"
proof -
  obtain st i where r: "reachable fifo_env (invoke fifo_env answering) st"
    and c: "callbacks (trace st) = [(7, CloseResult 0)]" "request_of st i = Some (SEND_STREAM_DATA, Send_cb (Some 9))"
    using fifo_answered by blast
  from callbacks_in_order[OF fifo_env_ok answering_careful_client r] obtain d t where
    "subseq [d] (cqes (trace st))" "tells t (cqe_res d) (CloseResult 0)"
    by (auto simp: c(1) list_all2_Cons1)
  moreover from this(2) have "cqe_res d = 0" by (cases t) auto
  ultimately show ?thesis using r c by blast
qed

end
