(* ===== verification/Progress.thy ===== *)
theory Progress
  imports RequestMachine
begin

text \<open>
  Progress of the whole program: with a kernel that answers, polling completes every
  request that is in flight, and every function that waits for one is run once.
\<close>

section \<open>Polling several times\<close>

primrec poll_times :: "env \<Rightarrow> uring invoker \<Rightarrow> nat \<Rightarrow> uring \<Rightarrow> uring res" where
  "poll_times env cbs 0 st = Inr st"
| "poll_times env cbs (Suc n) st =
     bindE (poll_completion_queues env cbs st) (\<lambda>(st, _). poll_times env cbs n st)"

text \<open>Polling for ever: a property of states in which each poll returns, and which each poll keeps.\<close>

locale steady_polling =
  fixes env :: env and cbs :: "uring invoker" and steady :: "uring \<Rightarrow> bool"
  assumes steady_poll: "steady st \<Longrightarrow> \<exists>st'. poll_completion_queues env cbs st = Inr (st', OK) \<and> steady st'"
begin

lemma steady_times: "steady st \<Longrightarrow> \<exists>st'. poll_times env cbs n st = Inr st' \<and> steady st'"
proof (induction n arbitrary: st)
  case (Suc n)
  from steady_poll[OF Suc.prems] obtain st1 where
    "poll_completion_queues env cbs st = Inr (st1, OK)" "steady st1" by blast
  with Suc.IH show ?case by fastforce
qed simp

end

text \<open>
  A kernel that has a completion after some time whenever a request is in flight, without an
  error; how often a poll finds nothing before that is open.
\<close>

definition answers_after :: "env \<Rightarrow> event list \<Rightarrow> nat \<Rightarrow> bool" where
  "answers_after env tr n \<longleftrightarrow> (\<forall>m < n. fst (e_peek_cqe env (tr @ replicate m Ev_no_cqe)) = - EAGAIN) \<and>
     fst (e_peek_cqe env (tr @ replicate n Ev_no_cqe)) = 0"

definition answering_kernel :: "env \<Rightarrow> bool" where
  "answering_kernel env \<longleftrightarrow>
     (\<forall>tr. (in_flight tr \<noteq> {#} \<longrightarrow> (\<exists>n. answers_after env tr n)) \<and> 0 \<le> cqe_res (snd (e_peek_cqe env tr)))"

definition waited :: "nat \<Rightarrow> uring \<Rightarrow> uring" where
  "waited n st = st\<lparr>trace := trace st @ replicate n Ev_no_cqe\<rparr>"

lemma waited_simps [simp]:
  "m_pool (waited n st) = m_pool st" "trace (waited n st) = trace st @ replicate n Ev_no_cqe"
  "waited 0 st = st" "waited n (log_ev Ev_no_cqe st) = waited (Suc n) st"
  by (simp_all add: waited_def log_ev_def replicate_append_same flip: replicate_Suc)

lemma projections_waited [simp]:
  "sqes (replicate n Ev_no_cqe) = []" "cqes (replicate n Ev_no_cqe) = []"
  "callbacks (replicate n Ev_no_cqe) = []"
  by (induction n) simp_all

lemma waited_keeps [simp]:
  "request_of (waited n st) = request_of st"
  "in_flight (trace st @ replicate n Ev_no_cqe) = in_flight (trace st)"
  by (rule request_of_cong, simp) (simp add: in_flight_def handed_over_def completed_def)

lemma waited_inv [simp]:
  "flight_inv hole (waited n st) = flight_inv hole st" "exact hole (waited n st) = exact hole st"
  using flight_inv_cong[of "waited n st" st hole] by simp_all

lemma poll_times_add:
  "poll_times env cbs (m + n) st = bindE (poll_times env cbs m st) (poll_times env cbs n)"
proof (induction m arbitrary: st)
  case (Suc m)
  then show ?case by (cases "poll_completion_queues env cbs st") (auto simp: split_beta)
qed simp

lemma poll_waits:
  "\<forall>m < n. fst (e_peek_cqe env (trace st @ replicate m Ev_no_cqe)) = - EAGAIN \<Longrightarrow>
     poll_times env cbs n st = Inr (waited n st)"
proof (induction n arbitrary: st)
  case (Suc n)
  have "fst (e_peek_cqe env (trace st)) = - EAGAIN" using Suc.prems by fastforce
  then have p: "poll_completion_queues env cbs st = Inr (log_ev Ev_no_cqe st, OK)"
    by (simp add: poll_completion_queues_def split_beta errno_defs)
  have "\<forall>m < n. fst (e_peek_cqe env (trace (log_ev Ev_no_cqe st) @ replicate m Ev_no_cqe)) = - EAGAIN"
  proof (intro allI impI)
    fix m assume "m < n"
    with Suc.prems have "fst (e_peek_cqe env (trace st @ replicate (Suc m) Ev_no_cqe)) = - EAGAIN" by blast
    then show "fst (e_peek_cqe env (trace (log_ev Ev_no_cqe st) @ replicate m Ev_no_cqe)) = - EAGAIN" by simp
  qed
  from Suc.IH[OF this] p show ?case by simp
qed simp

text \<open>All that is submitted is of the types that complete once, with a function to call.\<close>

definition all_once :: "uring \<Rightarrow> bool" where
  "all_once st \<longleftrightarrow> (\<forall>i t cb. request_of st i = Some (t, cb) \<longrightarrow> completes_once t \<and> cb_func cb \<noteq> None)"

definition waiting_func :: "uring \<Rightarrow> nat \<Rightarrow> nat" where
  "waiting_func st i = the (cb_func (snd (the (request_of st i))))"

lemma exact_in_flight:
  assumes "exact {} st" and "flight_inv {} st"
  shows "in_flight (trace st) = mset_set {i. request_of st i \<noteq> None}"
    and "finite {i. request_of st i \<noteq> None}"
proof -
  have "{i. request_of st i \<noteq> None} \<subseteq> live (m_pool st)"
    by (auto simp: request_of_def live_def split: option.splits)
  then show "finite {i. request_of st i \<noteq> None}" by (rule finite_subset) simp
  then show "in_flight (trace st) = mset_set {i. request_of st i \<noteq> None}"
    using assms(1) by (intro multiset_eqI) (auto simp: exact_def count_mset_set')
qed

section \<open>One poll\<close>

lemma tidied_requests:
  assumes "g \<in> {id, update_item a clean_send_packet}" and "pool_inv (m_pool st)"
    and "a < length (heap (m_pool st))"
  shows "request_of (g st) = request_of st"
proof -
  have c: "clean_send_packet = get_send_packet"
    by (simp add: fun_eq_iff clean_send_packet_def get_send_packet_def)
  have "starts_none st (update_item a get_send_packet st)"
    by (rule conjunct2[OF conjunct2[OF update_item_ok[OF assms(2) _ _ assms(3)]]])
      (simp add: item_inv_get_send_packet, simp add: get_send_packet_def same_request_def)
  then show ?thesis using assms(1) by (auto simp: c starts_none_def)
qed

lemma drain_step:
  assumes env: "env_ok env" "kernel_ok env" "single_shot env" "answering_kernel env"
    and inv: "flight_inv {} st" "exact {} st" "all_once st"
    and some: "fst (e_peek_cqe env (trace st)) = 0"
  shows "\<exists>st' i. poll_completion_queues env (invoke env idle_client) st = Inr (st', OK) \<and>
    request_of st i \<noteq> None \<and> request_of st' = (request_of st)(i := None) \<and>
    map fst (callbacks (trace st')) = map fst (callbacks (trace st)) @ [waiting_func st i] \<and>
    flight_inv {} st' \<and> exact {} st'"
proof -
  let ?cbs = "invoke env idle_client"
  let ?c = "snd (e_peek_cqe env (trace st))"
  let ?i = "cqe_user_data ?c" and ?st = "log_ev (Ev_cqe ?c) st"
  have peek: "e_peek_cqe env (trace st) = (0, ?c)" and res: "0 \<le> cqe_res ?c"
    using env(4) some by (simp_all add: answering_kernel_def prod_eq_iff)
  then have nb: "cqe_res ?c \<noteq> - ENOBUFS" by (simp add: errno_defs)
  have "?i \<in># in_flight (trace st)" using env(2) peek unfolding kernel_ok_def by blast
  from take_completion[OF inv(1) this env(3)[unfolded single_shot_def, rule_format]] have q: "request_of ?st ?i \<noteq> None" by simp
  then obtain a where l: "lookup (m_pool ?st) ?i = Some a"
    and t: "request_of ?st ?i = Some (m_work_type (deref (m_pool ?st) a), m_callback (deref (m_pool ?st) a))"
    by (auto simp: request_of_def split: option.splits if_splits)
  have pinv: "pool_inv (m_pool ?st)" using flight_inv_pool[OF inv(1)] by simp
  have t': "request_of st ?i = Some (m_work_type (deref (m_pool ?st) a), m_callback (deref (m_pool ?st) a))"
    using t by simp
  from inv(3)[unfolded all_once_def, rule_format, OF t'] obtain f
    where f: "cb_func (m_callback (deref (m_pool ?st) a)) = Some f"
      and once: "completes_once (m_work_type (deref (m_pool ?st) a))"
    by blast
  from completes_once_eq[OF pinv l nb once f, of env ?cbs] res obtain g x where
    g: "g \<in> {id, update_item a clean_send_packet}" and
    eq: "call_callback_and_free_work_item_id env ?cbs ?c ?st = run_and_release ?cbs f x g ?i ?st"
    by auto
  let ?st1 = "log_ev (Ev_callback f x) ?st"
  have l1: "lookup (m_pool ?st1) ?i = Some a" and p1: "pool_inv (m_pool ?st1)" using l pinv by simp_all
  note G = tidied[OF g p1 pool_invD(1)[OF p1 l1]]
  have rg: "request_of (g ?st1) = request_of st"
    using tidied_requests[OF g p1 pool_invD(1)[OF p1 l1]] by simp
  from G have lg: "lookup (m_pool (g ?st1)) ?i = Some a" and pg: "pool_inv (m_pool (g ?st1))"
    using l1 by simp_all
  from release_succeeds[OF pg lg] obtain st2 where r2: "release ?i (g ?st1) = Inr st2" by blast
  note R = release_frame[OF pg lg r2]
  have p: "poll_completion_queues env ?cbs st = Inr (log_ev (Ev_cq_advance 1) st2, OK)"
    using poll_completion[OF peek] eq r2 by (simp add: run_and_release_def)
  note F = idle.poll_flight[OF env(1-3) inv(1) p]
  show ?thesis
    by (rule exI[of _ "log_ev (Ev_cq_advance 1) st2"], rule exI[of _ ?i])
      (use p q R G rg F inv(2) nb t f in \<open>auto simp: waiting_func_def\<close>)
qed

section \<open>Draining\<close>

lemma drain:
  assumes env: "env_ok env" "kernel_ok env" "single_shot env" "answering_kernel env"
  shows "flight_inv {} st \<Longrightarrow> exact {} st \<Longrightarrow> all_once st \<Longrightarrow> size (in_flight (trace st)) = n \<Longrightarrow>
    \<exists>polls st' fs. poll_times env (invoke env idle_client) polls st = Inr st' \<and> in_flight (trace st') = {#} \<and>
      request_of st' = Map.empty \<and>
      map fst (callbacks (trace st')) = map fst (callbacks (trace st)) @ fs \<and>
      mset fs = image_mset (waiting_func st) (in_flight (trace st))"
proof (induction n arbitrary: st)
  case 0
  then have "in_flight (trace st) = {#}" by simp
  moreover have "{i. request_of st i \<noteq> None} = {}"
    using calculation exact_in_flight[OF 0(2,1)] by (simp add: mset_set_empty_iff)
  then have "request_of st = Map.empty" by (intro ext) blast
  ultimately show ?case by (intro exI[of _ 0]) simp
next
  case (Suc n)
  let ?cbs = "invoke env idle_client"
  from Suc.prems(4) have "in_flight (trace st) \<noteq> {#}" by auto
  then obtain k where k: "answers_after env (trace st) k"
    using env(4) unfolding answering_kernel_def by blast
  then have w: "poll_times env ?cbs k st = Inr (waited k st)"
    by (intro poll_waits) (simp add: answers_after_def)
  have "flight_inv {} (waited k st)" "exact {} (waited k st)" "all_once (waited k st)"
    "fst (e_peek_cqe env (trace (waited k st))) = 0"
    using Suc.prems(1-3) k by (simp_all add: all_once_def answers_after_def)
  from drain_step[OF env this] obtain st1 i where
    p: "poll_completion_queues env ?cbs (waited k st) = Inr (st1, OK)" and
    i: "request_of st i \<noteq> None" and r: "request_of st1 = (request_of st)(i := None)" and
    c: "map fst (callbacks (trace st1)) = map fst (callbacks (trace st)) @ [waiting_func st i]" and
    inv1: "flight_inv {} st1" "exact {} st1" by (auto simp: waiting_func_def)
  let ?D = "{j. request_of st j \<noteq> None}"
  have D: "{j. request_of st1 j \<noteq> None} = ?D - {i}" by (auto simp: r)
  have fl: "in_flight (trace st) = add_mset i (in_flight (trace st1))"
    unfolding exact_in_flight(1)[OF Suc.prems(2,1)] exact_in_flight(1)[OF inv1(2,1)] D
    using exact_in_flight(2)[OF Suc.prems(2,1)] i by (simp add: mset_set.remove)
  have "all_once st1" using Suc.prems(3) by (auto simp: all_once_def r)
  moreover have "size (in_flight (trace st1)) = n" using Suc.prems(4) fl by simp
  ultimately obtain polls st' fs where
    s: "poll_times env ?cbs polls st1 = Inr st'" "in_flight (trace st') = {#}"
      "request_of st' = Map.empty"
      "map fst (callbacks (trace st')) = map fst (callbacks (trace st1)) @ fs"
      "mset fs = image_mset (waiting_func st1) (in_flight (trace st1))"
    using Suc.IH[OF inv1] by blast
  have "image_mset (waiting_func st1) (in_flight (trace st1))
      = image_mset (waiting_func st) (in_flight (trace st1))"
  proof (rule image_mset_cong)
    fix x assume "x \<in># in_flight (trace st1)"
    then have "x \<in> {j. request_of st1 j \<noteq> None}"
      using exact_in_flight[OF inv1(2,1)] by simp
    then show "waiting_func st1 x = waiting_func st x" by (auto simp: waiting_func_def r)
  qed
  then have "mset (waiting_func st i # fs) = image_mset (waiting_func st) (in_flight (trace st))"
    using s(5) by (simp add: fl)
  moreover have "poll_times env ?cbs (k + Suc polls) st = Inr st'"
    using w p s(1) by (simp add: poll_times_add del: add_Suc_right invoke_idle)
  ultimately show ?case using s c by (intro exI[of _ "k + Suc polls"] exI[of _ st'] exI[of _ "waiting_func st i # fs"]) (simp del: invoke_idle)
qed

text \<open>
  C5: From any reachable state in which the submitted items are closes, connects and sends,
  each with a function, polling completes them all, if the kernel answers each after some
  time without an error and the functions start nothing new: every poll returns, at the end no request is in flight and no submitted item is left, and the
  functions run are those of the requests, each once.
\<close>

theorem polls_complete_all:
  assumes "env_ok env" and "kernel_ok env" "single_shot env" and "answering_kernel env"
    and "reachable env (invoke env idle_client) st" and "all_once st"
  shows "\<exists>polls st' fs. poll_times env (invoke env idle_client) polls st = Inr st'
    \<and> in_flight (trace st') = {#} \<and> request_of st' = Map.empty
    \<and> map fst (callbacks (trace st')) = map fst (callbacks (trace st)) @ fs
    \<and> mset fs = image_mset (waiting_func st) (in_flight (trace st))"
proof -
  have "\<forall>tr. cqe_res (snd (e_peek_cqe env tr)) \<noteq> - ENOBUFS"
  proof
    fix tr
    have "0 \<le> cqe_res (snd (e_peek_cqe env tr))" using assms(4) by (simp add: answering_kernel_def)
    then show "cqe_res (snd (e_peek_cqe env tr)) \<noteq> - ENOBUFS" by (simp add: errno_defs)
  qed
  then have "exact {} st"
    by (rule idle.reachable_exact[OF assms(1-3) _ assms(5)])
  with idle.reachable_flight[OF assms(1-3,5)] show ?thesis
    using drain[OF assms(1-4) _ _ assms(6) refl] by blast
qed

text \<open>One request to close a socket, and the kernel that answers in order.\<close>

lemma fifo_answering: "answering_kernel fifo_env"
proof -
  have "fifo_pending tr \<noteq> []" if "in_flight tr \<noteq> {#}" for tr
    using that mset_fifo_pending[of tr] by auto
  then show ?thesis
    by (auto simp: answering_kernel_def answers_after_def fifo_env_def intro!: exI[of _ 0] split: list.split)
qed

theorem polls_complete_all_witness:
  "\<exists>st polls st'. reachable fifo_env (invoke fifo_env idle_client) st \<and>
     poll_times fifo_env (invoke fifo_env idle_client) polls st = Inr st' \<and>
     map fst (callbacks (trace st')) = [7] \<and> in_flight (trace st') = {#}"
proof -
  obtain st where r: "reachable fifo_env (invoke fifo_env idle_client) st"
    and q: "request_of st = [0 \<mapsto> (CLOSE, Close_cb (Some 7))]" and c: "callbacks (trace st) = []"
    using fifo_one_close[of idle_client] by (elim exE conjE) (rule that)
  have "exact {} st" "flight_inv {} st"
    using idle.reachable_exact[OF fifo_env_ok fifo_kernel_ok fifo_single_shot fifo_no_enobufs r]
      idle.reachable_flight[OF fifo_env_ok fifo_kernel_ok fifo_single_shot r] by blast+
  then have "in_flight (trace st) = {#0#}" by (simp add: exact_in_flight(1) q)
  moreover have "all_once st" by (auto simp: all_once_def q completes_once_def split: if_splits)
  ultimately show ?thesis
    using polls_complete_all[OF fifo_env_ok fifo_kernel_ok fifo_single_shot fifo_answering r] r c q
    by (fastforce simp: waiting_func_def)
qed

end
