(* ===== verification/MacAddress.thy ===== *)
theory MacAddress
  imports Prelude
begin

text \<open>
  \<^verbatim>\<open>include/iuring/MacAddress.hpp\<close> and its two functions in \<^verbatim>\<open>src/IPAddress.cpp\<close>:
  a MAC address, read with \<^verbatim>\<open>sscanf\<close> and printed with \<^verbatim>\<open>std::format\<close>.  The conversion
  \<^verbatim>\<open>%02hhx\<close> is written out as the C standard describes it.
\<close>

section \<open>Hexadecimal digits\<close>

definition hex_value :: "char \<Rightarrow> nat option" where
  "hex_value c =
     (let n = of_char c in
        if 48 \<le> n \<and> n \<le> 57 then Some (n - 48)
        else if 97 \<le> n \<and> n \<le> 102 then Some (n - 87)
        else if 65 \<le> n \<and> n \<le> 70 then Some (n - 55)
        else None)"

definition hex_digit :: "nat \<Rightarrow> char" where
  "hex_digit n = ''0123456789abcdef'' ! n"

definition is_space :: "char \<Rightarrow> bool" where
  "is_space c = (let n = of_char c :: nat in n = 32 \<or> (9 \<le> n \<and> n \<le> 13))"

text \<open>\<^verbatim>\<open>{:02x}\<close> of a byte\<close>

definition format_02x :: "byte \<Rightarrow> string" where
  "format_02x b = [hex_digit (unat b div 16), hex_digit (unat b mod 16)]"

text \<open>
  \<^verbatim>\<open>%02hhx\<close>: white space is skipped, then at most two characters are read: a sign and a
  digit, or one or two digits.  The prefix \<^verbatim>\<open>0x\<close> uses up both characters and leaves no
  digit, which is a matching failure.
\<close>

definition scan_hhx2 :: "string \<Rightarrow> (byte \<times> string) option" where
  "scan_hhx2 s =
     (case dropWhile is_space s of
        [] \<Rightarrow> None
      | c # cs \<Rightarrow>
          if c = CHR ''+'' \<or> c = CHR ''-'' then
            (case cs of
               [] \<Rightarrow> None
             | d # ds \<Rightarrow> (case hex_value d of
                 None \<Rightarrow> None
               | Some v \<Rightarrow> Some (if c = CHR ''-'' then - of_nat v else of_nat v, ds)))
          else (case hex_value c of
              None \<Rightarrow> None
            | Some u \<Rightarrow> (case cs of
                [] \<Rightarrow> Some (of_nat u, [])
              | d # ds \<Rightarrow>
                  if c = CHR ''0'' \<and> (d = CHR ''x'' \<or> d = CHR ''X'') then None
                  else (case hex_value d of
                      None \<Rightarrow> Some (of_nat u, cs)
                    | Some v \<Rightarrow> Some (of_nat (16 * u + v), ds)))))"

text \<open>
  \<^verbatim>\<open>n\<close> conversions separated by colons: the values that are assigned before the first
  failure.
\<close>

fun sscanf_hhx2 :: "nat \<Rightarrow> string \<Rightarrow> byte list" where
  "sscanf_hhx2 0 s = []"
| "sscanf_hhx2 (Suc n) s =
     (case scan_hhx2 s of
        None \<Rightarrow> []
      | Some (b, rest) \<Rightarrow> b #
          (case rest of
             [] \<Rightarrow> []
           | c # cs \<Rightarrow> if c = CHR '':'' then sscanf_hhx2 n cs else []))"

section \<open>The class\<close>

record MacAddress =
  mac_bytes :: "byte list"  \<comment> \<open>\<^verbatim>\<open>std::array<uint8_t, 6>\<close>\<close>

definition MacAddress_of_bytes :: "byte \<Rightarrow> byte \<Rightarrow> byte \<Rightarrow> byte \<Rightarrow> byte \<Rightarrow> byte \<Rightarrow> MacAddress" where
  "MacAddress_of_bytes b0 b1 b2 b3 b4 b5 = \<lparr>mac_bytes = [b0, b1, b2, b3, b4, b5]\<rparr>"

text \<open>
  The constructor ignores the number of conversions that \<^verbatim>\<open>sscanf\<close> returns; the array
  starts as zeros.  \<^verbatim>\<open>c_str()\<close> is the text up to the first NUL.
\<close>

definition c_str :: "string \<Rightarrow> string" where
  "c_str s = takeWhile (\<lambda>c. c \<noteq> CHR 0x00) s"

definition MacAddress_of_string :: "string \<Rightarrow> MacAddress" where
  "MacAddress_of_string mac =
     \<lparr>mac_bytes = memcpy_at 0 (sscanf_hhx2 6 (c_str mac)) (replicate 6 0)\<rparr>"

definition mac_to_string :: "MacAddress \<Rightarrow> char \<Rightarrow> string" where
  "mac_to_string m sep =
     format_02x (mac_bytes m ! 0) @ [sep] @ format_02x (mac_bytes m ! 1) @ [sep] @
     format_02x (mac_bytes m ! 2) @ [sep] @ format_02x (mac_bytes m ! 3) @ [sep] @
     format_02x (mac_bytes m ! 4) @ [sep] @ format_02x (mac_bytes m ! 5)"

definition to_bytes :: "MacAddress \<Rightarrow> byte list" where "to_bytes m = mac_bytes m"

text \<open>The type of the array, which every constructor establishes.\<close>

definition mac_wf :: "MacAddress \<Rightarrow> bool" where
  "mac_wf m \<longleftrightarrow> length (mac_bytes m) = 6"

section \<open>Reading what was printed\<close>

lemma hex_digit_char:
  assumes "n < 16"
  shows "hex_value (hex_digit n) = Some n" "\<not> is_space (hex_digit n)"
    "hex_digit n \<notin> {CHR ''+'', CHR ''-'', CHR '':'', CHR ''x'', CHR ''X'', CHR 0x00}"
proof -
  have "\<forall>n \<in> set [0..<16]. hex_value (hex_digit n) = Some n \<and> \<not> is_space (hex_digit n)
    \<and> hex_digit n \<notin> {CHR ''+'', CHR ''-'', CHR '':'', CHR ''x'', CHR ''X'', CHR 0x00}"
    by code_simp
  then show "hex_value (hex_digit n) = Some n" "\<not> is_space (hex_digit n)"
    "hex_digit n \<notin> {CHR ''+'', CHR ''-'', CHR '':'', CHR ''x'', CHR ''X'', CHR 0x00}"
    using assms by auto
qed

lemma byte_digits: "unat (b :: byte) div 16 < 16" "unat b mod 16 < 16"
  "of_nat (16 * (unat b div 16) + unat b mod 16) = b"
proof -
  have "unat b < 256" using unsigned_less[of b, where 'a = nat] by simp
  then show "unat b div 16 < 16" by simp
qed (simp_all del: of_nat_add of_nat_mult)

lemma scan_format_02x [simp]: "scan_hhx2 (format_02x b @ rest) = Some (b, rest)"
  using hex_digit_char[OF byte_digits(1)[of b]] hex_digit_char[OF byte_digits(2)[of b]]
    byte_digits(3)[of b]
  by (simp add: scan_hhx2_def format_02x_def del: of_nat_add of_nat_mult)

lemma c_str_format_02x [simp]: "c_str (format_02x b @ rest) = format_02x b @ c_str rest"
  using hex_digit_char(3)[OF byte_digits(1)[of b]] hex_digit_char(3)[OF byte_digits(2)[of b]]
  by (simp add: c_str_def format_02x_def)

lemma c_str_Cons [simp]: "c \<noteq> CHR 0x00 \<Longrightarrow> c_str (c # cs) = c # c_str cs"
  by (simp add: c_str_def)

lemma c_str_Nil [simp]: "c_str [] = []" by (simp add: c_str_def)

text \<open>Fields that are printed bytes with a colon behind them.\<close>

definition mac_fields :: "byte list \<Rightarrow> string" where
  "mac_fields bs = concat (map (\<lambda>b. format_02x b @ '':'') bs)"

lemma sscanf_mac_fields:
  "length bs \<le> n \<Longrightarrow> sscanf_hhx2 n (mac_fields bs @ rest) = bs @ sscanf_hhx2 (n - length bs) rest"
proof (induction bs arbitrary: n)
  case (Cons b bs)
  then obtain k where "n = Suc k" "length bs \<le> k" by (cases n) auto
  with Cons.IH show ?case by (simp add: mac_fields_def)
qed (simp add: mac_fields_def)

lemma c_str_mac_fields [simp]: "c_str (mac_fields bs @ rest) = mac_fields bs @ c_str rest"
  by (induction bs) (simp_all add: mac_fields_def)

lemma length_sscanf: "length (sscanf_hhx2 n s) \<le> n"
  by (induction n s rule: sscanf_hhx2.induct) (auto split: option.split list.split)

lemma mac_wf_constructors [inv_pres]:
  "mac_wf (MacAddress_of_bytes b0 b1 b2 b3 b4 b5)" "mac_wf (MacAddress_of_string s)"
  using length_sscanf[of 6 "c_str s"]
  by (simp_all add: mac_wf_def MacAddress_of_bytes_def MacAddress_of_string_def)

lemma mac_bytes_cases:
  assumes "mac_wf m"
  obtains b0 b1 b2 b3 b4 b5 where "m = MacAddress_of_bytes b0 b1 b2 b3 b4 b5"
  using assms
  by (cases m) (auto simp: mac_wf_def MacAddress_of_bytes_def length_Suc_conv eval_nat_numeral)

lemma mac_to_string_fields:
  "mac_to_string (MacAddress_of_bytes b0 b1 b2 b3 b4 b5) CHR '':''
     = mac_fields [b0, b1, b2, b3, b4] @ format_02x b5 @ []"
  by (simp add: mac_to_string_def MacAddress_of_bytes_def mac_fields_def)

lemma read_after_fields:
  "length bs \<le> 6 \<Longrightarrow> mac_bytes (MacAddress_of_string (mac_fields bs @ rest))
     = memcpy_at 0 (bs @ sscanf_hhx2 (6 - length bs) (c_str rest)) (replicate 6 0)"
  by (simp add: MacAddress_of_string_def sscanf_mac_fields)

lemma read_printed_mac:
  assumes "mac_wf m"
  shows "MacAddress_of_string (mac_to_string m CHR '':'') = m"
  using assms
proof (cases rule: mac_bytes_cases)
  case (1 b0 b1 b2 b3 b4 b5)
  have "sscanf_hhx2 1 (format_02x b5) = [b5]"
    using scan_format_02x[of b5 "[]"] by simp
  then have "mac_bytes (MacAddress_of_string (mac_fields [b0, b1, b2, b3, b4] @ format_02x b5 @ []))
      = [b0, b1, b2, b3, b4, b5]"
    using c_str_format_02x[of b5 "[]"] by (subst read_after_fields) (simp_all add: memcpy_at_def)
  then show ?thesis
    unfolding 1 mac_to_string_fields by (simp add: MacAddress_of_bytes_def)
qed

lemma mac_text_length:
  "mac_wf m \<Longrightarrow> length (mac_to_string m sep) = 17"
  by (simp add: mac_to_string_def format_02x_def)

text \<open>
  A malformed text is never refused.  Reading stops at the first field that is not
  hexadecimal, or behind a field that is not followed by a colon; the fields before it
  are kept and the others are zero.  So a text with another separator, which
  \<^verbatim>\<open>to_string\<close> can print, gives an address of the first byte only.
\<close>

lemma malformed_mac_is_truncated:
  assumes "length bs \<le> 5"
    and "scan_hhx2 (c_str rest) = None"
    and "c_str tail = [] \<or> hd (c_str tail) \<noteq> CHR '':''"
  shows "mac_bytes (MacAddress_of_string (mac_fields bs @ rest)) = bs @ replicate (6 - length bs) 0
    \<and> mac_bytes (MacAddress_of_string (mac_fields bs @ format_02x b @ tail))
      = bs @ b # replicate (5 - length bs) 0"
proof -
  obtain k where k: "6 - length bs = Suc k" "5 - length bs = k" "length bs \<le> 6"
    using assms(1) by (cases "6 - length bs") auto
  have "sscanf_hhx2 (Suc k) (format_02x b @ c_str tail) = [b]"
    using assms(3) scan_format_02x[of b "[]"] by (cases "c_str tail") auto
  then show ?thesis
    using assms(2) k by (simp add: read_after_fields memcpy_at_def)
qed

end
