(* ===== verification/AddressText.thy ===== *)
theory AddressText
  imports IPAddress MacAddress
begin

text \<open>
  \<^verbatim>\<open>src/IPAddress.cpp\<close>: the text forms of IP addresses.  \<^verbatim>\<open>inet_pton\<close> and
  \<^verbatim>\<open>inet_ntop\<close> of the C library of the system and \<^verbatim>\<open>StringUtils::ends_with\<close> of the logging
  library are parameters (\<open>text_env\<close>); what is used of their documentation is the predicate
  \<open>inet_laws\<close>, which the last section shows to hold of dotted decimal notation.
\<close>

record text_env =
  inet_pton4 :: "string \<Rightarrow> 32 word option"  \<comment> \<open>the address if the result is 1\<close>
  inet_pton6 :: "string \<Rightarrow> in6_addr option"
  inet_ntop4 :: "32 word \<Rightarrow> string option"  \<comment> \<open>into a buffer of 128 bytes\<close>
  inet_ntop6 :: "in6_addr \<Rightarrow> string option"
  ends_with :: "string \<Rightarrow> string \<Rightarrow> bool"

section \<open>Operations\<close>

text \<open>\<^verbatim>\<open>{}\<close> of an unsigned integer\<close>

fun decimal :: "nat \<Rightarrow> string" where
  "decimal n = (if n < 10 then [hex_digit n] else decimal (n div 10) @ [hex_digit (n mod 10)])"

declare decimal.simps [simp del]

text \<open>
  \<^verbatim>\<open>IPAddress::parse\<close>: only address and family of the local structures are set; \<open>j4\<close> and
  \<open>j6\<close> are what the stack holds there.
\<close>

definition IPAddress_parse ::
    "text_env \<Rightarrow> sockaddr_in \<Rightarrow> sockaddr_in6 \<Rightarrow> string \<Rightarrow> error_code + IPAddress" where
  "IPAddress_parse env j4 j6 ip_string =
     (case inet_pton4 env (c_str ip_string) of
        Some a \<Rightarrow>
          (let sa4 = j4\<lparr>sin_addr := a\<rparr>;
               sa4 = sa4\<lparr>sin_family := AF_INET\<rparr>
           in Inr (IPAddress_of_sockaddr_in sa4))
      | None \<Rightarrow>
          (case inet_pton6 env (c_str ip_string) of
             Some a \<Rightarrow>
               (let sa6 = j6\<lparr>sin6_addr := a\<rparr>;
                    sa6 = sa6\<lparr>sin6_family := AF_INET6\<rparr>
                in Inr (IPAddress_of_sockaddr_in6 sa6))
           | None \<Rightarrow> Inl HOSTNAME_RESOLVE_FAILED))"

definition source_name :: "string option \<Rightarrow> string" where
  "source_name t = (case t of None \<Rightarrow> ''<INVALID>'' | Some s \<Rightarrow> s)"

definition to_human_readable_ip_string :: "text_env \<Rightarrow> IPAddress \<Rightarrow> string" where
  "to_human_readable_ip_string env a =
     (case m_in4 a of
        Some v \<Rightarrow> source_name (inet_ntop4 env (sin_addr v))
      | None \<Rightarrow> (case m_in6 a of
          Some v \<Rightarrow> source_name (inet_ntop6 env (sin6_addr v))
        | None \<Rightarrow> ''?.?.?.?''))"

text \<open>The specialisations of \<^verbatim>\<open>std::formatter\<close>: a port is printed as a number.\<close>

definition format_SocketPortID :: "SocketPortID \<Rightarrow> string" where
  [simp]: "format_SocketPortID c = decimal (unat c)"

definition to_human_readable_string :: "text_env \<Rightarrow> IPAddress \<Rightarrow> string res" where
  "to_human_readable_string env a =
     (case m_in4 a of
        Some v \<Rightarrow> bindE (get_port a) (\<lambda>p.
          Inr (''v4: '' @ source_name (inet_ntop4 env (sin_addr v)) @ '': port '' @ format_SocketPortID p))
      | None \<Rightarrow> (case m_in6 a of
          Some v \<Rightarrow> bindE (get_port a) (\<lambda>p.
            Inr (''v6: '' @ source_name (inet_ntop6 env (sin6_addr v)) @ '': port '' @ format_SocketPortID p))
        | None \<Rightarrow> Inr ''?.?.?.?''))"

definition format_IPAddress :: "text_env \<Rightarrow> IPAddress \<Rightarrow> string res" where
  "format_IPAddress env c = to_human_readable_string env c"

definition string_to_ipv4_address :: "text_env \<Rightarrow> string \<Rightarrow> 32 word res" where
  "string_to_ipv4_address env ip =
     (let ip_address = (if ends_with env ip ''/32'' then take (length ip - 3) ip else ip)
      in case inet_pton4 env (c_str ip_address) of
           None \<Rightarrow> Inl Aborted
         | Some addr \<Rightarrow> Inr addr)"

definition create_sock_addr_in :: "text_env \<Rightarrow> string \<Rightarrow> SocketPortID \<Rightarrow> IPAddress res" where
  "create_sock_addr_in env addr port =
     (let dest_addr = \<lparr>sin_family = 0, sin_port = 0, sin_addr = 0, sin_zero = 0\<rparr>
      in bindE (string_to_ipv4_address env addr) (\<lambda>a.
           let dest_addr = dest_addr\<lparr>sin_addr := a\<rparr>;
               dest_addr = dest_addr\<lparr>sin_family := AF_INET\<rparr>;
               dest_addr = dest_addr\<lparr>sin_port := htons port\<rparr>
           in Inr (IPAddress_of_sockaddr_in dest_addr)))"

section \<open>What is used of the library functions\<close>

text \<open>
  What \<^verbatim>\<open>inet_ntop\<close> prints (always, into a buffer of this size) \<^verbatim>\<open>inet_pton\<close> reads
  back; the text of an IPv6 address is none of an IPv4 address; \<^verbatim>\<open>ends_with\<close> tests for a
  suffix.
\<close>

definition inet_laws :: "text_env \<Rightarrow> bool" where
  "inet_laws env \<longleftrightarrow>
     (\<forall>a. \<exists>t. inet_ntop4 env a = Some t \<and> c_str t = t \<and> inet_pton4 env t = Some a)
   \<and> (\<forall>a. \<exists>t. inet_ntop6 env a = Some t \<and> c_str t = t \<and> inet_pton4 env t = None
             \<and> inet_pton6 env t = Some a)
   \<and> (\<forall>s suf. ends_with env s suf \<longleftrightarrow> (\<exists>t. s = t @ suf))"

lemma inet_laws_dest:
  assumes "inet_laws env"
  shows "\<exists>t. inet_ntop4 env a = Some t \<and> c_str t = t \<and> inet_pton4 env t = Some a"
    and "\<exists>t. inet_ntop6 env a6 = Some t \<and> c_str t = t \<and> inet_pton4 env t = None
           \<and> inet_pton6 env t = Some a6"
    and "ends_with env s suf \<longleftrightarrow> (\<exists>t. s = t @ suf)"
  using assms unfolding inet_laws_def by blast+

section \<open>Dotted decimal notation\<close>

text \<open>
  A concrete instance for the examples: IPv4 addresses in dotted decimal notation, IPv6
  addresses as the hexadecimal bytes, each followed by a colon.
\<close>

fun split_on :: "'a \<Rightarrow> 'a list \<Rightarrow> 'a list list" where
  "split_on c [] = [[]]"
| "split_on c (x # xs) =
     (if x = c then [] # split_on c xs
      else (case split_on c xs of [] \<Rightarrow> [[x]] | y # ys \<Rightarrow> (x # y) # ys))"

definition dotted_quad :: "32 word \<Rightarrow> string" where
  "dotted_quad a =
     (let b = (\<lambda>i. decimal (unat (le_bytes 4 a ! i)))
      in b 0 @ ''.'' @ b 1 @ ''.'' @ b 2 @ ''.'' @ b 3)"

definition decimal_value :: "string \<Rightarrow> nat" where
  "decimal_value s = foldl (\<lambda>v c. 10 * v + (of_char c - 48)) 0 s"

definition parse_quad :: "string \<Rightarrow> 32 word option" where
  "parse_quad s =
     (let fields = split_on CHR ''.'' s; bs = map decimal_value fields
      in if length fields = 4 \<and> list_all (\<lambda>n. n < 256) bs \<and> map decimal bs = fields
         then Some (of_le (map of_nat bs)) else None)"

definition parse_hex6 :: "string \<Rightarrow> in6_addr option" where
  "parse_hex6 s =
     (let bs = sscanf_hhx2 16 s
      in if length bs = 16 \<and> mac_fields bs = s then Some (in6_of_bytes bs) else None)"

definition text_env_ex :: text_env where
  "text_env_ex = \<lparr>inet_pton4 = parse_quad, inet_pton6 = parse_hex6,
     inet_ntop4 = (\<lambda>a. Some (dotted_quad a)), inet_ntop6 = (\<lambda>a. Some (mac_fields (in6_bytes a))),
     ends_with = (\<lambda>s suf. drop (length s - length suf) s = suf)\<rparr>"

lemma decimal_digit:
  assumes "d < 10"
  shows "of_char (hex_digit d) = 48 + d" "hex_digit d \<notin> {CHR ''.'', CHR '':'', CHR 0x00}"
proof -
  have "\<forall>d \<in> set [0..<10]. of_char (hex_digit d) = 48 + d
      \<and> hex_digit d \<notin> {CHR ''.'', CHR '':'', CHR 0x00}"
    by code_simp
  then show "of_char (hex_digit d) = 48 + d" "hex_digit d \<notin> {CHR ''.'', CHR '':'', CHR 0x00}"
    using assms by auto
qed

lemma decimal_value_decimal [simp]: "decimal_value (decimal n) = n"
proof (induction n rule: decimal.induct)
  case (1 n)
  then show ?case
    by (subst decimal.simps)
      (auto simp: decimal_value_def decimal_digit foldl_append)
qed

lemma decimal_inject [simp]: "decimal m = decimal n \<longleftrightarrow> m = n"
  by (metis decimal_value_decimal)

lemma set_decimal: "set (decimal n) \<subseteq> hex_digit ` {..<10}"
proof (induction n rule: decimal.induct)
  case (1 n)
  then show ?case by (subst decimal.simps) auto
qed

lemma decimal_chars: "CHR ''.'' \<notin> set (decimal n)" "CHR 0x00 \<notin> set (decimal n)"
  using set_decimal[of n] decimal_digit(2) by fastforce+

lemma split_on_append [simp]:
  "c \<notin> set xs \<Longrightarrow> split_on c (xs @ c # ys) = xs # split_on c ys"
  "c \<notin> set xs \<Longrightarrow> split_on c xs = [xs]"
  by (induction xs) auto

lemma c_str_id [simp]: "CHR 0x00 \<notin> set s \<Longrightarrow> c_str s = s"
  by (auto simp: c_str_def intro: takeWhile_eq_all_conv[THEN iffD2])

lemma le_bytes_4: "le_bytes 4 a = [le_bytes 4 a ! 0, le_bytes 4 a ! 1, le_bytes 4 a ! 2, le_bytes 4 a ! 3]"
  by (rule nth_equalityI) (auto simp: less_Suc_eq eval_nat_numeral)

lemma parse_dotted_quad: "parse_quad (dotted_quad a) = Some a"
proof -
  have lt: "unat (b :: byte) < 256" for b using unsigned_less[of b, where 'a = nat] by simp
  have "split_on CHR ''.'' (dotted_quad a) = map (decimal \<circ> unat) (le_bytes 4 a)"
    by (subst le_bytes_4) (simp add: dotted_quad_def decimal_chars Let_def)
  then show ?thesis
    by (simp add: parse_quad_def Let_def list_all_iff lt comp_def)
qed

lemma mac_fields_chars: "CHR 0x00 \<notin> set (mac_fields bs)" "CHR ''.'' \<notin> set (mac_fields bs)"
proof -
  have "\<forall>d \<in> set [0..<16]. hex_digit d \<notin> {CHR ''.'', CHR 0x00}" by code_simp
  then have d: "CHR 0x00 \<noteq> hex_digit d" "CHR ''.'' \<noteq> hex_digit d" if "d < 16" for d
    using that by auto
  have "CHR 0x00 \<notin> set (format_02x b)" "CHR ''.'' \<notin> set (format_02x b)" for b
    using d[OF byte_digits(1)] d[OF byte_digits(2)] by (simp_all add: format_02x_def)
  then show "CHR 0x00 \<notin> set (mac_fields bs)" "CHR ''.'' \<notin> set (mac_fields bs)"
    by (auto simp: mac_fields_def)
qed

lemma parse_hex6_fields: "parse_hex6 (mac_fields (in6_bytes a)) = Some a"
  using sscanf_mac_fields[of "in6_bytes a" 16 "[]"] by (simp add: parse_hex6_def)

lemma ends_with_ex: "drop (length s - length suf) s = suf \<longleftrightarrow> (\<exists>t. s = t @ suf)"
  by (metis append_eq_conv_conj append_take_drop_id diff_add_inverse2 length_append)

lemma text_env_ex_laws: "inet_laws text_env_ex"
proof -
  have "CHR 0x00 \<notin> set (dotted_quad a)" for a by (simp add: dotted_quad_def Let_def decimal_chars)
  moreover have "parse_quad (mac_fields bs) = None" for bs
    by (simp add: parse_quad_def mac_fields_chars Let_def)
  ultimately show ?thesis
    by (simp add: inet_laws_def text_env_ex_def parse_dotted_quad parse_hex6_fields
        mac_fields_chars ends_with_ex)
qed

section \<open>Properties\<close>

text \<open>
  C37: The text of an address of one family is parsed to an address of the same family and
  with the same address bytes, and nothing else of it survives: every other field of the
  result is what the stack held, which is the port and the padding of an IPv4 address, and the
  port, the flow information and the scope of an IPv6 address.  So the result has the same
  family, the same address bytes, the same size and the same text as the original, and the
  port (in host byte order) of the stack; the memory that \<^verbatim>\<open>data_sockaddr\<close> shows to the
  kernel has the constant of the family, the bytes of the address and otherwise those of the
  stack.  The laws of \<^verbatim>\<open>inet_pton\<close> and \<^verbatim>\<open>inet_ntop\<close> are assumed.
\<close>

theorem address_text_round_trip:
  fixes j4 :: sockaddr_in and j6 :: sockaddr_in6
  assumes "inet_laws env" and "one_family a"
  defines "a' \<equiv>
    \<lparr>m_in4 = map_option (\<lambda>sa. j4\<lparr>sin_family := AF_INET, sin_addr := sin_addr sa\<rparr>) (m_in4 a),
     m_in6 = map_option (\<lambda>sa. j6\<lparr>sin6_family := AF_INET6, sin6_addr := sin6_addr sa\<rparr>) (m_in6 a)\<rparr>"
  shows "IPAddress_parse env j4 j6 (to_human_readable_ip_string env a) = Inr a'
    \<and> one_family a' \<and> data_addr a' = data_addr a \<and> size_sockaddr a' = size_sockaddr a
    \<and> to_human_readable_ip_string env a' = to_human_readable_ip_string env a
    \<and> get_port a' = (if m_in4 a = None then Inr (htons (sin6_port j6)) else Inr (htons (sin_port j4)))
    \<and> data_sockaddr a' =
        (case m_in4 a of
           Some sa \<Rightarrow> Inr (le_bytes 2 AF_INET @ le_bytes 2 (sin_port j4) @ le_bytes 4 (sin_addr sa)
             @ le_bytes 8 (sin_zero j4))
         | None \<Rightarrow> Inr (le_bytes 2 AF_INET6 @ le_bytes 2 (sin6_port j6) @ le_bytes 4 (sin6_flowinfo j6)
             @ in6_bytes (sin6_addr (the (m_in6 a))) @ le_bytes 4 (sin6_scope_id j6)))"
  using assms(2)
proof (cases rule: one_family_cases)
  case (v4 sa)
  show ?thesis
    using inet_laws_dest(1)[OF assms(1), of "sin_addr sa"]
    by (auto simp: v4 a'_def to_human_readable_ip_string_def IPAddress_parse_def address_constructors
        source_name_def address_readers one_family_def sockaddr_in_bytes_def)
next
  case (v6 sa)
  show ?thesis
    using inet_laws_dest(2)[OF assms(1), of "sin6_addr sa"]
    by (auto simp: v6 a'_def to_human_readable_ip_string_def IPAddress_parse_def address_constructors
        source_name_def address_readers one_family_def sockaddr_in6_bytes_def)
qed

theorem address_text_round_trip_witness:
  "let a = IPAddress_of_in_addr (replicate 16 0) 0x0100007f 80;
       j4 = \<lparr>sin_family = 0, sin_port = 0x1234, sin_addr = 0, sin_zero = 1\<rparr>;
       a' = \<lparr>m_in4 = Some \<lparr>sin_family = AF_INET, sin_port = 0x1234, sin_addr = 0x0100007f, sin_zero = 1\<rparr>, m_in6 = None\<rparr>
   in to_human_readable_ip_string text_env_ex a = ''127.0.0.1''
    \<and> IPAddress_parse text_env_ex j4 undefined ''127.0.0.1'' = Inr a'
    \<and> data_addr a' = data_addr a"
proof -
  let ?a = "IPAddress_of_in_addr (replicate 16 0) 0x0100007f 80"
    and ?j4 = "\<lparr>sin_family = 0, sin_port = 0x1234, sin_addr = 0, sin_zero = 1\<rparr>"
  have "to_human_readable_ip_string text_env_ex ?a = ''127.0.0.1''" by code_simp
  then show ?thesis
    using address_text_round_trip[OF text_env_ex_laws one_family_constructors(1)[of "replicate 16 0" "0x0100007f" 80],
        of ?j4 undefined]
    by (simp add: IPAddress_of_in_addr_def Let_def)
qed

text \<open>
  \<^verbatim>\<open>string_to_ipv4_address\<close> accepts a prefix length of 32 behind an address and
  drops it, once; whatever does not parse then stops the program.  The socket address of
  \<^verbatim>\<open>create_sock_addr_in\<close> has family, port and address in it and zeros behind them, unlike
  the one of the constructor of \<^verbatim>\<open>IPAddress\<close>.
\<close>

lemma ipv4_text_with_prefix:
  assumes "inet_laws env"
  shows "string_to_ipv4_address env (ip @ ''/32'')
      = (case inet_pton4 env (c_str ip) of None \<Rightarrow> Inl Aborted | Some a \<Rightarrow> Inr a)
    \<and> (string_to_ipv4_address env ip = Inr a \<longrightarrow>
        bindE (create_sock_addr_in env ip port) data_sockaddr
          = Inr (le_bytes 2 AF_INET @ rev (le_bytes 2 port) @ le_bytes 4 a @ replicate 8 0))
    \<and> (string_to_ipv4_address env ip = Inl e \<longrightarrow> create_sock_addr_in env ip port = Inl Aborted)"
proof -
  have z: "le_bytes 8 (0 :: 64 word) = replicate 8 0" by code_simp
  have "ends_with env (ip @ ''/32'') ''/32''" using inet_laws_dest(3)[OF assms] by simp
  then show ?thesis
    by (auto simp: string_to_ipv4_address_def create_sock_addr_in_def data_sockaddr_def
        address_constructors sockaddr_in_bytes_def le_bytes_htons z Let_def split: option.splits if_splits)
qed

end
