(* ===== verification/Adapter.thy ===== *)
theory Adapter
  imports AddressText
begin

text \<open>
  \<^verbatim>\<open>include/iuring/NetworkAdapter.hpp\<close> and \<^verbatim>\<open>src/IOUringInterface.cpp\<close>: the network
  interface the program runs on: the search for its addresses, its tuning, its MAC
  address.  The calls of the C library, of \<^verbatim>\<open>shell::run_cmd\<close> and of \<^verbatim>\<open>StringUtils::trim\<close>
  are answered by a parameter \<open>adapter_env\<close>, which sees all calls made before; the calls
  are kept in \<open>ad_trace\<close>.
\<close>

section \<open>State and environment\<close>

datatype RunOpt = LOG_ERROR_AS_WARNING | ABORT_ON_ERROR

text \<open>An element of the list of \<^verbatim>\<open>getifaddrs\<close>: its name and the memory behind \<^verbatim>\<open>ifa_addr\<close>.\<close>

record ifaddrs =
  ifa_name :: string
  ifa_addr :: "byte list option"

datatype adapter_call =
    Call_getifaddrs
  | Call_freeifaddrs
  | Call_sleep
  | Call_run_cmd string RunOpt
  | Call_gethostname
  | Call_fopen string
  | Call_fread
  | Call_fclose

text \<open>
  \<open>ae_getifaddrs\<close> is \<open>None\<close> where the call returns -1, \<open>ae_gethostname\<close> is the memory of the
  buffer of 256 bytes unless the call fails, \<open>ae_fread\<close> the bytes that one call reads.
\<close>

record adapter_env =
  ae_getifaddrs :: "adapter_call list \<Rightarrow> ifaddrs list option"
  ae_run_cmd :: "adapter_call list \<Rightarrow> unit res"
  ae_gethostname :: "adapter_call list \<Rightarrow> string option"
  ae_fopen :: "adapter_call list \<Rightarrow> bool"
  ae_fread :: "adapter_call list \<Rightarrow> string"
  ae_trim :: "string \<Rightarrow> string"
  ae_text :: text_env

record adapter =
  m_hostname :: string
  m_interface_ip4 :: "string option"
  m_interface_ip6 :: "string option"
  m_interface_name :: string
  m_tune :: bool
  mac_opt :: "MacAddress option"
  ad_trace :: "adapter_call list"

definition NetworkAdapter_new :: "string \<Rightarrow> bool \<Rightarrow> adapter" where
  "NetworkAdapter_new interface_name tune =
     \<lparr>m_hostname = [], m_interface_ip4 = None, m_interface_ip6 = None,
      m_interface_name = interface_name, m_tune = tune, mac_opt = None, ad_trace = []\<rparr>"

definition record_call :: "adapter_call \<Rightarrow> adapter \<Rightarrow> adapter" where
  "record_call c ad = ad\<lparr>ad_trace := ad_trace ad @ [c]\<rparr>"

definition get_hostname :: "adapter \<Rightarrow> string" where "get_hostname ad = m_hostname ad"

definition set_interface_ip4 :: "string \<Rightarrow> adapter \<Rightarrow> adapter" where
  "set_interface_ip4 ip ad = ad\<lparr>m_interface_ip4 := Some ip\<rparr>"

definition set_interface_ip6 :: "string \<Rightarrow> adapter \<Rightarrow> adapter" where
  "set_interface_ip6 ip ad = ad\<lparr>m_interface_ip6 := Some ip\<rparr>"

definition get_interface_name :: "adapter \<Rightarrow> string" where
  "get_interface_name ad = m_interface_name ad"

definition get_interface_ip4 :: "adapter \<Rightarrow> string option" where
  "get_interface_ip4 ad = m_interface_ip4 ad"

definition get_interface_ip6 :: "adapter \<Rightarrow> string option" where
  "get_interface_ip6 ad = m_interface_ip6 ad"

lemmas adapter_accessors = get_hostname_def set_interface_ip4_def set_interface_ip6_def
  get_interface_name_def get_interface_ip4_def get_interface_ip6_def

section \<open>The addresses of the interface\<close>

definition sa_family :: "byte list \<Rightarrow> 16 word" where
  "sa_family m = of_le (take 2 m)"

text \<open>The body of the loop of \<^verbatim>\<open>try_get_interface_ip\<close>, on the state and \<^verbatim>\<open>success\<close>.\<close>

definition visit_ifaddr :: "text_env \<Rightarrow> adapter \<times> bool \<Rightarrow> ifaddrs \<Rightarrow> adapter \<times> bool" where
  "visit_ifaddr tenv s ifa =
     (let (ad, success) = s in
      case ifa_addr ifa of
        None \<Rightarrow> (ad, success)
      | Some m \<Rightarrow>
          (let family = sa_family m in
           if ifa_name ifa \<noteq> get_interface_name ad then (ad, success)
           else if family = AF_INET then
             (let ip = IPAddress_of_sockaddr_in (sockaddr_in_of_bytes m)
              in (set_interface_ip4 (to_human_readable_ip_string tenv ip) ad, True))
           else if family = AF_INET6 then
             (let ip = IPAddress_of_sockaddr_in6 (sockaddr_in6_of_bytes m)
              in (set_interface_ip6 (to_human_readable_ip_string tenv ip) ad, success))
           else (ad, success)))"

definition try_get_interface_ip :: "adapter_env \<Rightarrow> adapter \<Rightarrow> (adapter \<times> bool) res" where
  "try_get_interface_ip env ad =
     bindE (assertE (get_interface_name ad \<noteq> [])) (\<lambda>_.
       let answer = ae_getifaddrs env (ad_trace ad);
           ad = record_call Call_getifaddrs ad
       in case answer of
            None \<Rightarrow> Inl Aborted
          | Some ifaddr \<Rightarrow>
              (let (ad, success) = foldl (visit_ifaddr (ae_text env)) (ad, False) ifaddr
               in Inr (record_call Call_freeifaddrs ad, success)))"

text \<open>\<^verbatim>\<open>retrieve_interface_ip\<close>: \<open>None\<close> if the loop does not end.\<close>

partial_function (option) retrieve_interface_ip :: "adapter_env \<Rightarrow> adapter \<Rightarrow> adapter res option" where
  "retrieve_interface_ip env ad =
     (if get_interface_ip4 ad \<noteq> None then Some (Inr ad)
      else (case try_get_interface_ip env ad of
              Inl e \<Rightarrow> Some (Inl e)
            | Inr r \<Rightarrow> retrieve_interface_ip env (record_call Call_sleep (fst r))))"

section \<open>Tuning and the name of the host\<close>

definition run_cmd :: "adapter_env \<Rightarrow> string \<Rightarrow> RunOpt \<Rightarrow> adapter \<Rightarrow> adapter res" where
  "run_cmd env cmd opt ad =
     (let ad = record_call (Call_run_cmd cmd opt) ad
      in bindE (ae_run_cmd env (ad_trace ad)) (\<lambda>_. Inr ad))"

definition tune :: "adapter_env \<Rightarrow> adapter \<Rightarrow> adapter res" where
  "tune env ad =
     (if \<not> m_tune ad then Inr ad
      else
        bindE (run_cmd env (''ethtool -C '' @ m_interface_name ad @ '' tx-usecs 1'') LOG_ERROR_AS_WARNING ad)
          (\<lambda>ad.
        bindE (run_cmd env (''ethtool -C '' @ m_interface_name ad @ '' rx-usecs 1'') ABORT_ON_ERROR ad)
          (\<lambda>ad.
        bindE (run_cmd env (''ethtool -C '' @ m_interface_name ad @ '' rx-frames 1'') ABORT_ON_ERROR ad)
          (\<lambda>ad.
        run_cmd env (''ethtool -C '' @ m_interface_name ad @ '' tx-frames 1'') ABORT_ON_ERROR ad))))"

text \<open>
  \<^verbatim>\<open>std::string(p)\<close> of an array of characters: reading on behind the array, if it holds
  no NUL, is undefined.
\<close>

definition string_of_array :: "string \<Rightarrow> string res" where
  "string_of_array buf = (if CHR 0x00 \<in> set buf then Inr (c_str buf) else Inl Undefined_behaviour)"

definition read_hostname :: "adapter_env \<Rightarrow> adapter \<Rightarrow> adapter res" where
  "read_hostname env ad =
     (let answer = ae_gethostname env (ad_trace ad);
          ad = record_call Call_gethostname ad
      in case answer of
           None \<Rightarrow> Inl Aborted
         | Some hostname \<Rightarrow>
             bindE (string_of_array hostname) (\<lambda>h. Inr (ad\<lparr>m_hostname := h\<rparr>)))"

definition NetworkAdapter_init :: "adapter_env \<Rightarrow> adapter \<Rightarrow> adapter res option" where
  "NetworkAdapter_init env ad =
     (case retrieve_interface_ip env ad of
        None \<Rightarrow> None
      | Some r \<Rightarrow> Some (bindE r (\<lambda>ad. bindE (tune env ad) (read_hostname env))))"

section \<open>The MAC address\<close>

text \<open>The loop of at most \<open>n\<close> calls of \<^verbatim>\<open>fread\<close>: the last \<^verbatim>\<open>num_bytes_read\<close> and the buffer.\<close>

fun fread_loop :: "adapter_env \<Rightarrow> nat \<Rightarrow> nat \<times> string \<times> adapter \<Rightarrow> nat \<times> string \<times> adapter" where
  "fread_loop env 0 s = s"
| "fread_loop env (Suc n) (num, buffer, ad) =
     (let dat = ae_fread env (ad_trace ad);
          ad = record_call Call_fread ad;
          s = (length dat, memcpy_at 0 dat buffer, ad)
      in if length dat > 0 then s else fread_loop env n s)"

definition get_my_mac_address :: "adapter_env \<Rightarrow> adapter \<Rightarrow> (MacAddress option \<times> adapter) res" where
  "get_my_mac_address env ad =
     (case mac_opt ad of
        Some m \<Rightarrow> Inr (Some m, ad)
      | None \<Rightarrow>
          (let filename = ''/sys/class/net/'' @ get_interface_name ad @ ''/address'';
               f = ae_fopen env (ad_trace ad);
               ad = record_call (Call_fopen filename) ad
           in if \<not> f then Inl Aborted
              else
                let (num_bytes_read, buffer, ad) = fread_loop env 10 (0, replicate 128 (CHR 0x00), ad)
                in bindE (assertE (num_bytes_read > 0)) (\<lambda>_.
                   bindE (string_of_array buffer) (\<lambda>s.
                     let ad = record_call Call_fclose ad;
                         m = MacAddress_of_string (ae_trim env s)
                     in Inr (Some m, ad\<lparr>mac_opt := Some m\<rparr>)))))"

section \<open>The loops\<close>

text \<open>The texts of the addresses that a list holds for an interface, in order.\<close>

definition v4_texts :: "text_env \<Rightarrow> string \<Rightarrow> ifaddrs list \<Rightarrow> string list" where
  "v4_texts tenv name l = List.map_filter (\<lambda>ifa. case ifa_addr ifa of
       Some m \<Rightarrow> if ifa_name ifa = name \<and> sa_family m = AF_INET
         then Some (to_human_readable_ip_string tenv (IPAddress_of_sockaddr_in (sockaddr_in_of_bytes m)))
         else None
     | None \<Rightarrow> None) l"

definition v6_texts :: "text_env \<Rightarrow> string \<Rightarrow> ifaddrs list \<Rightarrow> string list" where
  "v6_texts tenv name l = List.map_filter (\<lambda>ifa. case ifa_addr ifa of
       Some m \<Rightarrow> if ifa_name ifa = name \<and> sa_family m = AF_INET6
         then Some (to_human_readable_ip_string tenv (IPAddress_of_sockaddr_in6 (sockaddr_in6_of_bytes m)))
         else None
     | None \<Rightarrow> None) l"

text \<open>The last of a list, if there is one, else what was there before.\<close>

definition last_or :: "'a option \<Rightarrow> 'a list \<Rightarrow> 'a option" where
  "last_or old xs = (if xs = [] then old else Some (last xs))"

lemma last_or_simps [simp]:
  "last_or old [] = old" "last_or old (x # xs) = last_or (Some x) xs"
  "last_or (last_or old xs) ys = last_or old (xs @ ys)" "last_or old xs = None \<longleftrightarrow> old = None \<and> xs = []"
  by (auto simp: last_or_def)

lemma texts_Cons:
  "v4_texts tenv name (ifa # l) = v4_texts tenv name [ifa] @ v4_texts tenv name l"
  "v6_texts tenv name (ifa # l) = v6_texts tenv name [ifa] @ v6_texts tenv name l"
  by (simp_all add: v4_texts_def v6_texts_def List.map_filter_def)

lemma texts_Nil [simp]: "v4_texts tenv name [] = []" "v6_texts tenv name [] = []"
  by (simp_all add: v4_texts_def v6_texts_def List.map_filter_def)

lemma visit_one:
  "visit_ifaddr tenv (ad, s) ifa =
     (ad\<lparr>m_interface_ip4 := last_or (m_interface_ip4 ad) (v4_texts tenv (m_interface_name ad) [ifa]),
         m_interface_ip6 := last_or (m_interface_ip6 ad) (v6_texts tenv (m_interface_name ad) [ifa])\<rparr>,
      s \<or> v4_texts tenv (m_interface_name ad) [ifa] \<noteq> [])"
proof -
  have "AF_INET \<noteq> AF_INET6" by (simp add: AF_INET_def AF_INET6_def)
  then show ?thesis
    by (cases "ifa_addr ifa")
      (auto simp: visit_ifaddr_def adapter_accessors v4_texts_def v6_texts_def List.map_filter_def Let_def)
qed

lemma visit_all:
  "foldl (visit_ifaddr tenv) (ad, s) l =
     (ad\<lparr>m_interface_ip4 := last_or (m_interface_ip4 ad) (v4_texts tenv (m_interface_name ad) l),
         m_interface_ip6 := last_or (m_interface_ip6 ad) (v6_texts tenv (m_interface_name ad) l)\<rparr>,
      s \<or> v4_texts tenv (m_interface_name ad) l \<noteq> [])"
proof (induction l arbitrary: ad s)
  case (Cons ifa l)
  then show ?case by (simp add: visit_one texts_Cons[of _ _ ifa l] disj_assoc)
qed simp

text \<open>One round of the search.\<close>

definition search_round :: "adapter_env \<Rightarrow> adapter \<Rightarrow> adapter" where
  "search_round env ad =
     (let l = the (ae_getifaddrs env (ad_trace ad)); tenv = ae_text env; name = m_interface_name ad
      in ad\<lparr>m_interface_ip4 := last_or (m_interface_ip4 ad) (v4_texts tenv name l),
            m_interface_ip6 := last_or (m_interface_ip6 ad) (v6_texts tenv name l),
            ad_trace := ad_trace ad @ [Call_getifaddrs, Call_freeifaddrs, Call_sleep]\<rparr>)"

lemma retrieve_round:
  assumes "m_interface_ip4 ad = None" and "m_interface_name ad \<noteq> []"
    and "ae_getifaddrs env (ad_trace ad) \<noteq> None"
  shows "retrieve_interface_ip env ad = retrieve_interface_ip env (search_round env ad)"
  using assms
  by (subst retrieve_interface_ip.simps)
    (auto simp: try_get_interface_ip_def visit_all search_round_def adapter_accessors record_call_def Let_def)

lemma retrieve_done:
  "m_interface_ip4 ad \<noteq> None \<Longrightarrow> retrieve_interface_ip env ad = Some (Inr ad)"
  by (subst retrieve_interface_ip.simps) (simp add: adapter_accessors)

text \<open>An environment whose lists of addresses come one after the other.\<close>

definition calls_of :: "adapter_call \<Rightarrow> adapter_call list \<Rightarrow> nat" where
  "calls_of c tr = length (filter ((=) c) tr)"

definition answers_in_order :: "adapter_env \<Rightarrow> (nat \<Rightarrow> ifaddrs list) \<Rightarrow> bool" where
  "answers_in_order env answers \<longleftrightarrow>
     (\<forall>tr. ae_getifaddrs env tr = Some (answers (calls_of Call_getifaddrs tr)))"

definition after_rounds :: "adapter_env \<Rightarrow> (nat \<Rightarrow> ifaddrs list) \<Rightarrow> nat \<Rightarrow> adapter \<Rightarrow> adapter" where
  "after_rounds env answers n ad =
     ad\<lparr>m_interface_ip4 := last_or (m_interface_ip4 ad)
          (concat (map (v4_texts (ae_text env) (m_interface_name ad) \<circ> answers) [0..<n])),
        m_interface_ip6 := last_or (m_interface_ip6 ad)
          (concat (map (v6_texts (ae_text env) (m_interface_name ad) \<circ> answers) [0..<n])),
        ad_trace := ad_trace ad
          @ concat (replicate n [Call_getifaddrs, Call_freeifaddrs, Call_sleep])\<rparr>"

lemma calls_of_rounds:
  "calls_of Call_getifaddrs (concat (replicate n [Call_getifaddrs, Call_freeifaddrs, Call_sleep])) = n"
  by (induction n) (simp_all add: calls_of_def)

lemma replicate_snoc: "concat (replicate (Suc n) xs) = concat (replicate n xs) @ xs"
  by (induction n) simp_all

lemma after_rounds_Suc:
  assumes "answers_in_order env answers" and "ad_trace ad = []"
  shows "search_round env (after_rounds env answers n ad) = after_rounds env answers (Suc n) ad"
  using assms
  by (simp add: search_round_def after_rounds_def answers_in_order_def calls_of_rounds replicate_snoc
      Let_def del: replicate_Suc)

lemma rounds_without_address:
  assumes "answers_in_order env answers" and "m_interface_name ad \<noteq> []"
    and "m_interface_ip4 ad = None" and "ad_trace ad = []"
    and "\<forall>i<n. v4_texts (ae_text env) (m_interface_name ad) (answers i) = []"
  shows "retrieve_interface_ip env ad = retrieve_interface_ip env (after_rounds env answers n ad)"
  using assms(5)
proof (induction n)
  case 0
  have "after_rounds env answers 0 ad = ad" using assms(3) by (cases ad) (simp add: after_rounds_def)
  then show ?case by simp
next
  case (Suc n)
  have "m_interface_ip4 (after_rounds env answers n ad) = None"
    "m_interface_name (after_rounds env answers n ad) \<noteq> []"
    using Suc.prems assms(2,3) by (simp_all add: after_rounds_def)
  moreover have "ae_getifaddrs env (ad_trace (after_rounds env answers n ad)) \<noteq> None"
    using assms(1) by (simp add: answers_in_order_def)
  ultimately show ?case
    using Suc retrieve_round after_rounds_Suc[OF assms(1,4)] by simp
qed

definition no_address :: "(nat \<Rightarrow> ifaddrs list) \<Rightarrow> adapter_env \<Rightarrow> adapter \<Rightarrow> bool" where
  "no_address answers env ad \<longleftrightarrow>
     answers_in_order env answers \<and> m_interface_name ad \<noteq> [] \<and> m_interface_ip4 ad = None
     \<and> (\<forall>i. v4_texts (ae_text env) (m_interface_name ad) (answers i) = [])"

lemma no_address_round:
  assumes "no_address answers env ad"
  shows "no_address answers env (search_round env ad)"
    and "\<exists>ad'. try_get_interface_ip env ad = Inr (ad', False)
      \<and> record_call Call_sleep ad' = search_round env ad"
  using assms
  by (auto simp: no_address_def answers_in_order_def try_get_interface_ip_def visit_all search_round_def
      adapter_accessors record_call_def Let_def)

lemma retrieve_never:
  assumes ret: "retrieve_interface_ip env ad = Some r"
  shows "\<not> no_address answers env ad"
proof (rule retrieve_interface_ip.raw_induct[where P = "\<lambda>env ad r. \<not> no_address answers env ad", OF _ ret])
  fix f :: "adapter_env \<Rightarrow> adapter \<Rightarrow> adapter res option" and env ad r
  assume IH: "\<And>env ad r. f env ad = Some r \<Longrightarrow> \<not> no_address answers env ad"
    and eq: "(if get_interface_ip4 ad \<noteq> None then Some (Inr ad)
      else (case try_get_interface_ip env ad of Inl e \<Rightarrow> Some (Inl e)
            | Inr r \<Rightarrow> f env (record_call Call_sleep (fst r)))) = Some r"
  show "\<not> no_address answers env ad"
  proof
    assume no: "no_address answers env ad"
    with eq no_address_round(2)[OF no] have "f env (search_round env ad) = Some r"
      by (auto simp: no_address_def adapter_accessors)
    with IH no_address_round(1)[OF no] show False by blast
  qed
qed

text \<open>The first list with an address of the interface ends the search.\<close>

lemma search_finds:
  fixes env answers name t n
  defines "ad \<equiv> after_rounds env answers (Suc n) (NetworkAdapter_new name t)"
  assumes "answers_in_order env answers" and "name \<noteq> []"
    and n: "v4_texts (ae_text env) name (answers n) \<noteq> []"
      "\<forall>i<n. v4_texts (ae_text env) name (answers i) = []"
  shows "retrieve_interface_ip env (NetworkAdapter_new name t) = Some (Inr ad)"
    and "get_interface_ip4 ad = Some (last (v4_texts (ae_text env) name (answers n)))"
    and "get_interface_ip6 ad
      = last_or None (concat (map (v6_texts (ae_text env) name \<circ> answers) [0..<Suc n]))"
    and "ad_trace ad = concat (replicate (Suc n) [Call_getifaddrs, Call_freeifaddrs, Call_sleep])"
proof -
  let ?new = "NetworkAdapter_new name t"
  let ?a = "after_rounds env answers n ?new"
  have none: "concat (map (v4_texts (ae_text env) name \<circ> answers) [0..<n]) = []" using n(2) by simp
  then have a: "m_interface_ip4 ?a = None" "m_interface_name ?a = name"
    by (simp_all add: after_rounds_def NetworkAdapter_new_def)
  have "retrieve_interface_ip env ?new = retrieve_interface_ip env ?a"
    using rounds_without_address[OF assms(2), of ?new n] assms(3) n(2)
    by (simp add: NetworkAdapter_new_def)
  also have "\<dots> = retrieve_interface_ip env ad"
    using retrieve_round[of ?a env] after_rounds_Suc[OF assms(2), of ?new n] a assms(3)
    using assms(2) by (simp add: ad_def answers_in_order_def NetworkAdapter_new_def)
  finally have step: "retrieve_interface_ip env ?new = retrieve_interface_ip env ad" .
  show ip4: "get_interface_ip4 ad = Some (last (v4_texts (ae_text env) name (answers n)))"
    using n(1) none by (simp add: ad_def after_rounds_def adapter_accessors NetworkAdapter_new_def last_or_def)
  then show "retrieve_interface_ip env ?new = Some (Inr ad)"
    using step retrieve_done[of ad env] by (simp add: adapter_accessors)
qed (simp_all add: ad_def after_rounds_def adapter_accessors NetworkAdapter_new_def
      del: upt_Suc replicate_Suc)

text \<open>
  C27: The search for the address of the interface ends exactly if some list of addresses
  ever holds an IPv4 address of the interface.  It then asks no further time, keeps the
  last such address of that list and the last IPv6 address seen in any round, and sleeps
  after every round; otherwise it never returns.
\<close>

theorem interface_search:
  assumes "answers_in_order env answers" and "name \<noteq> []"
  shows "(retrieve_interface_ip env (NetworkAdapter_new name t) = None
        \<longleftrightarrow> (\<forall>i. v4_texts (ae_text env) name (answers i) = []))
    \<and> (v4_texts (ae_text env) name (answers n) \<noteq> []
        \<and> (\<forall>i<n. v4_texts (ae_text env) name (answers i) = []) \<longrightarrow>
       (\<exists>ad. retrieve_interface_ip env (NetworkAdapter_new name t) = Some (Inr ad)
          \<and> get_interface_ip4 ad = Some (last (v4_texts (ae_text env) name (answers n)))
          \<and> get_interface_ip6 ad
              = last_or None (concat (map (v6_texts (ae_text env) name \<circ> answers) [0..<Suc n]))
          \<and> ad_trace ad = concat (replicate (Suc n) [Call_getifaddrs, Call_freeifaddrs, Call_sleep])))"
proof -
  let ?ad = "NetworkAdapter_new name t" and ?t = "v4_texts (ae_text env) name"
  have "retrieve_interface_ip env ?ad = None" if "\<forall>i. ?t (answers i) = []"
    using retrieve_never[of env ?ad _ answers] assms that
    by (cases "retrieve_interface_ip env ?ad") (auto simp: NetworkAdapter_new_def no_address_def)
  moreover have "retrieve_interface_ip env ?ad \<noteq> None" if i: "?t (answers i) \<noteq> []" for i
  proof -
    obtain k where "?t (answers k) \<noteq> []" "\<forall>j<k. ?t (answers j) = []"
      using i exists_least_iff[of "\<lambda>i. ?t (answers i) \<noteq> []"] by auto
    then show ?thesis using search_finds(1)[OF assms] by simp
  qed
  ultimately show ?thesis using search_finds[OF assms, of n t] by blast
qed

text \<open>An interface that gets its address while the program waits.\<close>

definition late_answers :: "nat \<Rightarrow> ifaddrs list" where
  "late_answers i =
     (let other = \<lparr>ifa_name = ''lo'', ifa_addr = Some (sockaddr_in_bytes
            \<lparr>sin_family = AF_INET, sin_port = 0, sin_addr = 0x0100007f, sin_zero = 0\<rparr>)\<rparr>;
          mine = \<lparr>ifa_name = ''eth0'', ifa_addr = Some (sockaddr_in_bytes
            \<lparr>sin_family = AF_INET, sin_port = 0, sin_addr = 0x8201a8c0, sin_zero = 0\<rparr>)\<rparr>
      in if i < 1 then [other] else [other, mine])"

definition adapter_env_ex :: adapter_env where
  "adapter_env_ex = \<lparr>ae_getifaddrs = (\<lambda>tr. Some (late_answers (calls_of Call_getifaddrs tr))),
     ae_run_cmd = (\<lambda>_. Inr ()), ae_gethostname = (\<lambda>_. Some (''host'' @ replicate 252 (CHR 0x00))),
     ae_fopen = (\<lambda>_. True),
     ae_fread = (\<lambda>tr. if calls_of Call_fread tr < 2 then [] else ''de:ad:be:ef:ca:fe'' @ [CHR 0x0A]),
     ae_trim = takeWhile (\<lambda>c. \<not> is_space c), ae_text = text_env_ex\<rparr>"

theorem interface_search_witness:
  "\<exists>ad. retrieve_interface_ip adapter_env_ex (NetworkAdapter_new ''eth0'' False) = Some (Inr ad)
      \<and> get_interface_ip4 ad = Some ''192.168.1.130'' \<and> length (ad_trace ad) = 6"
proof -
  have a: "answers_in_order adapter_env_ex late_answers"
    by (simp add: answers_in_order_def adapter_env_ex_def)
  have t: "v4_texts (ae_text adapter_env_ex) ''eth0'' (late_answers 0) = []"
    "v4_texts (ae_text adapter_env_ex) ''eth0'' (late_answers 1) = [''192.168.1.130'']"
    by code_simp+
  show ?thesis
    using interface_search[OF a, of "''eth0''" False 1] t by auto
qed

section \<open>Reading the MAC address\<close>

lemma empty_reads:
  assumes "\<And>i. i < k \<Longrightarrow> ae_fread env (ad_trace ad @ replicate i Call_fread) = []" and "k \<le> n"
  shows "fread_loop env n (0, buffer, ad)
    = fread_loop env (n - k) (0, buffer, ad\<lparr>ad_trace := ad_trace ad @ replicate k Call_fread\<rparr>)"
  using assms
proof (induction k arbitrary: n ad)
  case 0
  then show ?case by simp
next
  case (Suc k)
  then obtain m where n: "n = Suc m" "k \<le> m" by (cases n) auto
  let ?ad = "ad\<lparr>ad_trace := ad_trace ad @ [Call_fread]\<rparr>"
  have "fread_loop env n (0, buffer, ad) = fread_loop env m (0, buffer, ?ad)"
    using Suc.prems(1)[of 0] by (simp add: n record_call_def memcpy_at_def Let_def)
  also have "\<dots> = fread_loop env (m - k) (0, buffer, ?ad\<lparr>ad_trace := ad_trace ?ad @ replicate k Call_fread\<rparr>)"
  proof (rule Suc.IH[OF _ n(2)])
    fix i assume "i < k"
    then show "ae_fread env (ad_trace ?ad @ replicate i Call_fread) = []"
      using Suc.prems(1)[of "Suc i"] by simp
  qed
  finally show ?case by (simp add: n)
qed

lemma string_of_filled_array:
  "CHR 0x00 \<notin> set t \<Longrightarrow> length t < n \<Longrightarrow> string_of_array (memcpy_at 0 t (replicate n (CHR 0x00))) = Inr t"
  by (auto simp: string_of_array_def memcpy_at_def c_str_def takeWhile_append)

lemma mac_to_string_no_nul:
  assumes "mac_wf m"
  shows "CHR 0x00 \<notin> set (mac_to_string m CHR '':'')"
  using assms
proof (cases rule: mac_bytes_cases)
  case (1 b0 b1 b2 b3 b4 b5)
  show ?thesis
    unfolding 1 mac_to_string_fields
    using mac_fields_chars(1)[of "[b0, b1, b2, b3, b4]"] mac_fields_chars(1)[of "[b5]"]
    by (simp add: mac_fields_def)
qed

definition mac_filename :: "adapter \<Rightarrow> string" where
  "mac_filename ad = ''/sys/class/net/'' @ m_interface_name ad @ ''/address''"

text \<open>
  C38: The MAC address is read from the file of the interface in \<^verbatim>\<open>/sys\<close>: if a line with
  a printed address arrives in one of ten reads, the result is that address and the file
  is closed; if none brings anything the assertion fails.  The address is then kept: a
  second call gives it again and touches no file.
\<close>

theorem mac_address_is_read_once:
  assumes "mac_opt ad = None" and "mac_wf m" and "ae_fopen env (ad_trace ad)"
    and trim: "ae_trim env (mac_to_string m CHR '':'' @ [CHR 0x0A]) = mac_to_string m CHR '':''"
    and reads: "\<forall>i. ae_fread env (ad_trace ad @ Call_fopen (mac_filename ad) # replicate i Call_fread) = reads i"
    and empty: "\<forall>i<k. reads i = []"
  shows "(k < 10 \<and> reads k = mac_to_string m CHR '':'' @ [CHR 0x0A] \<longrightarrow>
       (\<exists>ad'. get_my_mac_address env ad = Inr (Some m, ad')
          \<and> ad_trace ad' = ad_trace ad @ Call_fopen (mac_filename ad) # replicate (Suc k) Call_fread @ [Call_fclose]
          \<and> get_my_mac_address env' ad' = Inr (Some m, ad')))
    \<and> (k = 10 \<longrightarrow> get_my_mac_address env ad = Inl Assertion_failed)"
proof -
  let ?ad = "record_call (Call_fopen (mac_filename ad)) ad"
  let ?buf = "replicate 128 (CHR 0x00)" and ?t = "mac_to_string m CHR '':'' @ [CHR 0x0A]"
  have tr: "ae_fread env (ad_trace ?ad @ replicate i Call_fread) = reads i" for i
    using reads by (simp add: record_call_def)
  have skip: "fread_loop env 10 (0, ?buf, ?ad)
      = fread_loop env (10 - k) (0, ?buf, ?ad\<lparr>ad_trace := ad_trace ?ad @ replicate k Call_fread\<rparr>)"
    if "k \<le> 10"
    using empty_reads[of k env ?ad 10 ?buf] tr empty that by simp
  have start: "get_my_mac_address env ad =
      (let (num_bytes_read, buffer, ad) = fread_loop env 10 (0, ?buf, ?ad)
       in bindE (assertE (num_bytes_read > 0)) (\<lambda>_.
          bindE (string_of_array buffer) (\<lambda>s.
            let ad = record_call Call_fclose ad; m = MacAddress_of_string (ae_trim env s)
            in Inr (Some m, ad\<lparr>mac_opt := Some m\<rparr>))))"
    using assms(1,3) by (simp add: get_my_mac_address_def mac_filename_def adapter_accessors Let_def)
  have t: "string_of_array (memcpy_at 0 ?t ?buf) = Inr ?t"
    using string_of_filled_array[of ?t 128] mac_to_string_no_nul[OF assms(2)] mac_text_length[OF assms(2)]
    by simp
  have "get_my_mac_address env ad = Inr (Some m, ?ad\<lparr>mac_opt := Some m,
      ad_trace := ad_trace ?ad @ replicate (Suc k) Call_fread @ [Call_fclose]\<rparr>)"
    if k: "k < 10" "reads k = ?t"
  proof -
    obtain j where j: "10 - k = Suc j" using k(1) by (cases "10 - k") auto
    show ?thesis
      unfolding start
      using skip k j tr[of k] t trim read_printed_mac[OF assms(2)]
      by (simp add: record_call_def Let_def replicate_append_same)
  qed
  moreover have "get_my_mac_address env ad = Inl Assertion_failed" if "k = 10"
    unfolding start using skip that by simp
  ultimately show ?thesis by (auto simp: get_my_mac_address_def record_call_def)
qed

theorem mac_address_is_read_once_witness:
  "\<exists>ad'. get_my_mac_address adapter_env_ex (NetworkAdapter_new ''eth0'' False)
      = Inr (Some (MacAddress_of_bytes 0xde 0xad 0xbe 0xef 0xca 0xfe), ad')
    \<and> get_my_mac_address adapter_env_ex ad'
      = Inr (Some (MacAddress_of_bytes 0xde 0xad 0xbe 0xef 0xca 0xfe), ad')"
proof -
  let ?m = "MacAddress_of_bytes 0xde 0xad 0xbe 0xef 0xca 0xfe"
  have s: "mac_to_string ?m CHR '':'' = ''de:ad:be:ef:ca:fe''" by code_simp
  show ?thesis
    using mac_address_is_read_once[of "NetworkAdapter_new ''eth0'' False" ?m adapter_env_ex
        "\<lambda>i. if i < 2 then [] else ''de:ad:be:ef:ca:fe'' @ [CHR 0x0A]" 2 adapter_env_ex]
    unfolding s
    by (auto simp: NetworkAdapter_new_def adapter_env_ex_def calls_of_def mac_wf_constructors
        is_space_def Let_def)
qed

end
