(* ===== verification/SocketImpl.thy ===== *)
theory SocketImpl
  imports WorkItem AddressText
begin

text \<open>
  \<^verbatim>\<open>src/SocketImpl.hpp\<close> and \<^verbatim>\<open>src/SocketImpl.cpp\<close>: the sockets of the kernel.  The system
  calls are answered by a parameter \<open>sock_env\<close>, which sees the calls made before on the
  socket; they are kept in \<open>s_calls\<close>, with the memory of their arguments.  \<^verbatim>\<open>send\<close> is with the
  client interface, since it goes through the ring.
\<close>

section \<open>System calls\<close>

definition SOCK_STREAM :: int where "SOCK_STREAM = 1"
definition SOCK_DGRAM :: int where "SOCK_DGRAM = 2"
definition INADDR_ANY :: "32 word" where "INADDR_ANY = 0"

text \<open>The options, each with its level.\<close>

datatype sock_option =
    SO_REUSEADDR
  | SO_REUSEPORT
  | IP_MULTICAST_TTL
  | IP_MULTICAST_IF
  | IP_MULTICAST_LOOP
  | IP_ADD_MEMBERSHIP
  | IP_DROP_MEMBERSHIP

datatype sock_call =
    Sys_socket "16 word" int
  | Sys_setsockopt int sock_option "byte list"
  | Sys_bind int "byte list"
  | Sys_listen int int
  | Sys_getsockname int

record sock_env =
  se_socket :: "sock_call list \<Rightarrow> int"
  se_setsockopt :: "sock_call list \<Rightarrow> int"
  se_bind :: "sock_call list \<Rightarrow> int"
  se_listen :: "sock_call list \<Rightarrow> int"
  se_text :: text_env

text \<open>The bytes of a C \<^verbatim>\<open>int\<close> that is passed by address.\<close>

definition int_bytes :: "int \<Rightarrow> byte list" where
  "int_bytes n = le_bytes 4 (word_of_int n :: 32 word)"

section \<open>The class\<close>

record ip_mreq =
  imr_multiaddr :: "32 word"
  imr_interface :: "32 word"

definition ip_mreq_zero :: ip_mreq where
  "ip_mreq_zero = \<lparr>imr_multiaddr = 0, imr_interface = 0\<rparr>"

definition ip_mreq_bytes :: "ip_mreq \<Rightarrow> byte list" where
  "ip_mreq_bytes r = le_bytes 4 (imr_multiaddr r) @ le_bytes 4 (imr_interface r)"

record socket_impl =
  s_base :: isocket
  m_mreq :: ip_mreq
  s_calls :: "sock_call list"

text \<open>A system call: the answer, and the socket after it.\<close>

definition sys :: "(sock_call list \<Rightarrow> int) \<Rightarrow> sock_call \<Rightarrow> socket_impl \<Rightarrow> int \<times> socket_impl" where
  "sys answer c s = (answer (s_calls s), s\<lparr>s_calls := s_calls s @ [c]\<rparr>)"

definition setsockopt :: "sock_env \<Rightarrow> sock_option \<Rightarrow> byte list \<Rightarrow> socket_impl \<Rightarrow> int \<times> socket_impl" where
  "setsockopt env opt val s = sys (se_setsockopt env) (Sys_setsockopt (get_fd (s_base s)) opt val) s"

definition sock_fd :: "socket_impl \<Rightarrow> int" where "sock_fd s = get_fd (s_base s)"

definition create_socket :: "sock_env \<Rightarrow> SocketType \<Rightarrow> (int \<times> sock_call list) res" where
  "create_socket env type =
     (let non_blocking_option = 0;
          make = (\<lambda>family kind. (se_socket env [], [Sys_socket family (kind + non_blocking_option)]))
      in bindE (case type of
            SocketType_UNKNOWN \<Rightarrow> Inl Assertion_failed
          | IPV4_UDP \<Rightarrow> Inr (make AF_INET SOCK_DGRAM)
          | IPV4_TCP \<Rightarrow> Inr (make AF_INET SOCK_STREAM)
          | IPV6_UDP \<Rightarrow> Inl Aborted
          | IPV6_TCP \<Rightarrow> Inr (make AF_INET6 SOCK_STREAM))
        (\<lambda>(fd, calls). bindE (assertE (fd \<ge> 0)) (\<lambda>_. Inr (fd, calls))))"

definition dump_info :: "socket_impl \<Rightarrow> socket_impl res" where
  "dump_info s =
     bindE (assertE (sock_fd s \<ge> 0)) (\<lambda>_.
       Inr (s\<lparr>s_calls := s_calls s @ [Sys_getsockname (sock_fd s)]\<rparr>))"

definition local_bind :: "sock_env \<Rightarrow> SocketPortID \<Rightarrow> socket_impl \<Rightarrow> socket_impl res" where
  "local_bind env port_id s =
     bindE (assertE (sock_fd s \<ge> 0)) (\<lambda>_.
       let addr = \<lparr>sin_family = 0, sin_port = 0, sin_addr = 0, sin_zero = 0\<rparr>;
           addr = addr\<lparr>sin_addr := INADDR_ANY\<rparr>;
           addr = addr\<lparr>sin_family := AF_INET\<rparr>;
           addr = addr\<lparr>sin_port := htons port_id\<rparr>;
           (ret, s) = sys (se_bind env) (Sys_bind (sock_fd s) (sockaddr_in_bytes addr)) s
       in if ret < 0 then Inl Aborted else dump_info s)"

text \<open>The \<^verbatim>\<open>switch\<close> of the constructor on the kind.\<close>

definition setup_client :: "sock_env \<Rightarrow> socket_impl \<Rightarrow> socket_impl res" where
  "setup_client env s =
     (let (ret, s) = setsockopt env SO_REUSEPORT (int_bytes 1) s
      in if ret = -1 then Inl Aborted else Inr s)"

definition setup_multicast :: "sock_env \<Rightarrow> SocketPortID \<Rightarrow> socket_impl \<Rightarrow> socket_impl res" where
  "setup_multicast env port s =
     bindE (local_bind env port s) (\<lambda>s.
       let (ret, s) = setsockopt env IP_MULTICAST_TTL (int_bytes 1) s
       in if ret \<noteq> 0 then Inl Aborted else Inr s)"

definition setup_server :: "sock_env \<Rightarrow> SocketPortID \<Rightarrow> socket_impl \<Rightarrow> socket_impl res" where
  "setup_server env port s =
     (let tmp_port = port;
          server_addr = \<lparr>sin_family = 0, sin_port = 0, sin_addr = 0, sin_zero = 0\<rparr>;
          server_addr = server_addr\<lparr>sin_family := AF_INET\<rparr>;
          server_addr = server_addr\<lparr>sin_addr := htonl INADDR_ANY\<rparr>;
          server_addr = server_addr\<lparr>sin_port := htons tmp_port\<rparr>;
          (err, s) = sys (se_bind env) (Sys_bind (sock_fd s) (sockaddr_in_bytes server_addr)) s
      in if err < 0 then Inl Aborted
         else
           let (err, s) = sys (se_listen env) (Sys_listen (sock_fd s) 1024) s
           in if err < 0 then Inl Aborted else Inr s)"

definition SocketImpl_new :: "sock_env \<Rightarrow> SocketType \<Rightarrow> SocketPortID \<Rightarrow> SocketKind \<Rightarrow> socket_impl res" where
  "SocketImpl_new env type port kind =
     bindE (create_socket env type) (\<lambda>(fd, calls).
       let s = \<lparr>s_base = ISocket_new type port kind fd, m_mreq = ip_mreq_zero, s_calls = calls\<rparr>;
           (res, s) = setsockopt env SO_REUSEADDR (int_bytes 1) s
       in bindE (assertE (res = 0)) (\<lambda>_.
            case kind of
              UNICAST_CLIENT_SOCKET \<Rightarrow> setup_client env s
            | MULTICAST_PACKET_SOCKET \<Rightarrow> setup_multicast env port s
            | SERVER_STREAM_SOCKET \<Rightarrow> setup_server env port s))"

text \<open>The constructor from an \<^verbatim>\<open>AcceptResult\<close>.\<close>

definition SocketImpl_of_accept :: "int \<Rightarrow> IPAddress \<Rightarrow> socket_impl res" where
  "SocketImpl_of_accept new_fd address =
     (let s = \<lparr>s_base = ISocket_new (accept_get_type address) (accept_get_port address)
                  SERVER_STREAM_SOCKET new_fd,
               m_mreq = ip_mreq_zero, s_calls = []\<rparr>
      in bindE (assertE (sock_fd s > 0)) (\<lambda>_. Inr s))"

section \<open>Multicast\<close>

definition mcast_bind :: "sock_env \<Rightarrow> socket_impl \<Rightarrow> (int \<times> socket_impl) res" where
  "mcast_bind env s =
     bindE (assertE (sock_fd s \<ge> 0)) (\<lambda>_.
       let req = m_mreq s;
           (err, s) = setsockopt env IP_MULTICAST_IF (ip_mreq_bytes req) s
       in if err \<noteq> 0 then Inr (-1, s) else Inr (0, s))"

definition join_multicast_group :: "sock_env \<Rightarrow> string \<Rightarrow> string \<Rightarrow> socket_impl \<Rightarrow> socket_impl res" where
  "join_multicast_group env ip_address source_iface s =
     bindE (assertE (sock_fd s \<ge> 0)) (\<lambda>_.
     bindE (assertE (ip_address \<noteq> [])) (\<lambda>_.
     bindE (assertE (source_iface \<noteq> [])) (\<lambda>_.
     bindE (string_to_ipv4_address (se_text env) ip_address) (\<lambda>group.
       let s = s\<lparr>m_mreq := (m_mreq s)\<lparr>imr_multiaddr := group\<rparr>\<rparr> in
     bindE (string_to_ipv4_address (se_text env) source_iface) (\<lambda>iface.
       let s = s\<lparr>m_mreq := (m_mreq s)\<lparr>imr_interface := iface\<rparr>\<rparr>;
           (ret, s) = setsockopt env IP_ADD_MEMBERSHIP (ip_mreq_bytes (m_mreq s)) s
       in if ret < 0 then Inl Aborted
          else
            let (err, s) = setsockopt env IP_MULTICAST_LOOP (int_bytes 0) s
            in if err \<noteq> 0 then Inl Aborted else Inr s)))))"

definition leave_multicast_group :: "sock_env \<Rightarrow> socket_impl \<Rightarrow> socket_impl res" where
  "leave_multicast_group env s =
     bindE (assertE (sock_fd s \<ge> 0)) (\<lambda>_.
       let (ret, s) = setsockopt env IP_DROP_MEMBERSHIP (ip_mreq_bytes (m_mreq s)) s
       in if ret < 0 then Inl (Exited 1) else Inr s)"

text \<open>
  The factories: \<^verbatim>\<open>SocketImpl::create\<close>, \<^verbatim>\<open>ISocket::create_impl\<close> and
  \<^verbatim>\<open>SocketFactoryImpl\<close>, which a client gets its sockets from.
\<close>

definition SocketImpl_create :: "sock_env \<Rightarrow> SocketType \<Rightarrow> SocketPortID \<Rightarrow> SocketKind \<Rightarrow> socket_impl res" where
  "SocketImpl_create env type port kind = SocketImpl_new env type port kind"

definition SocketImpl_create_of_accept :: "int \<Rightarrow> IPAddress \<Rightarrow> socket_impl res" where
  "SocketImpl_create_of_accept new_fd address = SocketImpl_of_accept new_fd address"

definition ISocket_create_impl :: "sock_env \<Rightarrow> SocketType \<Rightarrow> SocketPortID \<Rightarrow> SocketKind \<Rightarrow> socket_impl res" where
  "ISocket_create_impl env type port kind = SocketImpl_create env type port kind"

definition ISocket_create_impl_of_accept :: "int \<Rightarrow> IPAddress \<Rightarrow> socket_impl res" where
  "ISocket_create_impl_of_accept new_fd address = SocketImpl_create_of_accept new_fd address"

definition create_impl :: "sock_env \<Rightarrow> SocketType \<Rightarrow> SocketPortID \<Rightarrow> SocketKind \<Rightarrow> socket_impl res" where
  "create_impl env type port kind = ISocket_create_impl env type port kind"

definition create_impl_of_accept :: "int \<Rightarrow> IPAddress \<Rightarrow> socket_impl res" where
  "create_impl_of_accept new_fd address = ISocket_create_impl_of_accept new_fd address"

lemmas factory_defs = create_impl_def create_impl_of_accept_def ISocket_create_impl_def
  ISocket_create_impl_of_accept_def SocketImpl_create_def SocketImpl_create_of_accept_def

section \<open>Creation\<close>

text \<open>The calls that create a socket, and what counts as success of each in the code.\<close>

definition any_address :: "SocketPortID \<Rightarrow> byte list" where
  "any_address port = le_bytes 2 AF_INET @ rev (le_bytes 2 port) @ replicate 12 0"

definition creation_calls :: "SocketType \<Rightarrow> SocketPortID \<Rightarrow> SocketKind \<Rightarrow> int \<Rightarrow> sock_call list" where
  "creation_calls type port kind fd =
     Sys_socket (if type = IPV6_TCP then AF_INET6 else AF_INET)
       (if type = IPV4_UDP then SOCK_DGRAM else SOCK_STREAM)
     # Sys_setsockopt fd SO_REUSEADDR [1, 0, 0, 0]
     # (case kind of
          UNICAST_CLIENT_SOCKET \<Rightarrow> [Sys_setsockopt fd SO_REUSEPORT [1, 0, 0, 0]]
        | MULTICAST_PACKET_SOCKET \<Rightarrow>
            [Sys_bind fd (any_address port), Sys_getsockname fd, Sys_setsockopt fd IP_MULTICAST_TTL [1, 0, 0, 0]]
        | SERVER_STREAM_SOCKET \<Rightarrow> [Sys_bind fd (any_address port), Sys_listen fd 1024])"

fun call_ok :: "sock_env \<Rightarrow> sock_call list \<Rightarrow> sock_call \<Rightarrow> bool" where
  "call_ok env tr (Sys_socket family kind) \<longleftrightarrow> se_socket env tr \<ge> 0"
| "call_ok env tr (Sys_setsockopt fd opt val) \<longleftrightarrow>
     (if opt = SO_REUSEPORT then se_setsockopt env tr \<noteq> -1 else se_setsockopt env tr = 0)"
| "call_ok env tr (Sys_bind fd addr) \<longleftrightarrow> se_bind env tr \<ge> 0"
| "call_ok env tr (Sys_listen fd backlog) \<longleftrightarrow> se_listen env tr \<ge> 0"
| "call_ok env tr (Sys_getsockname fd) \<longleftrightarrow> True"

fun calls_ok_from :: "sock_env \<Rightarrow> sock_call list \<Rightarrow> sock_call list \<Rightarrow> bool" where
  "calls_ok_from env tr [] = True"
| "calls_ok_from env tr (c # cs) = (call_ok env tr c \<and> calls_ok_from env (tr @ [c]) cs)"

definition creatable :: "SocketType \<Rightarrow> bool" where
  "creatable type \<longleftrightarrow> type \<noteq> SocketType_UNKNOWN \<and> type \<noteq> IPV6_UDP"

lemma int_bytes_simps [simp]: "int_bytes 1 = [1, 0, 0, 0]" "int_bytes 0 = [0, 0, 0, 0]"
  by code_simp+

lemma any_address_memory [simp]:
  "sockaddr_in_bytes \<lparr>sin_family = AF_INET, sin_port = htons port, sin_addr = 0, sin_zero = 0\<rparr>
     = any_address port"
proof -
  have "le_bytes 4 (0 :: 32 word) @ le_bytes 8 (0 :: 64 word) = replicate 12 0" by code_simp
  then show ?thesis by (simp add: sockaddr_in_bytes_def any_address_def le_bytes_htons)
qed

lemma htonl_0 [simp]: "htonl 0 = 0" by code_simp

lemma ISocket_new_fd [simp]: "get_fd (ISocket_new type port kind fd) = fd"
  by (simp add: ISocket_new_def get_fd_def)

lemma create_socket_result:
  "create_socket env type = Inr (fd, calls) \<longleftrightarrow>
     creatable type \<and> fd = se_socket env [] \<and> fd \<ge> 0 \<and>
     calls = [Sys_socket (if type = IPV6_TCP then AF_INET6 else AF_INET)
       (if type = IPV4_UDP then SOCK_DGRAM else SOCK_STREAM)]"
  by (cases type) (auto simp: create_socket_def creatable_def)

lemmas sock_defs = sys_def setsockopt_def sock_fd_def dump_info_def local_bind_def

lemma setup_results:
  "setup_client env s = Inr s' \<longleftrightarrow> se_setsockopt env (s_calls s) \<noteq> -1
     \<and> s' = s\<lparr>s_calls := s_calls s @ [Sys_setsockopt (sock_fd s) SO_REUSEPORT [1, 0, 0, 0]]\<rparr>"
  "setup_server env port s = Inr s' \<longleftrightarrow>
     calls_ok_from env (s_calls s) [Sys_bind (sock_fd s) (any_address port), Sys_listen (sock_fd s) 1024]
     \<and> s' = s\<lparr>s_calls := s_calls s @ [Sys_bind (sock_fd s) (any_address port), Sys_listen (sock_fd s) 1024]\<rparr>"
  "sock_fd s \<ge> 0 \<Longrightarrow> setup_multicast env port s = Inr s' \<longleftrightarrow>
     calls_ok_from env (s_calls s) [Sys_bind (sock_fd s) (any_address port), Sys_getsockname (sock_fd s),
       Sys_setsockopt (sock_fd s) IP_MULTICAST_TTL [1, 0, 0, 0]]
     \<and> s' = s\<lparr>s_calls := s_calls s @ [Sys_bind (sock_fd s) (any_address port), Sys_getsockname (sock_fd s),
       Sys_setsockopt (sock_fd s) IP_MULTICAST_TTL [1, 0, 0, 0]]\<rparr>"
  by (auto simp: setup_client_def setup_server_def setup_multicast_def sock_defs INADDR_ANY_def Let_def
      not_less split: if_splits)

lemma socket_creation_aux:
  "create_impl env type port kind = Inr s \<longleftrightarrow>
     (let fd = se_socket env []; calls = creation_calls type port kind fd
      in creatable type \<and> calls_ok_from env [] calls \<and>
         s = \<lparr>s_base = ISocket_new type port kind fd, m_mreq = ip_mreq_zero, s_calls = calls\<rparr>)"
  by (cases kind)
    (auto simp: factory_defs SocketImpl_new_def create_socket_result setup_results sys_def
      setsockopt_def sock_fd_def creation_calls_def Let_def)

text \<open>
  C28: Creation of a socket: it succeeds exactly if the type can be created (not unknown,
  not IPv6 with datagrams) and every system call of the sequence for its kind succeeds in
  its turn; the socket then has the type, port, kind and descriptor asked for.  The
  address that multicast and server sockets are bound to is always one of IPv4, also for
  an IPv6 socket.
\<close>

theorem socket_creation:
  "create_impl env type port kind = Inr s \<longleftrightarrow>
     (let fd = se_socket env []; calls = creation_calls type port kind fd
      in creatable type \<and> calls_ok_from env [] calls \<and>
         s = \<lparr>s_base = ISocket_new type port kind fd, m_mreq = ip_mreq_zero, s_calls = calls\<rparr>)"
  by (rule socket_creation_aux)

section \<open>The type of sockets\<close>

text \<open>A socket of the library: an open descriptor of one of the three types in use.\<close>

definition socket_wf :: "socket_impl \<Rightarrow> bool" where
  "socket_wf s \<longleftrightarrow> sock_fd s \<ge> 0 \<and> creatable (get_socket_type (s_base s))"

lemma created_wf [inv_pres]:
  "create_impl env type port kind = Inr s \<Longrightarrow> socket_wf s"
  by (auto simp: socket_creation_aux socket_wf_def sock_fd_def creation_calls_def ISocket_new_def
      socket_accessors Let_def)

lemma accepted_wf [inv_pres]:
  "create_impl_of_accept fd address = Inr s \<Longrightarrow> valid address \<Longrightarrow> socket_wf s"
  by (auto simp: factory_defs SocketImpl_of_accept_def socket_wf_def sock_fd_def
      accept_get_type_def creatable_def valid_def ISocket_new_def socket_accessors Let_def
      split: option.splits if_splits)

lemma operations_keep_base [frame]:
  "join_multicast_group env ip iface s = Inr s1 \<Longrightarrow> s_base s1 = s_base s"
  "leave_multicast_group env s = Inr s2 \<Longrightarrow> s_base s2 = s_base s"
  "mcast_bind env s = Inr (r, s3) \<Longrightarrow> s_base s3 = s_base s"
  by (auto simp: join_multicast_group_def leave_multicast_group_def mcast_bind_def sock_defs Let_def
      split: if_splits)

text \<open>The public operations that the class has, but \<^verbatim>\<open>send\<close>; a client can make any sequence of them.\<close>

datatype socket_op = Op_join string string | Op_leave | Op_mcast_bind | Op_dump_info

fun run_op :: "sock_env \<Rightarrow> socket_impl \<Rightarrow> socket_op \<Rightarrow> socket_impl res" where
  "run_op env s (Op_join ip iface) = join_multicast_group env ip iface s"
| "run_op env s Op_leave = leave_multicast_group env s"
| "run_op env s Op_mcast_bind = bindE (mcast_bind env s) (\<lambda>(r, s). Inr s)"
| "run_op env s Op_dump_info = dump_info s"

fun names_given :: "socket_op \<Rightarrow> bool" where
  "names_given (Op_join ip iface) \<longleftrightarrow> ip \<noteq> [] \<and> iface \<noteq> []"
| "names_given _ \<longleftrightarrow> True"

lemma string_to_ipv4_address_aborts: "string_to_ipv4_address env ip = Inl e \<Longrightarrow> e = Aborted"
  by (auto simp: string_to_ipv4_address_def Let_def split: option.splits)

lemma socket_op_keeps_base [frame]: "run_op env s op = Inr s' \<Longrightarrow> s_base s' = s_base s"
  by (cases op) (auto simp: dump_info_def operations_keep_base)

lemma socket_op_failure:
  assumes "sock_fd s \<ge> 0" and "names_given op" and "run_op env s op = Inl e"
  shows "e = Aborted \<or> e = Exited 1"
  using assms
  by (cases op) (auto simp: join_multicast_group_def leave_multicast_group_def mcast_bind_def sock_defs
      bindE_eq_Inl Let_def dest: string_to_ipv4_address_aborts split: if_splits)

lemma socket_ops_outcome:
  assumes "sock_fd s \<ge> 0" and "list_all names_given ops"
  shows "case foldE (run_op env) s ops of
      Inr s' \<Rightarrow> s_base s' = s_base s
    | Inl e \<Rightarrow> e = Aborted \<or> e = Exited 1"
  using assms
proof (induction ops arbitrary: s)
  case (Cons op ops)
  show ?case
  proof (cases "run_op env s op")
    case (Inl e)
    then show ?thesis using socket_op_failure[OF Cons.prems(1) _ Inl] Cons.prems(2) by simp
  next
    case (Inr s1)
    then have b: "s_base s1 = s_base s" by (rule socket_op_keeps_base)
    then have "sock_fd s1 \<ge> 0" using Cons.prems(1) by (simp add: sock_fd_def)
    then show ?thesis using Cons.IH[of s1] Cons.prems(2) by (simp add: Inr b split: sum.splits)
  qed
qed simp

text \<open>
  C29: Of the sockets that the two constructors return, whatever the system answers: one
  created for a program has the descriptor that \<^verbatim>\<open>socket\<close> gave, with the type, port and kind
  asked for, and that type is one the library can create; one of an accepted connection has
  its descriptor, which is above 0, the kind of a server, and the type of the
  address of its peer: a stream exactly if the address has a family, and unknown otherwise.
  Both have a descriptor of at least 0.  After any sequence of the public operations of the
  class but \<^verbatim>\<open>send\<close> (joining and leaving a group, choosing the interface, printing the address) the socket is
  still that one: descriptor, type, port and kind are unchanged.  The sequence can end the program only by
  the abort or the exit of a refused call or of a text that is no address, and by no
  assertion, provided that the names given to \<^verbatim>\<open>join_multicast_group\<close> are not empty: the
  descriptor that the constructors check is what the operations assert again.
\<close>

theorem socket_type_safety:
  assumes "create_impl env type port kind = Inr s \<or> create_impl_of_accept fd address = Inr s"
    and "list_all names_given ops"
  shows "sock_fd s \<ge> 0
    \<and> (create_impl env type port kind = Inr s \<longrightarrow>
        creatable type \<and> s_base s = ISocket_new type port kind (se_socket env []))
    \<and> (create_impl_of_accept fd address = Inr s \<longrightarrow>
        fd > 0
        \<and> s_base s = ISocket_new (accept_get_type address) (accept_get_port address) SERVER_STREAM_SOCKET fd
        \<and> is_stream (s_base s) = valid address
        \<and> (\<not> valid address \<longrightarrow> get_socket_type (s_base s) = SocketType_UNKNOWN))
    \<and> (case foldE (run_op env') s ops of
          Inr s' \<Rightarrow> s_base s' = s_base s
        | Inl e \<Rightarrow> e = Aborted \<or> e = Exited 1)"
proof -
  have new: "creatable type \<and> se_socket env [] \<ge> 0 \<and> s_base s = ISocket_new type port kind (se_socket env [])"
    if "create_impl env type port kind = Inr s"
    using that by (auto simp: socket_creation_aux creation_calls_def Let_def)
  have acc: "fd > 0 \<and> s_base s = ISocket_new (accept_get_type address) (accept_get_port address) SERVER_STREAM_SOCKET fd"
    if "create_impl_of_accept fd address = Inr s"
    using that by (auto simp: factory_defs SocketImpl_of_accept_def sock_fd_def)
  have type: "is_stream (ISocket_new (accept_get_type address) p k fd) = valid address"
    "\<not> valid address \<Longrightarrow> get_socket_type (ISocket_new (accept_get_type address) p k fd) = SocketType_UNKNOWN"
    for p k
    by (auto simp: is_stream_def accept_get_type_def valid_def ISocket_new_def socket_accessors
        split: option.splits)
  have "sock_fd s \<ge> 0" using assms(1) new acc by (auto simp: sock_fd_def)
  then show ?thesis using new acc type socket_ops_outcome[OF _ assms(2)] by auto
qed

definition sock_env_ex :: sock_env where
  "sock_env_ex = \<lparr>se_socket = (\<lambda>_. 5), se_setsockopt = (\<lambda>_. 0), se_bind = (\<lambda>_. 0),
     se_listen = (\<lambda>_. 0), se_text = text_env_ex\<rparr>"

theorem socket_type_safety_witness:
  "\<exists>s. create_impl_of_accept 7 (IPAddress_of_in_addr (replicate 16 0) 1 80) = Inr s
     \<and> is_stream (s_base s)
     \<and> (\<exists>s'. foldE (run_op sock_env_ex) s
            [Op_join ''224.0.1.129'' ''192.168.1.130'', Op_mcast_bind, Op_leave, Op_dump_info] = Inr s'
          \<and> sock_fd s' = 7 \<and> length (s_calls s') = 5)"
proof -
  let ?a = "IPAddress_of_in_addr (replicate 16 0) 1 80"
    and ?ops = "[Op_join ''224.0.1.129'' ''192.168.1.130'', Op_mcast_bind, Op_leave, Op_dump_info]"
  have t: "string_to_ipv4_address (se_text sock_env_ex) ''224.0.1.129'' = Inr 0x810100e0"
    "string_to_ipv4_address (se_text sock_env_ex) ''192.168.1.130'' = Inr 0x8201a8c0" by code_simp+
  obtain s where s: "create_impl_of_accept 7 ?a = Inr s" "s_calls s = []" "sock_fd s = 7"
    by (auto simp: factory_defs SocketImpl_of_accept_def sock_fd_def)
  then obtain s' where s': "foldE (run_op sock_env_ex) s ?ops = Inr s'" "length (s_calls s') = 5"
    using t
    by (auto simp: join_multicast_group_def leave_multicast_group_def mcast_bind_def sock_defs Let_def
        sock_env_ex_def)
  have "valid ?a" by (simp add: valid_def IPAddress_of_in_addr_def)
  then show ?thesis
    using socket_type_safety[of sock_env_ex IPV4_TCP 80 SERVER_STREAM_SOCKET s 7 ?a ?ops sock_env_ex] s s'
    by (auto simp: sock_fd_def)
qed

section \<open>Multicast membership\<close>

text \<open>
  C31: Joining a group hands the kernel group and interface address and switches the
  loop-back off, and leaving hands it the same eight bytes: exactly the membership that
  was added is dropped, and \<^verbatim>\<open>mcast_bind\<close> in between names it too.  A refused membership
  aborts, a refused leave exits with status 1, a refused interface is reported as -1.
\<close>

theorem multicast_membership:
  assumes "socket_wf s" and "ip \<noteq> []" and "iface \<noteq> []"
    and "string_to_ipv4_address (se_text env) ip = Inr g"
    and "string_to_ipv4_address (se_text env) iface = Inr i"
  defines "req \<equiv> le_bytes 4 g @ le_bytes 4 i" and "fd \<equiv> sock_fd s"
  shows "join_multicast_group env ip iface s =
      (let calls = [Sys_setsockopt fd IP_ADD_MEMBERSHIP req, Sys_setsockopt fd IP_MULTICAST_LOOP [0, 0, 0, 0]]
       in if se_setsockopt env (s_calls s) < 0 \<or> se_setsockopt env (s_calls s @ [hd calls]) \<noteq> 0
          then Inl Aborted
          else Inr (s\<lparr>m_mreq := \<lparr>imr_multiaddr = g, imr_interface = i\<rparr>, s_calls := s_calls s @ calls\<rparr>))
    \<and> (\<forall>s'. join_multicast_group env ip iface s = Inr s' \<longrightarrow>
        leave_multicast_group env' s' =
          (if se_setsockopt env' (s_calls s') < 0 then Inl (Exited 1)
           else Inr (s'\<lparr>s_calls := s_calls s' @ [Sys_setsockopt fd IP_DROP_MEMBERSHIP req]\<rparr>))
        \<and> mcast_bind env' s' =
          Inr (if se_setsockopt env' (s_calls s') = 0 then 0 else -1,
               s'\<lparr>s_calls := s_calls s' @ [Sys_setsockopt fd IP_MULTICAST_IF req]\<rparr>))"
  using assms(1-5)
  by (auto simp: join_multicast_group_def leave_multicast_group_def mcast_bind_def sock_defs
      socket_wf_def req_def fd_def ip_mreq_bytes_def Let_def)

theorem multicast_membership_witness:
  "\<exists>s s' s''. create_impl sock_env_ex IPV4_UDP PTP_PORT_EVENT MULTICAST_PACKET_SOCKET = Inr s
     \<and> join_multicast_group sock_env_ex ''224.0.1.129'' ''192.168.1.130'' s = Inr s'
     \<and> leave_multicast_group sock_env_ex s' = Inr s''
     \<and> drop 7 (s_calls s'') = [Sys_setsockopt 5 IP_DROP_MEMBERSHIP [224, 0, 1, 129, 192, 168, 1, 130]]"
proof -
  have t: "string_to_ipv4_address (se_text sock_env_ex) ''224.0.1.129'' = Inr 0x810100e0"
    "string_to_ipv4_address (se_text sock_env_ex) ''192.168.1.130'' = Inr 0x8201a8c0" by code_simp+
  have bs: "le_bytes 4 (0x810100e0 :: 32 word) = [224, 0, 1, 129]"
    "le_bytes 4 (0x8201a8c0 :: 32 word) = [192, 168, 1, 130]" by code_simp+
  obtain s where s: "create_impl sock_env_ex IPV4_UDP PTP_PORT_EVENT MULTICAST_PACKET_SOCKET = Inr s"
    "socket_wf s" "length (s_calls s) = 5" "sock_fd s = 5"
    using socket_creation_aux[of sock_env_ex IPV4_UDP PTP_PORT_EVENT MULTICAST_PACKET_SOCKET] created_wf
    by (simp add: creatable_def creation_calls_def sock_env_ex_def sock_fd_def Let_def)
  show ?thesis
    using multicast_membership[OF s(2) _ _ t, of sock_env_ex] s
    by (simp add: sock_env_ex_def bs sock_fd_def Let_def)
qed

end
