(* ===== verification/Ping.thy ===== *)
theory Ping
  imports NewRequests Progress Adapter SocketImpl
begin

text \<open>
  The example program \<^verbatim>\<open>tests/ping.cpp\<close>, which uses every part of the library: it makes a
  ring and a socket, connects, sends a request, receives the reply and closes.  Its
  functions are run by the ring; the lambda expressions are numbered in the order in which
  they are run.
\<close>

section \<open>The program\<close>

definition on_connected :: nat where "on_connected = 1"
definition on_sent :: nat where "on_sent = 2"
definition on_received :: nat where "on_received = 3"
definition on_closed :: nat where "on_closed = 4"

lemmas ping_functions = on_connected_def on_sent_def on_received_def on_closed_def

definition CRLF :: string where "CRLF = [CHR 0x0D, CHR 0x0A]"

definition ping_request :: "string list" where
  "ping_request = [''GET /posts/1 HTTP/1.1'' @ CRLF, ''Host: example.com'' @ CRLF,
     ''Accept: application/json'' @ CRLF, CRLF]"

text \<open>\<^verbatim>\<open>pkt.append("...")\<close> on the packet of an item: the literal ends with a zero byte.\<close>

definition append_literal :: "nat \<Rightarrow> uring \<Rightarrow> string \<Rightarrow> uring res" where
  "append_literal a st s =
     with_item a (\<lambda>wi. bindE (append_cstr (m_send_packet wi) (bytes_of_string s @ [0])) (\<lambda>sp.
       Inr (wi\<lparr>m_send_packet := sp\<rparr>))) st"

definition handle_new_connection :: "env \<Rightarrow> isocket \<Rightarrow> uring \<Rightarrow> uring res" where
  "handle_new_connection env socket st =
     bindE (ackuire_send_workitem env socket st) (\<lambda>(wi, st).
     bindE (with_item wi (\<lambda>i. Inr (get_send_packet i)) st) (\<lambda>st.
     bindE (foldE (append_literal wi) st ping_request) (\<lambda>st.
       submit_item_at (submit_stream_data (submit env (buffer_size st)) (Some on_sent)) wi st)))"

definition handle_packet_sent :: "env \<Rightarrow> isocket \<Rightarrow> uring \<Rightarrow> uring res" where
  "handle_packet_sent env socket st =
     bindE (submit_recv env socket (Some on_received) st) (\<lambda>(_, st). Inr st)"

text \<open>The lambda expressions, and the calls of them by the ring.\<close>

definition ping_connected :: "env \<Rightarrow> isocket \<Rightarrow> int \<Rightarrow> uring \<Rightarrow> (uring \<times> ReceivePostAction) res" where
  "ping_connected env socket status st =
     bindE (assertE (status = 0)) (\<lambda>_.
     bindE (handle_new_connection env socket st) (\<lambda>st. Inr (st, NONE)))"

definition ping_sent :: "env \<Rightarrow> isocket \<Rightarrow> uring \<Rightarrow> (uring \<times> ReceivePostAction) res" where
  "ping_sent env socket st = bindE (handle_packet_sent env socket st) (\<lambda>st. Inr (st, NONE))"

definition ping_received :: "env \<Rightarrow> isocket \<Rightarrow> uring \<Rightarrow> (uring \<times> ReceivePostAction) res" where
  "ping_received env socket st =
     bindE (submit_close env socket (Some on_closed) st) (\<lambda>(_, st). Inr (st, NONE))"

definition ping_closed :: "int \<Rightarrow> uring \<Rightarrow> (uring \<times> ReceivePostAction) res" where
  "ping_closed status st = bindE (assertE (status = 0)) (\<lambda>_. Inr (st, NONE))"

definition ping_function :: "env \<Rightarrow> isocket \<Rightarrow> uring invoker" where
  "ping_function env socket f x st0 =
     (let st = log_ev (Ev_callback f x) st0 in
      case x of
        ConnectResult status _ \<Rightarrow>
          if f = on_connected then ping_connected env socket status st else Inl Undefined_behaviour
      | SendResult status \<Rightarrow> if f = on_sent then ping_sent env socket st else Inl Undefined_behaviour
      | Received msg \<Rightarrow> if f = on_received then ping_received env socket st else Inl Undefined_behaviour
      | CloseResult status \<Rightarrow> if f = on_closed then ping_closed status st else Inl Undefined_behaviour
      | AcceptResult fd address \<Rightarrow> Inl Undefined_behaviour)"

lemmas ping_lambda_defs = ping_connected_def ping_sent_def ping_received_def ping_closed_def

text \<open>The flag that the last function sets.\<close>

definition connection_has_been_closed :: "uring \<Rightarrow> bool" where
  "connection_has_been_closed st \<longleftrightarrow> on_closed \<in> set (map fst (callbacks (trace st)))"

text \<open>The loop; \<open>elapsed\<close> is the time-out, a clock that is not part of the library.\<close>

partial_function (option) poll_loop ::
  "env \<Rightarrow> isocket \<Rightarrow> (event list \<Rightarrow> bool) \<Rightarrow> uring \<Rightarrow> uring res option" where
  "poll_loop env socket elapsed st =
     (if connection_has_been_closed st then Some (Inr st)
      else if elapsed (trace st) then Some (Inl Assertion_failed)
      else case poll_completion_queues env (ping_function env socket) st of
             Inl e \<Rightarrow> Some (Inl e)
           | Inr (st, _) \<Rightarrow> poll_loop env socket elapsed st)"

text \<open>Everything before the loop: the socket and the ring with the connect handed over.\<close>

definition start_ping :: "env \<Rightarrow> sock_env \<Rightarrow> buf_reg \<Rightarrow> IPAddress \<Rightarrow> (isocket \<times> uring) res" where
  "start_ping env senv junk ping_addr =
     (let io = IOUringInterface_create_impl junk in
      bindE (IOUring_init env io) (\<lambda>(io, _).
      bindE (create_impl senv IPV4_TCP UNENCRYPTED_WEB_PORT UNICAST_CLIENT_SOCKET) (\<lambda>s.
      bindE (submit_connect env (s_base s) ping_addr (Some on_connected) io) (\<lambda>(_, io).
        Inr (s_base s, io)))))"

definition do_http_ping ::
  "env \<Rightarrow> sock_env \<Rightarrow> (event list \<Rightarrow> bool) \<Rightarrow> buf_reg \<Rightarrow> IPAddress \<Rightarrow> uring res option" where
  "do_http_ping env senv elapsed junk ping_addr =
     (case start_ping env senv junk ping_addr of
        Inl e \<Rightarrow> Some (Inl e)
      | Inr (socket, io) \<Rightarrow> poll_loop env socket elapsed io)"

text \<open>
  The arguments of \<^verbatim>\<open>main\<close>: the target that was found, or the result of \<^verbatim>\<open>main\<close>.  The
  argument behind the last is the null pointer, which is no string.
\<close>

fun ping_arguments :: "text_env \<Rightarrow> byte list \<Rightarrow> string list \<Rightarrow> IPAddress option \<Rightarrow> (int + IPAddress option) res" where
  "ping_arguments tenv junk [] ping_addr = Inr (Inr ping_addr)"
| "ping_arguments tenv junk (arg # args) ping_addr =
     (if arg = ''--ping'' then
        (case args of
           [] \<Rightarrow> Inl Undefined_behaviour
         | ip # _ \<Rightarrow> bindE (string_to_ipv4_address tenv ip) (\<lambda>in_addr.
             ping_arguments tenv junk args (Some (IPAddress_of_in_addr junk in_addr ENCRYPTED_WEB_PORT))))
      else if arg = ''--no-tune'' then ping_arguments tenv junk args ping_addr
      else if arg = ''--help'' then Inr (Inl 1)
      else ping_arguments tenv junk args ping_addr)"

definition ping_main ::
  "env \<Rightarrow> sock_env \<Rightarrow> (event list \<Rightarrow> bool) \<Rightarrow> buf_reg \<Rightarrow> byte list \<Rightarrow> string list \<Rightarrow> int res option" where
  "ping_main env senv elapsed junk junk_addr argv =
     (case ping_arguments (se_text senv) junk_addr argv None of
        Inl e \<Rightarrow> Some (Inl e)
      | Inr (Inl code) \<Rightarrow> Some (Inr code)
      | Inr (Inr None) \<Rightarrow> Some (Inr 1)
      | Inr (Inr (Some ping_addr)) \<Rightarrow>
          map_option (\<lambda>r. bindE r (\<lambda>_. Inr 0)) (do_http_ping env senv elapsed junk ping_addr))"

section \<open>The packet\<close>

lemma append_literal_eq: "s \<in> set ping_request \<Longrightarrow> append_literal a st s = client_append a (bytes_of_string s) st"
proof -
  assume "s \<in> set ping_request"
  then have "\<forall>b \<in> set (bytes_of_string s). b \<noteq> 0"
    by (auto simp: ping_request_def CRLF_def bytes_of_string_def)
  then have "takeWhile (\<lambda>b. b \<noteq> 0) (bytes_of_string s @ [0]) = bytes_of_string s"
    by (subst takeWhile_append2) auto
  then show ?thesis by (simp add: append_literal_def client_append_def append_cstr_def)
qed

lemma append_literals_eq:
  "set ss \<subseteq> set ping_request \<Longrightarrow>
     foldE (append_literal a) st ss = foldE (\<lambda>st d. client_append a d st) st (map bytes_of_string ss)"
proof (induction ss arbitrary: st)
  case (Cons s ss)
  then show ?case by (cases "client_append a (bytes_of_string s) st") (simp_all add: append_literal_eq)
qed simp

section \<open>The request that is sent\<close>

definition ping_bytes :: "byte list" where
  "ping_bytes = concat (map bytes_of_string ping_request)"

lemma length_ping_bytes: "length ping_bytes = 70"
  by (simp add: ping_bytes_def ping_request_def CRLF_def)

lemma send_runs:
  assumes env: "env_ok env" "queue_has_room env" and inv: "pool_inv (m_pool st)" "m_initialized st"
    and s: "is_stream socket"
  shows "\<exists>st'. handle_new_connection env socket st = Inr st' \<and>
     new_request socket SEND_STREAM_DATA (Send_cb (Some on_sent))
       (Prep_send (get_fd socket) ping_bytes (length ping_bytes) 0) st st'"
proof -
  have "length (concat (map bytes_of_string ping_request)) < BUF_SIZE"
    using length_ping_bytes by (simp add: ping_bytes_def BUF_SIZE_def)
  from sending_runs[OF env inv s this, of "Some on_sent"] show ?thesis
    by (auto simp: handle_new_connection_def append_literals_eq ping_bytes_def)
qed

section \<open>From one request to the next\<close>

text \<open>One request is in flight, the last that was handed over.\<close>

definition awaits :: "isocket \<Rightarrow> work_type \<Rightarrow> callback \<Rightarrow> prep \<Rightarrow> uring \<Rightarrow> bool" where
  "awaits socket t cb p st \<longleftrightarrow> pool_inv (m_pool st) \<and> m_initialized st \<and> buf_shift st = BUF_SHIFT \<and>
     sqes (trace st) \<noteq> [] \<and> sqe_prep (last (sqes (trace st))) = p \<and>
     (\<exists>i a. lookup (m_pool st) = [i \<mapsto> a] \<and> m_work_type (deref (m_pool st) a) = t \<and>
        m_callback (deref (m_pool st) a) = cb \<and> m_socket (deref (m_pool st) a) = socket \<and>
        handed_over (trace st) = add_mset i (completed (trace st)))"

lemma post_release:
  assumes inv: "pool_inv (m_pool st)" and l: "lookup (m_pool st) i = Some a" and g: "post_step a st s2"
  shows "\<exists>st2. release i s2 = Inr st2 \<and> pool_inv (m_pool st2) \<and>
     lookup (m_pool st2) = (lookup (m_pool st))(i := None) \<and>
     (\<forall>b. b \<noteq> a \<longrightarrow> deref (m_pool st2) b = deref (m_pool st) b) \<and> m_initialized st2 = m_initialized st \<and>
     sqes (trace st2) = sqes (trace st) \<and> cqes (trace st2) = cqes (trace st) \<and>
     callbacks (trace st2) = callbacks (trace st)"
proof -
  note a = pool_invD(1)[OF inv l]
  have p2: "pool_inv (m_pool s2)" using post_step_ok[OF inv a g] by blast
  have same: "lookup (m_pool s2) = lookup (m_pool st)" "m_initialized s2 = m_initialized st"
    "sqes (trace s2) = sqes (trace st)" "cqes (trace s2) = cqes (trace st)"
    "callbacks (trace s2) = callbacks (trace st)" "\<And>b. b \<noteq> a \<Longrightarrow> deref (m_pool s2) b = deref (m_pool st) b"
    using g by (auto simp: post_step_def update_item_def recycle_buffer_def add_buffer_def log_ev_def Let_def)
  from release_succeeds[OF p2] l obtain st2 where r: "release i s2 = Inr st2" by (auto simp: same)
  have l2: "lookup (m_pool s2) i = Some a" using l by (simp add: same)
  note R = release_frame[OF p2 l2 r]
  have "deref (m_pool st2) b = deref (m_pool s2) b" if "b \<noteq> a" for b
    using that r free_work_item_eq[OF p2 l2] by (auto simp: release_def deref_def)
  moreover have "m_initialized st2 = m_initialized s2" using r by (auto simp: release_def)
  ultimately show ?thesis using r R same by simp
qed

text \<open>After a completion whose function has made the next request.\<close>

lemma awaits_next:
  assumes w: "awaits socket t cb p st" and i: "lookup (m_pool st) (cqe_user_data c) = Some a"
    and e: "ends_request c"
    and new: "new_request socket t2 cb2 p2 (log_ev (Ev_callback f x) (log_ev (Ev_cqe c) st)) st1"
    and g: "post_step a st1 s2"
  shows "\<exists>st2. release (cqe_user_data c) s2 = Inr st2 \<and>
     awaits socket t2 cb2 p2 (log_ev (Ev_cq_advance 1) st2) \<and>
     map sqe_prep (sqes (trace st2)) = map sqe_prep (sqes (trace st)) @ [p2] \<and>
     map fst (callbacks (trace st2)) = map fst (callbacks (trace st)) @ [f]"
proof -
  let ?i = "cqe_user_data c" and ?st0 = "log_ev (Ev_callback f x) (log_ev (Ev_cqe c) st)"
  from w i have l0: "lookup (m_pool st) = [?i \<mapsto> a]" and h: "handed_over (trace st) = add_mset ?i (completed (trace st))"
    by (auto simp: awaits_def split: if_splits)
  from new obtain j b e2 where ok: "api_ok ?st0 st1" and
    n: "lookup (m_pool st) j = None" "length (heap (m_pool st)) \<le> b" "lookup (m_pool st1) = [?i \<mapsto> a, j \<mapsto> b]"
      "m_work_type (deref (m_pool st1) b) = t2" "m_callback (deref (m_pool st1) b) = cb2"
      "m_socket (deref (m_pool st1) b) = socket" and
    q: "sqes (trace st1) = sqes (trace st) @ [e2]" "sqe_user_data e2 = j" "sqe_prep e2 = p2"
    by (auto simp: new_request_def l0)
  have p0: "pool_inv (m_pool st)" using w by (simp add: awaits_def)
  have p1: "pool_inv (m_pool st1)" and fr: "api_frame ?st0 st1"
    and c1: "callbacks (trace st1) = callbacks (trace st) @ [(f, x)]"
    using ok by (simp_all add: api_ok_def)
  have ji: "j \<noteq> ?i" using n(1) l0 by auto
  have ab: "b \<noteq> a" using pool_invD(1)[OF p0 i] n(2) by simp
  have l1: "lookup (m_pool st1) ?i = Some a" using n(3) ji by simp
  from post_release[OF p1 l1 g] obtain st2 where
    r: "release ?i s2 = Inr st2" and R: "pool_inv (m_pool st2)" "lookup (m_pool st2) = (lookup (m_pool st1))(?i := None)"
      "\<forall>b. b \<noteq> a \<longrightarrow> deref (m_pool st2) b = deref (m_pool st1) b" "m_initialized st2 = m_initialized st1"
      "sqes (trace st2) = sqes (trace st1)" "cqes (trace st2) = cqes (trace st1)"
      "callbacks (trace st2) = callbacks (trace st1)"
    by blast
  have same: "m_initialized st1 = m_initialized st" "cqes (trace st1) = cqes (trace st) @ [c]"
    "buf_shift st1 = buf_shift st"
    using fr by (cases st, cases st1, auto simp: api_frame_def trace_grows_def log_ev_def)+
  have "lookup (m_pool st2) = [j \<mapsto> b]" using R(2) n(3) ji by (auto simp: fun_eq_iff)
  moreover have "handed_over (trace st2) = add_mset j (completed (trace st2))"
    using h e q R(5,6) same(2) by (simp add: handed_over_def completed_def)
  moreover have "buf_shift st2 = buf_shift st1"
    using r g by (auto simp: release_def post_step_def update_item_def)
  ultimately have "awaits socket t2 cb2 p2 (log_ev (Ev_cq_advance 1) st2)"
    using R n ab q same w by (auto simp: awaits_def handed_over_def completed_def)
  then show ?thesis using r R q c1 same by simp
qed

text \<open>What a poll does with the completion, given that the function returns \<open>NONE\<close>.\<close>

lemma poll_runs:
  assumes inv: "pool_inv (m_pool st)" and peek: "e_peek_cqe env (trace st) = (0, c)"
    and l: "lookup (m_pool st) (cqe_user_data c) = Some a" and r: "0 \<le> cqe_res c"
    and t: "completes_once t \<or> t = RECV \<and> is_stream (m_socket (deref (m_pool st) a))"
    and ty: "m_work_type (deref (m_pool st) a) = t" and f: "cb_func (m_callback (deref (m_pool st) a)) = Some f"
    and runs: "\<And>x. tells t (cqe_res c) x \<Longrightarrow> \<exists>st1. cbs f x (log_ev (Ev_cqe c) st) = Inr (st1, NONE)"
  shows "\<exists>x st1 s2. tells t (cqe_res c) x \<and> cbs f x (log_ev (Ev_cqe c) st) = Inr (st1, NONE) \<and>
     post_step a st1 s2 \<and> (\<forall>st2. release (cqe_user_data c) s2 = Inr st2 \<longrightarrow>
       poll_completion_queues env cbs st = Inr (log_ev (Ev_cq_advance 1) st2, OK))"
proof -
  let ?st = "log_ev (Ev_cqe c) st" and ?wi = "deref (m_pool st) a"
  have inv0: "pool_inv (m_pool ?st)" and l0: "lookup (m_pool ?st) (cqe_user_data c) = Some a"
    and nb: "cqe_res c \<noteq> - ENOBUFS"
    using inv l r by (simp_all add: errno_defs)
  note poll = poll_completion[OF peek, of cbs]
  from t show ?thesis
  proof
    assume once: "completes_once t"
    let ?x = "reports t ?wi (cqe_res c)"
    have x: "tells t (cqe_res c) ?x" using once r by (auto simp: completes_once_def)
    from runs[OF x] obtain st1 where s1: "cbs f ?x ?st = Inr (st1, NONE)" by blast
    from completes_once_eq[OF inv0 l0 nb, of f env cbs] once ty f r obtain g where
      g: "g \<in> {id, update_item a clean_send_packet}" and
      eq: "call_callback_and_free_work_item_id env cbs c ?st = run_and_release cbs f ?x g (cqe_user_data c) ?st"
      by auto
    have "post_step a st1 (g st1)" using g by (auto simp: post_step_def)
    then show ?thesis
      using x s1 poll eq by (intro exI[of _ ?x] exI[of _ st1] exI[of _ "g st1"]) (simp add: run_and_release_def)
  next
    assume recv: "t = RECV \<and> is_stream (m_socket ?wi)"
    let ?idx = "unat (drop_bit 16 (cqe_flags c))"
    let ?x = "Received \<lparr>rm_data = get_buffer ?st ?idx, rm_size = nat (cqe_res c), rm_source_address = IPAddress_default\<rparr>"
    have x: "tells t (cqe_res c) ?x" using recv r by simp
    from runs[OF x] obtain st1 where s1: "cbs f ?x ?st = Inr (st1, NONE)" by blast
    have "call_recv_callback env cbs a c ?st = Inr (recycle_buffer ?idx st1, NONE)"
      using recv r s1 recv_item_callback[OF inv0 l0, of f cbs] ty f
      by (simp add: call_recv_callback_def call_recv_handler_stream_def Let_def item_is_stream_def)
    then have "call_callback_and_free_work_item_id env cbs c ?st = release (cqe_user_data c) (recycle_buffer ?idx st1)"
      using recv_completion_eq[OF inv0 l0 nb, of env cbs] ty recv by (simp add: after_receive_def)
    moreover have "post_step a st1 (recycle_buffer ?idx st1)" by (auto simp: post_step_def)
    ultimately show ?thesis
      using x s1 poll by (intro exI[of _ ?x] exI[of _ st1] exI[of _ "recycle_buffer ?idx st1"]) simp
  qed
qed

section \<open>The loop\<close>

text \<open>
  A kernel that serves the program: it answers every request after some time, ends it with
  that answer, and lets connects and closes succeed.
\<close>

fun must_succeed :: "prep \<Rightarrow> bool" where
  "must_succeed (Prep_connect fd address len) = True"
| "must_succeed (Prep_close fd) = True"
| "must_succeed p = False"

definition serving_kernel :: "env \<Rightarrow> bool" where
  "serving_kernel env \<longleftrightarrow> kernel_ok env \<and> single_shot env \<and> answering_kernel env \<and> queue_has_room env \<and>
     (\<forall>tr. sqes tr \<noteq> [] \<and> must_succeed (sqe_prep (last (sqes tr))) \<longrightarrow> cqe_res (snd (e_peek_cqe env tr)) = 0)"

lemma awaits_waited [simp]: "awaits socket t cb p (waited n st) = awaits socket t cb p st"
  by (simp add: awaits_def handed_over_def completed_def) (simp add: waited_def)

lemma closed_waited [simp]: "connection_has_been_closed (waited n st) = connection_has_been_closed st"
  by (simp add: connection_has_been_closed_def)

lemma awaits_in_flight: "awaits socket t cb p st \<Longrightarrow>
    \<exists>i a. lookup (m_pool st) = [i \<mapsto> a] \<and> in_flight (trace st) = {#i#} \<and> m_work_type (deref (m_pool st) a) = t \<and>
      m_callback (deref (m_pool st) a) = cb \<and> m_socket (deref (m_pool st) a) = socket"
  by (auto simp: awaits_def in_flight_def)

lemma loop_poll:
  assumes "\<not> connection_has_been_closed st" and "\<not> elapsed (trace st)"
    and "poll_completion_queues env (ping_function env socket) st = Inr (st', r)"
  shows "poll_loop env socket elapsed st = poll_loop env socket elapsed st'"
  using assms by (subst poll_loop.simps) simp

text \<open>The loop while there is nothing to report: it goes on, or the time is up.\<close>

lemma loop_idles:
  "\<not> connection_has_been_closed st \<Longrightarrow>
     \<forall>m < n. fst (e_peek_cqe env (trace st @ replicate m Ev_no_cqe)) = - EAGAIN \<Longrightarrow>
     poll_loop env socket elapsed st =
       (if \<exists>m < n. elapsed (trace st @ replicate m Ev_no_cqe) then Some (Inl Assertion_failed)
        else poll_loop env socket elapsed (waited n st))"
proof (induction n arbitrary: st)
  case (Suc n)
  let ?st = "log_ev Ev_no_cqe st"
  have "fst (e_peek_cqe env (trace st)) = - EAGAIN" using Suc.prems(2) by fastforce
  then have p: "poll_completion_queues env (ping_function env socket) st = Inr (?st, OK)"
    by (simp add: poll_completion_queues_def split_beta errno_defs)
  have later: "trace st @ replicate (Suc m) Ev_no_cqe = trace ?st @ replicate m Ev_no_cqe" for m by simp
  have "\<forall>m < n. fst (e_peek_cqe env (trace ?st @ replicate m Ev_no_cqe)) = - EAGAIN"
    unfolding later[symmetric] using Suc.prems(2) by blast
  moreover have "\<not> connection_has_been_closed ?st"
    using Suc.prems(1) by (simp add: connection_has_been_closed_def)
  ultimately have IH: "poll_loop env socket elapsed ?st =
       (if \<exists>m < n. elapsed (trace ?st @ replicate m Ev_no_cqe) then Some (Inl Assertion_failed)
        else poll_loop env socket elapsed (waited n ?st))" by (intro Suc.IH)
  have "(\<exists>m < Suc n. elapsed (trace st @ replicate m Ev_no_cqe)) \<longleftrightarrow>
      elapsed (trace st) \<or> (\<exists>m < n. elapsed (trace ?st @ replicate m Ev_no_cqe))"
    unfolding Ex_less_Suc2 later by simp
  then have "(if \<exists>m < Suc n. elapsed (trace st @ replicate m Ev_no_cqe) then Some (Inl Assertion_failed)
        else poll_loop env socket elapsed (waited (Suc n) st)) =
      (if elapsed (trace st) then Some (Inl Assertion_failed) else poll_loop env socket elapsed ?st)"
    unfolding IH waited_simps(4)[symmetric] by (simp only: if_bool_eq_conj) auto
  moreover have "poll_loop env socket elapsed st =
      (if elapsed (trace st) then Some (Inl Assertion_failed) else poll_loop env socket elapsed ?st)"
    using Suc.prems(1) p by (subst poll_loop.simps) simp
  ultimately show ?case by simp
qed simp

lemma loop_waits:
  assumes "\<forall>tr. \<not> elapsed tr" and "\<not> connection_has_been_closed st"
    and "\<forall>m < n. fst (e_peek_cqe env (trace st @ replicate m Ev_no_cqe)) = - EAGAIN"
  shows "poll_loop env socket elapsed st = poll_loop env socket elapsed (waited n st)"
  using loop_idles[OF assms(2,3), of socket elapsed] assms(1) by simp

text \<open>The kernel answers the one request that is in flight.\<close>

lemma loop_answer:
  assumes k: "serving_kernel env" and e: "\<forall>tr. \<not> elapsed tr" and w: "awaits socket t cb p st"
    and o: "\<not> connection_has_been_closed st"
  shows "\<exists>n c. poll_loop env socket elapsed st = poll_loop env socket elapsed (waited n st) \<and>
     e_peek_cqe env (trace (waited n st)) = (0, c) \<and> 0 \<le> cqe_res c \<and> ends_request c \<and>
     lookup (m_pool st) (cqe_user_data c) \<noteq> None \<and> (must_succeed p \<longrightarrow> cqe_res c = 0)"
proof -
  from awaits_in_flight[OF w] obtain i a where i: "lookup (m_pool st) = [i \<mapsto> a]" "in_flight (trace st) = {#i#}"
    by blast
  then obtain n where n: "answers_after env (trace st) n"
    using k by (fastforce simp: serving_kernel_def answering_kernel_def)
  let ?tr = "trace (waited n st)"
  let ?c = "snd (e_peek_cqe env ?tr)"
  have p0: "e_peek_cqe env ?tr = (0, ?c)" using n by (simp add: answers_after_def prod_eq_iff)
  have "cqe_user_data ?c \<in># in_flight ?tr"
    using k p0 unfolding serving_kernel_def kernel_ok_def by blast
  moreover have "in_flight ?tr = {#i#}" by (simp only: waited_simps waited_keeps i(2))
  ultimately have "cqe_user_data ?c = i" by simp
  moreover have "cqe_res ?c = 0" if "must_succeed p"
    using k w that by (simp add: serving_kernel_def awaits_def)
  ultimately show ?thesis
    using p0 i k loop_waits[OF e o, of n] n
    by (intro exI[of _ n] exI[of _ ?c])
      (auto simp: serving_kernel_def single_shot_def answering_kernel_def answers_after_def)
qed

text \<open>One stage: the function of the request makes the next one.\<close>

lemma loop_stage:
  assumes k: "serving_kernel env" and e: "\<forall>tr. \<not> elapsed tr" and w: "awaits socket t cb p st"
    and o: "\<not> connection_has_been_closed st" and f: "cb_func cb = Some f" "f \<noteq> on_closed"
    and t: "completes_once t \<or> t = RECV \<and> is_stream socket"
    and runs: "\<And>st0 r x. pool_inv (m_pool st0) \<Longrightarrow> m_initialized st0 \<Longrightarrow> buf_shift st0 = BUF_SHIFT \<Longrightarrow> tells t r x \<Longrightarrow>
      (must_succeed p \<Longrightarrow> r = 0) \<Longrightarrow>
      \<exists>st1. ping_function env socket f x st0 = Inr (st1, NONE) \<and>
        new_request socket t2 cb2 p2 (log_ev (Ev_callback f x) st0) st1"
  shows "\<exists>st'. poll_loop env socket elapsed st = poll_loop env socket elapsed st' \<and>
     awaits socket t2 cb2 p2 st' \<and> \<not> connection_has_been_closed st' \<and>
     map sqe_prep (sqes (trace st')) = map sqe_prep (sqes (trace st)) @ [p2] \<and>
     map fst (callbacks (trace st')) = map fst (callbacks (trace st)) @ [f]"
proof -
  from loop_answer[OF k e w o] obtain n c where
    n: "poll_loop env socket elapsed st = poll_loop env socket elapsed (waited n st)" and
    peek: "e_peek_cqe env (trace (waited n st)) = (0, c)" and
    c: "0 \<le> cqe_res c" "ends_request c" "lookup (m_pool st) (cqe_user_data c) \<noteq> None"
      "must_succeed p \<longrightarrow> cqe_res c = 0"
    by blast
  let ?w = "waited n st" and ?cbs = "ping_function env socket"
  have w': "awaits socket t cb p ?w" using w by simp
  then have inv: "pool_inv (m_pool ?w)" "m_initialized ?w" "buf_shift ?w = BUF_SHIFT"
    unfolding awaits_def by blast+
  from c(3) awaits_in_flight[OF w'] obtain a where l: "lookup (m_pool ?w) (cqe_user_data c) = Some a" and
    a: "m_work_type (deref (m_pool ?w) a) = t" "m_callback (deref (m_pool ?w) a) = cb"
      "m_socket (deref (m_pool ?w) a) = socket"
    by (auto split: if_splits)
  let ?st0 = "log_ev (Ev_cqe c) ?w"
  have F: "\<exists>st1. ?cbs f x ?st0 = Inr (st1, NONE) \<and> new_request socket t2 cb2 p2 (log_ev (Ev_callback f x) ?st0) st1"
    if "tells t (cqe_res c) x" for x
    using inv that c(4) by (intro runs[of _ "cqe_res c"]) auto
  have t': "completes_once t \<or> t = RECV \<and> is_stream (m_socket (deref (m_pool ?w) a))" using t a by simp
  have f': "cb_func (m_callback (deref (m_pool ?w) a)) = Some f" using a f by simp
  from poll_runs[OF inv(1) peek l c(1) t' a(1) f', of ?cbs] F obtain x st1 s2 where
    x: "tells t (cqe_res c) x" and s1: "?cbs f x ?st0 = Inr (st1, NONE)" and g: "post_step a st1 s2" and
    poll: "\<forall>st2. release (cqe_user_data c) s2 = Inr st2 \<longrightarrow>
      poll_completion_queues env ?cbs ?w = Inr (log_ev (Ev_cq_advance 1) st2, OK)"
    by blast
  have new: "new_request socket t2 cb2 p2 (log_ev (Ev_callback f x) ?st0) st1" using F[OF x] s1 by auto
  from awaits_next[OF w' l c(2) new g] obtain st2 where
    s2: "release (cqe_user_data c) s2 = Inr st2" "awaits socket t2 cb2 p2 (log_ev (Ev_cq_advance 1) st2)"
      "map sqe_prep (sqes (trace st2)) = map sqe_prep (sqes (trace ?w)) @ [p2]"
      "map fst (callbacks (trace st2)) = map fst (callbacks (trace ?w)) @ [f]"
    by blast
  have "poll_loop env socket elapsed ?w = poll_loop env socket elapsed (log_ev (Ev_cq_advance 1) st2)"
    using loop_poll[of ?w elapsed] o e poll s2(1) by auto
  moreover have "\<not> connection_has_been_closed (log_ev (Ev_cq_advance 1) st2)"
    using s2(4) o f(2) by (simp add: connection_has_been_closed_def)
  ultimately show ?thesis using n s2 by (intro exI[of _ "log_ev (Ev_cq_advance 1) st2"]) simp
qed

text \<open>The last stage: the connection has been closed.\<close>

lemma loop_last:
  assumes k: "serving_kernel env" and e: "\<forall>tr. \<not> elapsed tr"
    and w: "awaits socket CLOSE (Close_cb (Some on_closed)) (Prep_close fd) st"
    and o: "\<not> connection_has_been_closed st"
  shows "\<exists>st'. poll_loop env socket elapsed st = Some (Inr st') \<and>
     lookup (m_pool st') = Map.empty \<and> in_flight (trace st') = {#} \<and>
     map sqe_prep (sqes (trace st')) = map sqe_prep (sqes (trace st)) \<and>
     map fst (callbacks (trace st')) = map fst (callbacks (trace st)) @ [on_closed]"
proof -
  from loop_answer[OF k e w o] obtain n c where
    n: "poll_loop env socket elapsed st = poll_loop env socket elapsed (waited n st)" and
    peek: "e_peek_cqe env (trace (waited n st)) = (0, c)" and
    c: "ends_request c" "lookup (m_pool st) (cqe_user_data c) \<noteq> None" "cqe_res c = 0"
    by auto
  let ?w = "waited n st" and ?cbs = "ping_function env socket" and ?st0 = "log_ev (Ev_cqe c) (waited n st)"
  have w': "awaits socket CLOSE (Close_cb (Some on_closed)) (Prep_close fd) ?w" using w by simp
  then have inv: "pool_inv (m_pool ?w)" unfolding awaits_def by blast
  from c(2) awaits_in_flight[OF w'] obtain a where l: "lookup (m_pool ?w) = [cqe_user_data c \<mapsto> a]" and
    a: "m_work_type (deref (m_pool ?w) a) = CLOSE" "cb_func (m_callback (deref (m_pool ?w) a)) = Some on_closed"
    by (auto split: if_splits)
  have l': "lookup (m_pool ?w) (cqe_user_data c) = Some a" by (simp only: l fun_upd_same)
  have h: "handed_over (trace st) = add_mset (cqe_user_data c) (completed (trace st))"
    using w l' by (auto simp: awaits_def split: if_splits)
  have F: "?cbs on_closed x ?st0 = Inr (log_ev (Ev_callback on_closed x) ?st0, NONE)"
    if "tells CLOSE (cqe_res c) x" for x
    using that c(3) by (cases x) (simp_all add: ping_function_def ping_closed_def)
  have once: "completes_once CLOSE" by (simp add: completes_once_def)
  from poll_runs[OF inv peek l' _ disjI1[OF once] a, of ?cbs] F c(3) obtain x s2 where
    g: "post_step a (log_ev (Ev_callback on_closed x) ?st0) s2" and
    poll: "\<forall>st2. release (cqe_user_data c) s2 = Inr st2 \<longrightarrow>
      poll_completion_queues env ?cbs ?w = Inr (log_ev (Ev_cq_advance 1) st2, OK)"
    by fastforce
  from post_release[OF _ _ g, of "cqe_user_data c"] inv l' obtain st2 where
    s2: "release (cqe_user_data c) s2 = Inr st2" "lookup (m_pool st2) = (lookup (m_pool st))(cqe_user_data c := None)"
      "sqes (trace st2) = sqes (trace st)" "cqes (trace st2) = cqes (trace st) @ [c]"
      "callbacks (trace st2) = callbacks (trace st) @ [(on_closed, x)]"
    by auto
  let ?st' = "log_ev (Ev_cq_advance 1) st2"
  have "poll_loop env socket elapsed ?w = poll_loop env socket elapsed ?st'"
    using loop_poll[of ?w elapsed] o e poll s2(1) by auto
  also have "\<dots> = Some (Inr ?st')"
    using s2(5) by (subst poll_loop.simps) (simp add: connection_has_been_closed_def)
  finally have "poll_loop env socket elapsed st = Some (Inr ?st')" using n by simp
  moreover have "in_flight (trace ?st') = {#}"
    using h c(1) s2(3,4) by (simp add: in_flight_def handed_over_def completed_def)
  moreover have "lookup (m_pool ?st') = Map.empty" using s2(2) l by (auto simp: fun_eq_iff)
  ultimately show ?thesis using s2 by (intro exI[of _ ?st']) simp
qed

section \<open>The functions of the program\<close>

lemma function_runs:
  assumes env: "env_ok env" "queue_has_room env" and s: "is_stream socket"
    and inv: "pool_inv (m_pool st)" "m_initialized st" "buf_shift st = BUF_SHIFT"
  shows "\<exists>st1. ping_function env socket on_connected (ConnectResult 0 ad) st = Inr (st1, NONE) \<and>
       new_request socket SEND_STREAM_DATA (Send_cb (Some on_sent))
         (Prep_send (get_fd socket) ping_bytes (length ping_bytes) 0)
         (log_ev (Ev_callback on_connected (ConnectResult 0 ad)) st) st1"
    and "\<exists>st1. ping_function env socket on_sent (SendResult n) st = Inr (st1, NONE) \<and>
       new_request socket RECV (Recv_cb (Some on_received)) (Prep_recv (get_fd socket) 4096 0)
         (log_ev (Ev_callback on_sent (SendResult n)) st) st1"
    and "\<exists>st1. ping_function env socket on_received (Received m) st = Inr (st1, NONE) \<and>
       new_request socket CLOSE (Close_cb (Some on_closed)) (Prep_close (get_fd socket))
         (log_ev (Ev_callback on_received (Received m)) st) st1"
proof -
  have b: "buffer_size (log_ev e st) = 4096" for e
    using inv(3) by (simp add: buffer_size_def BUF_SHIFT_def)
  have p: "pool_inv (m_pool (log_ev e st))" "m_initialized (log_ev e st)" for e using inv by simp_all
  show "\<exists>st1. ping_function env socket on_connected (ConnectResult 0 ad) st = Inr (st1, NONE) \<and>
       new_request socket SEND_STREAM_DATA (Send_cb (Some on_sent))
         (Prep_send (get_fd socket) ping_bytes (length ping_bytes) 0)
         (log_ev (Ev_callback on_connected (ConnectResult 0 ad)) st) st1"
    using send_runs[OF env p s] by (fastforce simp: ping_function_def ping_connected_def)
  show "\<exists>st1. ping_function env socket on_sent (SendResult n) st = Inr (st1, NONE) \<and>
       new_request socket RECV (Recv_cb (Some on_received)) (Prep_recv (get_fd socket) 4096 0)
         (log_ev (Ev_callback on_sent (SendResult n)) st) st1"
    using recv_runs[OF env p s, where h = "Some on_received"] b
    by (fastforce simp: ping_function_def ping_sent_def handle_packet_sent_def)
  show "\<exists>st1. ping_function env socket on_received (Received m) st = Inr (st1, NONE) \<and>
       new_request socket CLOSE (Close_cb (Some on_closed)) (Prep_close (get_fd socket))
         (log_ev (Ev_callback on_received (Received m)) st) st1"
    using close_runs[OF env p, where h = "Some on_closed" and socket = socket] by (fastforce simp: ping_function_def ping_received_def)
qed

text \<open>The three stages before the last.\<close>

definition goes_on :: "env \<Rightarrow> isocket \<Rightarrow> (event list \<Rightarrow> bool) \<Rightarrow> nat \<Rightarrow> work_type \<Rightarrow> callback \<Rightarrow> prep \<Rightarrow>
    uring \<Rightarrow> uring \<Rightarrow> bool" where
  "goes_on env socket elapsed f t cb p st st' \<longleftrightarrow>
     poll_loop env socket elapsed st = poll_loop env socket elapsed st' \<and>
     awaits socket t cb p st' \<and> \<not> connection_has_been_closed st' \<and>
     map sqe_prep (sqes (trace st')) = map sqe_prep (sqes (trace st)) @ [p] \<and>
     map fst (callbacks (trace st')) = map fst (callbacks (trace st)) @ [f]"

lemma loop_stages:
  assumes env: "env_ok env" and k: "serving_kernel env" and e: "\<forall>tr. \<not> elapsed tr"
    and s: "is_stream socket" and o: "\<not> connection_has_been_closed st"
  shows "awaits socket CONNECT (Connect_cb (Some on_connected)) (Prep_connect fd address len) st \<Longrightarrow>
      \<exists>st'. goes_on env socket elapsed on_connected SEND_STREAM_DATA (Send_cb (Some on_sent))
        (Prep_send (get_fd socket) ping_bytes (length ping_bytes) 0) st st'"
    and "awaits socket SEND_STREAM_DATA (Send_cb (Some on_sent)) p st \<Longrightarrow>
      \<exists>st'. goes_on env socket elapsed on_sent RECV (Recv_cb (Some on_received))
        (Prep_recv (get_fd socket) 4096 0) st st'"
    and "awaits socket RECV (Recv_cb (Some on_received)) p st \<Longrightarrow>
      \<exists>st'. goes_on env socket elapsed on_received CLOSE (Close_cb (Some on_closed))
        (Prep_close (get_fd socket)) st st'"
proof -
  have room: "queue_has_room env" using k by (simp add: serving_kernel_def)
  note runs = function_runs[OF env room s]
  have order: "on_connected \<noteq> on_closed" "on_sent \<noteq> on_closed" "on_received \<noteq> on_closed"
    by (simp_all add: ping_functions)
  have once: "completes_once CONNECT" "completes_once SEND_STREAM_DATA" by (simp_all add: completes_once_def)
  show "\<exists>st'. goes_on env socket elapsed on_connected SEND_STREAM_DATA (Send_cb (Some on_sent))
        (Prep_send (get_fd socket) ping_bytes (length ping_bytes) 0) st st'"
    if w: "awaits socket CONNECT (Connect_cb (Some on_connected)) (Prep_connect fd address len) st"
    unfolding goes_on_def
  proof (rule loop_stage[OF k e w o _ order(1) disjI1[OF once(1)]])
    fix st0 :: uring and r x
    assume i: "pool_inv (m_pool st0)" "m_initialized st0" "buf_shift st0 = BUF_SHIFT" and
      x: "tells CONNECT r x" and r: "must_succeed (Prep_connect fd address len) \<Longrightarrow> r = 0"
    from x r obtain ad where "x = ConnectResult 0 ad" by (cases x) auto
    with runs(1)[OF i, of ad] show "\<exists>st1. ping_function env socket on_connected x st0 = Inr (st1, NONE) \<and>
        new_request socket SEND_STREAM_DATA (Send_cb (Some on_sent))
          (Prep_send (get_fd socket) ping_bytes (length ping_bytes) 0) (log_ev (Ev_callback on_connected x) st0) st1"
      by simp
  qed simp
  show "\<exists>st'. goes_on env socket elapsed on_sent RECV (Recv_cb (Some on_received))
        (Prep_recv (get_fd socket) 4096 0) st st'"
    if w: "awaits socket SEND_STREAM_DATA (Send_cb (Some on_sent)) p st"
    unfolding goes_on_def
  proof (rule loop_stage[OF k e w o _ order(2) disjI1[OF once(2)]])
    fix st0 :: uring and r x
    assume i: "pool_inv (m_pool st0)" "m_initialized st0" "buf_shift st0 = BUF_SHIFT" and
      x: "tells SEND_STREAM_DATA r x"
    from x have "x = SendResult r" by (cases x) auto
    with runs(2)[OF i, of r] show "\<exists>st1. ping_function env socket on_sent x st0 = Inr (st1, NONE) \<and>
        new_request socket RECV (Recv_cb (Some on_received)) (Prep_recv (get_fd socket) 4096 0)
          (log_ev (Ev_callback on_sent x) st0) st1" by simp
  qed simp
  show "\<exists>st'. goes_on env socket elapsed on_received CLOSE (Close_cb (Some on_closed))
        (Prep_close (get_fd socket)) st st'"
    if w: "awaits socket RECV (Recv_cb (Some on_received)) p st"
    unfolding goes_on_def
  proof (rule loop_stage[OF k e w o _ order(3)])
    fix st0 :: uring and r x
    assume i: "pool_inv (m_pool st0)" "m_initialized st0" "buf_shift st0 = BUF_SHIFT" and
      x: "tells RECV r x"
    from x obtain m where "x = Received m" by (cases x) auto
    with runs(3)[OF i, of m] show "\<exists>st1. ping_function env socket on_received x st0 = Inr (st1, NONE) \<and>
        new_request socket CLOSE (Close_cb (Some on_closed)) (Prep_close (get_fd socket))
          (log_ev (Ev_callback on_received x) st0) st1" by simp
  qed (use s in simp_all)
qed

section \<open>The whole program\<close>

text \<open>Up to the loop.\<close>

lemma start_runs:
  assumes env: "env_ok env" "queue_has_room env"
    and init: "IOUring_init env (IOUringInterface_create_impl junk) = Inr (st0, r)"
    and s: "create_impl senv IPV4_TCP UNENCRYPTED_WEB_PORT UNICAST_CLIENT_SOCKET = Inr s"
    and t: "m_in4 ping_addr = Some sa"
  shows "\<exists>st. start_ping env senv junk ping_addr = Inr (s_base s, st) \<and>
     awaits (s_base s) CONNECT (Connect_cb (Some on_connected))
       (Prep_connect (sock_fd s) (sockaddr_in_bytes sa) 16) st \<and>
     map sqe_prep (sqes (trace st)) = [Prep_connect (sock_fd s) (sockaddr_in_bytes sa) 16] \<and>
     callbacks (trace st) = []"
proof -
  from init_silent[OF init] have 0: "m_pool st0 = WorkPool_new" "m_initialized st0" "buf_shift st0 = BUF_SHIFT"
    "sqes (trace st0) = []" "cqes (trace st0) = []" "callbacks (trace st0) = []"
    by (simp_all add: IOUringInterface_create_impl_def IOUring_create_def IOUring_new_def)
  then have p0: "pool_inv (m_pool st0)" by (simp add: pool_inv_new)
  from connect_runs[OF env p0 0(2) t, of "s_base s" "Some on_connected"] obtain a st where
    c: "submit_connect env (s_base s) ping_addr (Some on_connected) st0 = Inr (a, st)" and
    n: "new_request (s_base s) CONNECT (Connect_cb (Some on_connected))
      (Prep_connect (sock_fd s) (sockaddr_in_bytes sa) 16) st0 st"
    by (auto simp: sock_fd_def)
  have l0: "lookup (m_pool st0) = Map.empty" by (simp add: 0(1) lookup_def WorkPool_new_def fun_eq_iff)
  from n have ok: "pool_inv (m_pool st)" "api_frame st0 st" "callbacks (trace st) = []"
    by (simp_all add: new_request_def api_ok_def 0)
  then have "m_initialized st" "buf_shift st = BUF_SHIFT" "cqes (trace st) = []"
    using 0 by (cases st0, cases st, auto simp: api_frame_def trace_grows_def)+
  then have "awaits (s_base s) CONNECT (Connect_cb (Some on_connected))
       (Prep_connect (sock_fd s) (sockaddr_in_bytes sa) 16) st \<and>
     map sqe_prep (sqes (trace st)) = [Prep_connect (sock_fd s) (sockaddr_in_bytes sa) 16]"
    using n ok l0 0(4) by (auto simp: new_request_def awaits_def handed_over_def completed_def)
  then show ?thesis using init s c ok(3) by (simp add: start_ping_def)
qed

text \<open>The four stages together.\<close>

lemma http_ping_runs:
  assumes env: "env_ok env" and k: "serving_kernel env" and time: "\<forall>tr. \<not> elapsed tr"
    and init: "IOUring_init env (IOUringInterface_create_impl junk) = Inr (st0, r)"
    and s: "create_impl senv IPV4_TCP UNENCRYPTED_WEB_PORT UNICAST_CLIENT_SOCKET = Inr s"
    and t: "m_in4 ping_addr = Some sa"
  shows "\<exists>st. do_http_ping env senv elapsed junk ping_addr = Some (Inr st) \<and>
     map fst (callbacks (trace st)) = [on_connected, on_sent, on_received, on_closed] \<and>
     map sqe_prep (sqes (trace st)) =
       [Prep_connect (sock_fd s) (sockaddr_in_bytes sa) 16,
        Prep_send (sock_fd s) ping_bytes (length ping_bytes) 0,
        Prep_recv (sock_fd s) 4096 0, Prep_close (sock_fd s)] \<and>
     in_flight (trace st) = {#} \<and> lookup (m_pool st) = Map.empty"
proof -
  let ?s = "s_base s" and ?loop = "poll_loop env (s_base s) elapsed"
  have room: "queue_has_room env" using k by (simp add: serving_kernel_def)
  have stream: "is_stream ?s"
    using s[unfolded socket_creation_aux Let_def] by (simp add: is_stream_def ISocket_new_def)
  have fd: "get_fd ?s = sock_fd s" by (simp add: sock_fd_def)
  obtain st1 where c: "start_ping env senv junk ping_addr = Inr (?s, st1) \<and>
      awaits ?s CONNECT (Connect_cb (Some on_connected)) (Prep_connect (sock_fd s) (sockaddr_in_bytes sa) 16) st1 \<and>
      map sqe_prep (sqes (trace st1)) = [Prep_connect (sock_fd s) (sockaddr_in_bytes sa) 16] \<and>
      callbacks (trace st1) = []"
    using start_runs[OF env room init s t] ..
  note 1 = conjunct1[OF c] conjunct1[OF conjunct2[OF c]] conjunct1[OF conjunct2[OF conjunct2[OF c]]]
    conjunct2[OF conjunct2[OF conjunct2[OF c]]]
  have o1: "\<not> connection_has_been_closed st1" using 1(4) by (simp add: connection_has_been_closed_def)
  note stages = loop_stages[OF env k time stream]
  from stages(1)[OF o1 1(2)] obtain st2 where
    2: "goes_on env ?s elapsed on_connected SEND_STREAM_DATA (Send_cb (Some on_sent))
        (Prep_send (sock_fd s) ping_bytes (length ping_bytes) 0) st1 st2"
    unfolding fd by blast
  then have w2: "awaits ?s SEND_STREAM_DATA (Send_cb (Some on_sent))
        (Prep_send (sock_fd s) ping_bytes (length ping_bytes) 0) st2"
    and o2: "\<not> connection_has_been_closed st2" by (simp_all add: goes_on_def)
  from stages(2)[OF o2 w2] obtain st3 where
    3: "goes_on env ?s elapsed on_sent RECV (Recv_cb (Some on_received)) (Prep_recv (sock_fd s) 4096 0) st2 st3"
    unfolding fd by blast
  then have w3: "awaits ?s RECV (Recv_cb (Some on_received)) (Prep_recv (sock_fd s) 4096 0) st3"
    and o3: "\<not> connection_has_been_closed st3" by (simp_all add: goes_on_def)
  from stages(3)[OF o3 w3] obtain st4 where
    4: "goes_on env ?s elapsed on_received CLOSE (Close_cb (Some on_closed)) (Prep_close (sock_fd s)) st3 st4"
    unfolding fd by blast
  then have w4: "awaits ?s CLOSE (Close_cb (Some on_closed)) (Prep_close (sock_fd s)) st4"
    and o4: "\<not> connection_has_been_closed st4" by (simp_all add: goes_on_def)
  from loop_last[OF k time w4 o4] obtain st5 where
    5: "?loop st4 = Some (Inr st5)" "lookup (m_pool st5) = Map.empty" "in_flight (trace st5) = {#}"
      "map sqe_prep (sqes (trace st5)) = map sqe_prep (sqes (trace st4))"
      "map fst (callbacks (trace st5)) = map fst (callbacks (trace st4)) @ [on_closed]"
    by blast
  have "do_http_ping env senv elapsed junk ping_addr = Some (Inr st5)"
    using 1(1) 2 3 4 5(1) by (simp add: do_http_ping_def goes_on_def)
  then show ?thesis using 1(3,4) 2 3 4 5 unfolding goes_on_def by (intro exI[of _ st5]) simp
qed

text \<open>
  C6: The example program terminates and does what it is for.  Called with \<^verbatim>\<open>--ping\<close> and the
  text of an IPv4 address, when the socket and the ring can be made and the kernel answers
  each request after some time (connect and close with success) before the time-out, \<^verbatim>\<open>main\<close>
  returns 0: the loop ends in a state in which the functions have run in the order
  connected, sent, received, closed, each once; the kernel was handed exactly the connect to
  this address at port 443, the send of the request in full, one receive into a provided
  buffer, and the close, all on the socket of the program; and no request is in flight and
  no work item in use.
\<close>

theorem ping_completes:
  assumes "env_ok env" and "serving_kernel env" and "\<forall>tr. \<not> elapsed tr"
    and "IOUring_init env (IOUringInterface_create_impl junk) = Inr (st0, r)"
    and "create_impl senv IPV4_TCP UNENCRYPTED_WEB_PORT UNICAST_CLIENT_SOCKET = Inr s"
    and "string_to_ipv4_address (se_text senv) ip = Inr a"
    and "set [prog, ip] \<inter> {''--ping'', ''--help''} = {}"
  shows "ping_main env senv elapsed junk junk_addr [prog, ''--ping'', ip] = Some (Inr 0) \<and>
     (\<exists>st target. do_http_ping env senv elapsed junk (IPAddress_of_in_addr junk_addr a 443) = Some (Inr st) \<and>
       data_sockaddr (IPAddress_of_in_addr junk_addr a 443) = Inr target \<and>
       map fst (callbacks (trace st)) = [on_connected, on_sent, on_received, on_closed] \<and>
       map sqe_prep (sqes (trace st)) =
         [Prep_connect (sock_fd s) target 16, Prep_send (sock_fd s) ping_bytes (length ping_bytes) 0,
          Prep_recv (sock_fd s) 4096 0, Prep_close (sock_fd s)] \<and>
       in_flight (trace st) = {#} \<and> lookup (m_pool st) = Map.empty)"
proof -
  let ?ad = "IPAddress_of_in_addr junk_addr a 443"
  obtain sa where sa: "m_in4 ?ad = Some sa" by (simp add: IPAddress_of_in_addr_def Let_def)
  from http_ping_runs[OF assms(1-5) sa] obtain st where
    st: "do_http_ping env senv elapsed junk ?ad = Some (Inr st)"
      "map fst (callbacks (trace st)) = [on_connected, on_sent, on_received, on_closed]"
      "map sqe_prep (sqes (trace st)) =
         [Prep_connect (sock_fd s) (sockaddr_in_bytes sa) 16, Prep_send (sock_fd s) ping_bytes (length ping_bytes) 0,
          Prep_recv (sock_fd s) 4096 0, Prep_close (sock_fd s)]"
      "in_flight (trace st) = {#}" "lookup (m_pool st) = Map.empty"
    by (elim exE conjE) (rule that)
  have "data_sockaddr ?ad = Inr (sockaddr_in_bytes sa)" using sa by (simp add: data_sockaddr_def)
  moreover have "prog \<noteq> ''--ping''" "prog \<noteq> ''--help''" "ip \<noteq> ''--ping''" "ip \<noteq> ''--help''" using assms(7) by auto
  then have "ping_arguments (se_text senv) junk_addr [prog, ''--ping'', ip] None = Inr (Inr (Some ?ad))"
    unfolding ping_arguments.simps assms(6) ENCRYPTED_WEB_PORT_def[symmetric] list.case bindE_simps
    by (simp only: if_False if_True refl simp_thms cong: if_cong) (simp only: if_cancel)
  then have "ping_main env senv elapsed junk junk_addr [prog, ''--ping'', ip] = Some (Inr 0)"
    using st(1) by (simp add: ping_main_def)
  ultimately show ?thesis by (intro conjI exI[of _ st] exI[of _ "sockaddr_in_bytes sa"]) (use st in auto)
qed

text \<open>With the kernel that answers in order.\<close>

theorem ping_completes_witness:
  "ping_main fifo_env sock_env_ex (\<lambda>_. False) \<lparr>ring_addr = 0, ring_entries = 0, bgid = 0, reg_flags = 0\<rparr>
     (replicate 16 0) [''ping'', ''--ping'', ''10.0.0.7''] = Some (Inr 0)"
proof -
  let ?junk = "\<lparr>ring_addr = 0, ring_entries = 0, bgid = 0, reg_flags = 0\<rparr>"
  obtain st0 r where i: "IOUring_init fifo_env (IOUringInterface_create_impl ?junk) = Inr (st0, r)"
    unfolding IOUringInterface_create_impl_def IOUring_create_def using fifo_init by blast
  obtain s where s: "create_impl sock_env_ex IPV4_TCP UNENCRYPTED_WEB_PORT UNICAST_CLIENT_SOCKET = Inr s"
    by (auto simp: socket_creation_aux Let_def creatable_def creation_calls_def sock_env_ex_def)
  have "string_to_ipv4_address text_env_ex ''10.0.0.7'' = Inr 0x0700000a" by code_simp
  then have t: "string_to_ipv4_address (se_text sock_env_ex) ''10.0.0.7'' = Inr 0x0700000a"
    by (simp add: sock_env_ex_def)
  have k: "serving_kernel fifo_env"
    using fifo_kernel_ok fifo_single_shot fifo_answering
    by (simp add: serving_kernel_def queue_has_room_def) (simp add: fifo_env_def split: list.split)
  show ?thesis
    using ping_completes[OF fifo_env_ok k _ i s t, of "\<lambda>_. False" "''ping''" "replicate 16 0"] by simp
qed

end
