(* ===== verification/PingRefused.thy ===== *)
theory PingRefused
  imports Ping
begin

text \<open>
  The example program \<^verbatim>\<open>tests/ping.cpp\<close> when its connection is refused.  The library drops a
  connect that fails, so the program waits for a function that is never run.
\<close>

section \<open>A connection that is refused\<close>

text \<open>
  A kernel that completes a connect with an error after some time, and has nothing to
  report when nothing is in flight.
\<close>

definition refusing_kernel :: "env \<Rightarrow> bool" where
  "refusing_kernel env \<longleftrightarrow> kernel_ok env \<and> single_shot env \<and> queue_has_room env \<and>
     (\<forall>tr. (if in_flight tr = {#} then fst (e_peek_cqe env tr) = - EAGAIN else \<exists>n. answers_after env tr n) \<and>
        cqe_res (snd (e_peek_cqe env tr)) < 0 \<and> cqe_res (snd (e_peek_cqe env tr)) \<noteq> - ENOBUFS)"

text \<open>With nothing in flight the loop ends only when the time is up.\<close>

definition idle :: "uring \<Rightarrow> bool" where
  "idle st \<longleftrightarrow> in_flight (trace st) = {#} \<and> \<not> connection_has_been_closed st"

lemma idle_polls:
  assumes "refusing_kernel env" and "idle st"
  shows "poll_completion_queues env cbs st = Inr (log_ev Ev_no_cqe st, OK)" "idle (log_ev Ev_no_cqe st)"
proof -
  have "fst (e_peek_cqe env (trace st)) = - EAGAIN" using assms by (simp add: refusing_kernel_def idle_def)
  then show "poll_completion_queues env cbs st = Inr (log_ev Ev_no_cqe st, OK)"
    by (simp add: poll_completion_queues_def split_beta errno_defs)
  show "idle (log_ev Ev_no_cqe st)"
    using assms(2) by (simp add: idle_def connection_has_been_closed_def in_flight_def handed_over_def completed_def)
qed

lemma idle_never_returns:
  assumes k: "refusing_kernel env" and e: "\<forall>tr. \<not> elapsed tr" and i: "idle st"
  shows "poll_loop env socket elapsed st = None"
proof -
  have "refusing_kernel env \<longrightarrow> (\<forall>tr. \<not> elapsed tr) \<longrightarrow> \<not> idle st"
    if "poll_loop env socket elapsed st = Some y" for y
  proof (rule poll_loop.raw_induct[OF _ that], intro impI notI)
    fix f :: "env \<Rightarrow> isocket \<Rightarrow> (event list \<Rightarrow> bool) \<Rightarrow> uring \<Rightarrow> uring res option" and env socket elapsed st y
    assume IH: "\<And>env socket elapsed st y. f env socket elapsed st = Some y \<Longrightarrow>
        refusing_kernel env \<longrightarrow> (\<forall>tr. \<not> elapsed tr) \<longrightarrow> \<not> idle st"
      and step: "(if connection_has_been_closed st then Some (Inr st)
        else if elapsed (trace st) then Some (Inl Assertion_failed)
        else case poll_completion_queues env (ping_function env socket) st of
               Inl e \<Rightarrow> Some (Inl e) | Inr (st, _) \<Rightarrow> f env socket elapsed st) = Some y"
      and k: "refusing_kernel env" and e: "\<forall>tr. \<not> elapsed tr" and i: "idle st"
    from step k e i have "f env socket elapsed (log_ev Ev_no_cqe st) = Some y"
      by (simp add: idle_polls(1) idle_def[of st])
    with IH k e idle_polls(2)[OF k i] show False by blast
  qed
  with k e i show ?thesis by (cases "poll_loop env socket elapsed st") auto
qed

lemma idle_times_out:
  assumes k: "refusing_kernel env" and i: "idle st" and e: "elapsed (trace st @ replicate n Ev_no_cqe)"
  shows "poll_loop env socket elapsed st = Some (Inl Assertion_failed)"
proof -
  have "\<forall>m < Suc n. fst (e_peek_cqe env (trace st @ replicate m Ev_no_cqe)) = - EAGAIN"
    using k i by (simp add: refusing_kernel_def idle_def)
  from loop_idles[OF _ this, of socket elapsed] i e show ?thesis by (auto simp: idle_def)
qed

text \<open>The completion of the connect: its item is released, and no function is run.\<close>

lemma refused_completion:
  assumes w: "awaits socket CONNECT cb p st" and o: "\<not> connection_has_been_closed st"
    and peek: "e_peek_cqe env (trace st) = (0, c)" and r: "cqe_res c < 0" "cqe_res c \<noteq> - ENOBUFS"
    and e: "ends_request c" and i: "cqe_user_data c \<in># in_flight (trace st)"
  shows "\<exists>st'. poll_completion_queues env cbs st = Inr (st', OK) \<and> idle st'"
proof -
  let ?st = "log_ev (Ev_cqe c) st" and ?i = "cqe_user_data c"
  from awaits_in_flight[OF w] i obtain a where l: "lookup (m_pool st) = [?i \<mapsto> a]" and
    t: "m_work_type (deref (m_pool st) a) = CONNECT" by auto
  have inv: "pool_inv (m_pool ?st)" using w by (simp add: awaits_def)
  have l0: "lookup (m_pool ?st) ?i = Some a" by (simp add: l)
  from release_succeeds[OF inv l0] obtain st1 where 1: "release ?i ?st = Inr st1" by blast
  note R = release_frame[OF inv l0 1]
  have "call_callback_and_free_work_item_id env cbs c ?st = Inr st1"
    using t r 1 completion_of_live[OF inv l0]
    by (simp add: call_callback_and_free_work_item_id_def call_connect_callback_def)
  then have "poll_completion_queues env cbs st = Inr (log_ev (Ev_cq_advance 1) st1, OK)"
    using poll_completion[OF peek, of cbs] by simp
  moreover have "handed_over (trace st) = add_mset ?i (completed (trace st))"
    using w l0 by (auto simp: awaits_def split: if_splits)
  then have "idle (log_ev (Ev_cq_advance 1) st1)"
    using R e o by (simp add: idle_def in_flight_def handed_over_def completed_def connection_has_been_closed_def)
  ultimately show ?thesis by blast
qed

lemma refused_start:
  assumes k: "refusing_kernel env" and w: "awaits socket CONNECT cb p st" and o: "\<not> connection_has_been_closed st"
  shows "\<exists>st'. idle st' \<and> (poll_loop env socket elapsed st = poll_loop env socket elapsed st' \<or>
     (\<exists>tr. elapsed tr) \<and> poll_loop env socket elapsed st = Some (Inl Assertion_failed))"
proof -
  from awaits_in_flight[OF w] obtain i where i: "in_flight (trace st) = {#i#}" by blast
  then have "\<exists>n. answers_after env (trace st) n" using k by (auto simp: refusing_kernel_def dest!: spec[of _ "trace st"])
  then obtain n where n: "answers_after env (trace st) n" ..
  let ?w = "waited n st"
  let ?c = "snd (e_peek_cqe env (trace ?w))"
  have peek: "e_peek_cqe env (trace ?w) = (0, ?c)" using n by (simp add: answers_after_def prod_eq_iff)
  have c: "cqe_res ?c < 0" "cqe_res ?c \<noteq> - ENOBUFS" "ends_request ?c"
    using k by (simp_all add: refusing_kernel_def single_shot_def)
  have "cqe_user_data ?c \<in># in_flight (trace ?w)"
    using k peek unfolding refusing_kernel_def kernel_ok_def by blast
  from refused_completion[OF _ _ peek c this, of socket cb p "ping_function env socket"] w o obtain st' where
    p: "poll_completion_queues env (ping_function env socket) ?w = Inr (st', OK)" and i': "idle st'" by auto
  have "poll_loop env socket elapsed st =
       (if \<exists>m < n. elapsed (trace st @ replicate m Ev_no_cqe) then Some (Inl Assertion_failed)
        else poll_loop env socket elapsed ?w)"
    using o n by (intro loop_idles) (simp_all add: answers_after_def)
  moreover have "poll_loop env socket elapsed ?w =
       (if elapsed (trace ?w) then Some (Inl Assertion_failed) else poll_loop env socket elapsed st')"
    using o p by (subst poll_loop.simps) simp
  ultimately show ?thesis using i' by (intro exI[of _ st']) (auto split: if_splits)
qed

text \<open>
  C8: The example program does not notice that its connection is refused.  When the kernel
  completes the connect with an error, the function of the connect is not run and nothing
  is in flight any more: without a time-out the loop runs for ever, with one it ends by the
  failing assertion on the time, and never with the error.
\<close>

theorem refused_ping_times_out:
  assumes env: "env_ok env" and k: "refusing_kernel env"
    and init: "IOUring_init env (IOUringInterface_create_impl junk) = Inr (st0, r)"
    and s: "create_impl senv IPV4_TCP UNENCRYPTED_WEB_PORT UNICAST_CLIENT_SOCKET = Inr s"
    and t: "m_in4 ping_addr = Some sa"
  shows "((\<forall>tr. \<not> elapsed tr) \<longrightarrow> do_http_ping env senv elapsed junk ping_addr = None) \<and>
     ((\<forall>tr. \<exists>n. elapsed (tr @ replicate n Ev_no_cqe)) \<longrightarrow>
        do_http_ping env senv elapsed junk ping_addr = Some (Inl Assertion_failed))"
proof -
  have room: "queue_has_room env" using k by (simp add: refusing_kernel_def)
  obtain st1 where c: "start_ping env senv junk ping_addr = Inr (s_base s, st1) \<and>
      awaits (s_base s) CONNECT (Connect_cb (Some on_connected)) (Prep_connect (sock_fd s) (sockaddr_in_bytes sa) 16) st1 \<and>
      map sqe_prep (sqes (trace st1)) = [Prep_connect (sock_fd s) (sockaddr_in_bytes sa) 16] \<and>
      callbacks (trace st1) = []"
    using start_runs[OF env room init s t] ..
  then have o: "\<not> connection_has_been_closed st1" by (simp add: connection_has_been_closed_def)
  from c refused_start[OF k _ o, of "s_base s"] obtain st2 where
    2: "idle st2" "poll_loop env (s_base s) elapsed st1 = poll_loop env (s_base s) elapsed st2 \<or>
      (\<exists>tr. elapsed tr) \<and> poll_loop env (s_base s) elapsed st1 = Some (Inl Assertion_failed)"
    by blast
  have run: "do_http_ping env senv elapsed junk ping_addr = poll_loop env (s_base s) elapsed st1"
    using c by (simp add: do_http_ping_def)
  have "do_http_ping env senv elapsed junk ping_addr = None" if "\<forall>tr. \<not> elapsed tr"
    using 2 that idle_never_returns[OF k that] run by auto
  moreover have "do_http_ping env senv elapsed junk ping_addr = Some (Inl Assertion_failed)"
    if "\<forall>tr. \<exists>n. elapsed (tr @ replicate n Ev_no_cqe)"
  proof -
    from that obtain n where "elapsed (trace st2 @ replicate n Ev_no_cqe)" by blast
    with idle_times_out[OF k 2(1), of elapsed n] 2(2) show ?thesis by (auto simp: run)
  qed
  ultimately show ?thesis by blast
qed

text \<open>A kernel that refuses in order; the time is up after a number of events.\<close>

definition refusing_env :: env where
  "refusing_env = fifo_env\<lparr>e_peek_cqe := (\<lambda>tr. map_prod id (\<lambda>c. c\<lparr>cqe_res := - 111\<rparr>) (e_peek_cqe fifo_env tr))\<rparr>"

lemma refusing_env_simps [simp]:
  "e_queue_init refusing_env = e_queue_init quiet_env" "e_probe refusing_env = e_probe quiet_env"
  "e_get_sqe refusing_env = e_get_sqe quiet_env" "e_junk refusing_env = e_junk quiet_env"
  "e_peek_cqe refusing_env tr = map_prod id (\<lambda>c. c\<lparr>cqe_res := - 111\<rparr>) (e_peek_cqe fifo_env tr)"
  by (simp_all add: refusing_env_def)

lemma refusing_env_refuses: "refusing_kernel refusing_env" "env_ok refusing_env"
proof -
  have "kernel_ok refusing_env"
    using fifo_kernel_ok by (auto simp: kernel_ok_def map_prod_def split: prod.splits)
  moreover have "single_shot refusing_env" using fifo_single_shot by (simp add: single_shot_def ends_request_def)
  moreover have "if in_flight tr = {#} then fst (e_peek_cqe refusing_env tr) = - EAGAIN
      else \<exists>n. answers_after refusing_env tr n" for tr
  proof (cases "fifo_pending tr")
    case Nil
    then show ?thesis using mset_fifo_pending[of tr] by (simp add: fifo_env_def)
  next
    case (Cons i rest)
    moreover from this have "in_flight tr \<noteq> {#}" using mset_fifo_pending[of tr] by auto
    ultimately show ?thesis by (auto simp: answers_after_def fifo_env_def intro!: exI[of _ 0])
  qed
  moreover have "cqe_res (snd (e_peek_cqe refusing_env tr)) = - 111" for tr by simp
  then have "cqe_res (snd (e_peek_cqe refusing_env tr)) < 0 \<and> cqe_res (snd (e_peek_cqe refusing_env tr)) \<noteq> - ENOBUFS" for tr
    by (simp add: errno_defs)
  moreover have "queue_has_room refusing_env" by (simp add: queue_has_room_def)
  ultimately show "refusing_kernel refusing_env" unfolding refusing_kernel_def by blast
  show "env_ok refusing_env" by (simp add: env_ok_def)
qed

theorem refused_ping_times_out_witness:
  "do_http_ping refusing_env sock_env_ex (\<lambda>tr. 1000 < length tr)
     \<lparr>ring_addr = 0, ring_entries = 0, bgid = 0, reg_flags = 0\<rparr> example_target = Some (Inl Assertion_failed)"
proof -
  let ?junk = "\<lparr>ring_addr = 0, ring_entries = 0, bgid = 0, reg_flags = 0\<rparr>"
  have "\<exists>st0 r. IOUring_init refusing_env (IOUringInterface_create_impl ?junk) = Inr (st0, r)"
    by (simp add: IOUring_init_def init_ring_def probe_features_quiet split: prod.split)
  then obtain st0 r where i: "IOUring_init refusing_env (IOUringInterface_create_impl ?junk) = Inr (st0, r)" by blast
  obtain s where s: "create_impl sock_env_ex IPV4_TCP UNENCRYPTED_WEB_PORT UNICAST_CLIENT_SOCKET = Inr s"
    by (auto simp: socket_creation_aux Let_def creatable_def creation_calls_def sock_env_ex_def)
  obtain sa where t: "m_in4 example_target = Some sa"
    by (simp add: example_target_def IPAddress_of_sockaddr_in_def)
  have "\<exists>n. 1000 < length (tr @ replicate n Ev_no_cqe)" for tr :: "event list"
    by (rule exI[of _ 1001]) simp
  with refused_ping_times_out[OF refusing_env_refuses(2,1) i s t, of "\<lambda>tr. 1000 < length tr"] show ?thesis by simp
qed

end
