(* ===== verification/EchoServer.thy ===== *)
theory EchoServer
  imports NewRequests Progress SocketImpl Adapter
begin

text \<open>
  The example program \<^verbatim>\<open>tests/echo_server.cpp\<close>: a server that accepts connections and
  receives on each of them, until a flag is set that nothing sets.  Its two lambda
  expressions are functions that the ring runs.
\<close>

section \<open>The program\<close>

definition on_accept :: nat where "on_accept = 1"
definition on_message :: nat where "on_message = 2"

lemmas server_functions = on_accept_def on_message_def

definition server_new_connection :: "env \<Rightarrow> int \<Rightarrow> IPAddress \<Rightarrow> uring \<Rightarrow> uring res" where
  "server_new_connection env new_fd address st =
     bindE (create_impl_of_accept new_fd address) (\<lambda>socket.
     bindE (submit_recv env (s_base socket) (Some on_message) st) (\<lambda>(_, st). Inr st))"

definition server_accepted :: "env \<Rightarrow> int \<Rightarrow> IPAddress \<Rightarrow> uring \<Rightarrow> (uring \<times> ReceivePostAction) res" where
  "server_accepted env new_fd address st =
     bindE (assertE (new_fd \<noteq> 0)) (\<lambda>_.
     bindE (server_new_connection env new_fd address st) (\<lambda>st. Inr (st, NONE)))"

definition server_received :: "uring \<Rightarrow> (uring \<times> ReceivePostAction) res" where
  "server_received st = Inr (st, RE_SUBMIT)"

definition server_function :: "env \<Rightarrow> uring invoker" where
  "server_function env f x st0 =
     (let st = log_ev (Ev_callback f x) st0 in
      case x of
        AcceptResult fd address \<Rightarrow>
          if f = on_accept then server_accepted env fd address st else Inl Undefined_behaviour
      | Received msg \<Rightarrow> if f = on_message then server_received st else Inl Undefined_behaviour
      | ConnectResult status address \<Rightarrow> Inl Undefined_behaviour
      | SendResult status \<Rightarrow> Inl Undefined_behaviour
      | CloseResult status \<Rightarrow> Inl Undefined_behaviour)"

text \<open>The flag of the loop, which no function of the program writes.\<close>

definition should_quit :: bool where "should_quit = False"

partial_function (option) serve_loop :: "env \<Rightarrow> uring \<Rightarrow> uring res option" where
  "serve_loop env st =
     (if should_quit then Some (Inr st)
      else case poll_completion_queues env (server_function env) st of
             Inl e \<Rightarrow> Some (Inl e)
           | Inr (st, _) \<Rightarrow> serve_loop env st)"

text \<open>Everything before the loop.\<close>

definition start_server :: "env \<Rightarrow> sock_env \<Rightarrow> buf_reg \<Rightarrow> uring res" where
  "start_server env senv junk =
     bindE (create_impl senv IPV4_TCP LOCAL_WEB_PORT SERVER_STREAM_SOCKET) (\<lambda>socket.
     let io = IOUringInterface_create_impl junk in
     bindE (IOUring_init env io) (\<lambda>(io, _).
     bindE (submit_accept env (s_base socket) (Some on_accept) io) (\<lambda>(_, io). Inr io)))"

definition do_echo_server :: "env \<Rightarrow> sock_env \<Rightarrow> buf_reg \<Rightarrow> uring res option" where
  "do_echo_server env senv junk =
     (case start_server env senv junk of
        Inl e \<Rightarrow> Some (Inl e)
      | Inr io \<Rightarrow> serve_loop env io)"

text \<open>\<^verbatim>\<open>main\<close>: the result that ends it before the server is started, if there is one.\<close>

fun server_arguments :: "string list \<Rightarrow> int option" where
  "server_arguments [] = None"
| "server_arguments (arg # args) =
     (if arg = ''--no-tune'' then server_arguments args
      else if arg = ''--help'' then Some 1
      else server_arguments args)"

definition server_main :: "env \<Rightarrow> sock_env \<Rightarrow> buf_reg \<Rightarrow> string list \<Rightarrow> int res option" where
  "server_main env senv junk argv =
     (case server_arguments argv of
        Some code \<Rightarrow> Some (Inr code)
      | None \<Rightarrow> map_option (\<lambda>r. bindE r (\<lambda>_. Inr 0)) (do_echo_server env senv junk))"

lemma server_arguments_eq: "server_arguments argv = (if ''--help'' \<in> set argv then Some 1 else None)"
  by (induction argv) auto

text \<open>The functions use the interface as a careful client does.\<close>

lemma server_careful: "careful_runner env (server_function env)"
proof unfold_locales
  fix f x st st' act
  assume run: "server_function env f x st = Inr (st', act)"
  have "\<exists>cs. calls_ok env (log_ev (Ev_callback f x) st) cs \<and>
      foldE (api_step env) (log_ev (Ev_callback f x) st) cs = Inr st'"
  proof (cases x)
    case (AcceptResult fd address)
    with run have "\<exists>(s :: socket_impl) a. submit_recv env (s_base s) (Some on_message) (log_ev (Ev_callback f x) st) = Inr (a, st')"
      by (auto simp: server_function_def server_accepted_def server_new_connection_def Let_def split: if_splits)
    then obtain s :: socket_impl and a where "submit_recv env (s_base s) (Some on_message) (log_ev (Ev_callback f x) st) = Inr (a, st')"
      by blast
    then show ?thesis
      by (intro exI[of _ "[Api_submit_recv (s_base s) (Some on_message)]"]) (simp add: Interface.call_ok_def)
  qed (use run in \<open>auto simp: server_function_def server_received_def Let_def split: if_splits intro!: exI[of _ "[]"]\<close>)
  then show "\<exists>cs. foldE (api_step env) (log_ev (Ev_callback f x) st) cs = Inr st'"
    "\<exists>cs. calls_ok env (log_ev (Ev_callback f x) st) cs \<and>
      foldE (api_step env) (log_ev (Ev_callback f x) st) cs = Inr st'" by blast+
qed

interpretation server: careful_runner env "server_function env" for env
  by (rule server_careful)

section \<open>The invariant\<close>

text \<open>
  What the server keeps: the request with number 0 accepts on the listening socket; every
  other live item receives on an accepted connection; the descriptors on which it receives
  are those it has accepted, each as often as it was accepted; the last entry for a number
  is an accept or a receive as its item is.
\<close>

fun is_accept :: "prep \<Rightarrow> bool" where
  "is_accept (Prep_accept fd len flags) = True"
| "is_accept p = False"

definition request_prep :: "event list \<Rightarrow> nat \<Rightarrow> prep" where
  "request_prep tr i = sqe_prep (last (List.filter (\<lambda>e. sqe_user_data e = i) (sqes tr)))"

definition accepted :: "event list \<Rightarrow> int multiset" where
  "accepted tr = mset (List.map_filter
     (\<lambda>(f, x). case x of AcceptResult fd address \<Rightarrow> Some fd | _ \<Rightarrow> None) (callbacks tr))"

definition item_fd :: "uring \<Rightarrow> nat \<Rightarrow> int" where
  "item_fd st i = get_fd (m_socket (deref (m_pool st) (the (lookup (m_pool st) i))))"

definition connections :: "uring \<Rightarrow> int multiset" where
  "connections st = image_mset (item_fd st) (mset_set (live (m_pool st) - {0}))"

definition serving :: "isocket \<Rightarrow> uring \<Rightarrow> bool" where
  "serving listener st \<longleftrightarrow> pool_inv (m_pool st) \<and> m_initialized st \<and>
     request_of st 0 = Some (ACCEPT, Accept_cb (Some on_accept)) \<and> item_fd st 0 = get_fd listener \<and>
     (\<forall>i a. lookup (m_pool st) i = Some a \<and> i \<noteq> 0 \<longrightarrow>
        request_of st i = Some (RECV, Recv_cb (Some on_message)) \<and> is_stream (m_socket (deref (m_pool st) a))) \<and>
     (\<forall>i \<in> live (m_pool st). is_accept (request_prep (trace st) i) \<longleftrightarrow> i = 0) \<and>
     connections st = accepted (trace st)"

lemma servingD:
  assumes "serving listener st"
  shows "pool_inv (m_pool st)" "m_initialized st"
    "request_of st 0 = Some (ACCEPT, Accept_cb (Some on_accept))" "item_fd st 0 = get_fd listener"
    "lookup (m_pool st) i = Some a \<Longrightarrow> i \<noteq> 0 \<Longrightarrow>
       request_of st i = Some (RECV, Recv_cb (Some on_message)) \<and> is_stream (m_socket (deref (m_pool st) a))"
    "i \<in> live (m_pool st) \<Longrightarrow> is_accept (request_prep (trace st) i) \<longleftrightarrow> i = 0"
    "connections st = accepted (trace st)"
  using assms unfolding serving_def by blast+

lemma request_of_live:
  "lookup (m_pool st) i = Some a \<Longrightarrow> request_of st i = Some (t, cb) \<Longrightarrow>
     m_work_type (deref (m_pool st) a) = t \<and> m_callback (deref (m_pool st) a) = cb"
  by (auto simp: request_of_def split: if_splits)

lemma request_prep_append:
  assumes "sqes tr' = sqes tr @ es"
  shows "request_prep tr' i = request_prep tr i \<or> (\<exists>e \<in> set es. sqe_user_data e = i \<and> request_prep tr' i = sqe_prep e)"
proof (cases "List.filter (\<lambda>e. sqe_user_data e = i) es = []")
  case True
  then show ?thesis using assms by (simp add: request_prep_def)
next
  case False
  let ?e = "last (List.filter (\<lambda>e. sqe_user_data e = i) es)"
  have "?e \<in> set (List.filter (\<lambda>e. sqe_user_data e = i) es)" using False by (rule last_in_set)
  moreover have "request_prep tr' i = sqe_prep ?e"
    unfolding request_prep_def assms filter_append last_appendR[OF False] ..
  ultimately show ?thesis by (intro disjI2 bexI[of _ ?e]) simp_all
qed

lemma accepted_simps [simp]:
  "accepted (tr @ tr') = accepted tr + accepted tr'"
  "accepted [] = {#}"
  "accepted [Ev_callback f (AcceptResult fd address)] = {#fd#}"
  "accepted [Ev_callback f (Received m)] = {#}"
  by (simp_all add: accepted_def List.map_filter_def)

lemma accepted_cong: "callbacks tr' = callbacks tr \<Longrightarrow> accepted tr' = accepted tr"
  by (simp add: accepted_def)

text \<open>Steps that add no item.\<close>

lemma serving_frame:
  assumes s: "serving listener st" and p: "pool_inv (m_pool st')" and m: "m_initialized st'"
    and l: "lookup (m_pool st') = lookup (m_pool st)" and q: "request_of st' = request_of st"
    and k: "\<And>i a. lookup (m_pool st) i = Some a \<Longrightarrow> m_socket (deref (m_pool st') a) = m_socket (deref (m_pool st) a)"
    and e: "sqes (trace st') = sqes (trace st) @ es" "\<forall>e \<in> set es. is_accept (sqe_prep e) \<longleftrightarrow> sqe_user_data e = 0"
    and c: "accepted (trace st') = accepted (trace st)"
  shows "serving listener st'"
proof -
  have lv: "live (m_pool st') = live (m_pool st)" by (simp add: live_def l)
  have fd: "item_fd st' i = item_fd st i" if "i \<in> live (m_pool st)" for i
    using that k by (auto simp: item_fd_def live_def l)
  have 0: "0 \<in> live (m_pool st)" using servingD(3)[OF s] by (auto simp: request_of_def live_def split: option.splits)
  have "connections st' = connections st"
    unfolding connections_def lv by (rule image_mset_cong) (simp add: fd)
  then have co: "connections st' = accepted (trace st')" using servingD(7)[OF s] c by simp
  have pr: "is_accept (request_prep (trace st') i) \<longleftrightarrow> i = 0" if "i \<in> live (m_pool st)" for i
    using request_prep_append[OF e(1), of i] e(2) servingD(6)[OF s that] by metis
  have re: "\<forall>i a. lookup (m_pool st') i = Some a \<and> i \<noteq> 0 \<longrightarrow>
      request_of st' i = Some (RECV, Recv_cb (Some on_message)) \<and> is_stream (m_socket (deref (m_pool st') a))"
    using servingD(5)[OF s] k unfolding l q by metis
  have ac: "request_of st' 0 = Some (ACCEPT, Accept_cb (Some on_accept))" "item_fd st' 0 = get_fd listener"
    using servingD(3,4)[OF s] fd[OF 0] q by simp_all
  show ?thesis
    unfolding serving_def lv by (intro conjI ballI p m ac re pr co)
qed

lemma serving_log:
  assumes "serving listener st" and "sqes [e] = []" and "accepted [e] = {#}"
  shows "serving listener (log_ev e st)"
  by (rule serving_frame[OF assms(1), where es = "[]"]) (use assms servingD[OF assms(1)] in auto)

text \<open>An item that the kernel is handed again.\<close>

lemma serving_resubmit:
  assumes s: "serving listener st" and room: "queue_has_room env" and l: "lookup (m_pool st) i = Some a"
  shows "\<exists>st'. submit_item_at (submit env (buffer_size st)) a st = Inr st' \<and> serving listener st'"
proof -
  let ?wi = "deref (m_pool st) a"
  note D = servingD[OF s]
  note a = pool_invD[OF D(1) l]
  have "i = 0 \<and> m_work_type ?wi = ACCEPT \<or> i \<noteq> 0 \<and> m_work_type ?wi = RECV \<and> is_stream (m_socket ?wi)"
    using D(3) D(5)[OF l] request_of_live[OF l] by (cases "i = 0") auto
  then obtain wi' p fl where pr: "prepare (buffer_size st) ?wi = Inr (wi', p, fl)" and ac: "is_accept p \<longleftrightarrow> i = 0"
    and sk: "m_socket wi' = m_socket ?wi"
    by (auto simp: prepare_def Let_def item_is_stream_def)
  from submit_runs[OF room pr, of "trace st"] obtain tr' where
    "submit env (buffer_size st) ?wi (trace st) = Inr (wi', tr')" by blast
  with submit_item_at_runs[of a st "submit env (buffer_size st)"] a(1) obtain st' where
    r: "submit_item_at (submit env (buffer_size st)) a st = Inr st'" by blast
  note R = resubmit_frame[OF D(1) l r]
  from R obtain wi2 p2 fl2 where pr2: "prepare (buffer_size st) ?wi = Inr (wi2, p2, fl2)" and
    q: "sqes (trace st') = sqes (trace st) @ [\<lparr>sqe_user_data = i, sqe_prep = p2, sqe_flags = fl2, sqe_buf_group = 0\<rparr>]"
    by blast
  have "serving listener st'"
  proof (rule serving_frame[OF s])
    show "pool_inv (m_pool st')" "lookup (m_pool st') = lookup (m_pool st)" "request_of st' = request_of st"
      using R by blast+
    have f: "run_frame st st'" using R by blast
    then have "st' = st\<lparr>m_pool := m_pool st', trace := trace st'\<rparr>" by (simp add: run_frame_def)
    then have "m_initialized st' = m_initialized st" by (cases st, cases st') simp
    then show "m_initialized st'" using D(2) by simp
    show "m_socket (deref (m_pool st') b) = m_socket (deref (m_pool st) b)" if "lookup (m_pool st) j = Some b" for j b
      using f pool_invD(1)[OF D(1) that] by (simp add: run_frame_def pool_grows_def)
    show "sqes (trace st') = sqes (trace st) @
        [\<lparr>sqe_user_data = i, sqe_prep = p2, sqe_flags = fl2, sqe_buf_group = 0\<rparr>]" by (rule q)
    show "\<forall>e \<in> set [\<lparr>sqe_user_data = i, sqe_prep = p2, sqe_flags = fl2, sqe_buf_group = 0\<rparr>].
        is_accept (sqe_prep e) \<longleftrightarrow> sqe_user_data e = 0"
      using pr pr2 ac by simp
    show "accepted (trace st') = accepted (trace st)" by (rule accepted_cong) (use R in blast)
  qed
  with r show ?thesis by blast
qed

text \<open>A new item that receives on a connection just accepted.\<close>

lemma serving_new_connection:
  assumes s: "serving listener st" and new: "new_request socket RECV (Recv_cb (Some on_message)) p st1 st'"
    and one: "starts_one st1 st'" and st1: "m_pool st1 = m_pool st" "m_initialized st1" "sqes (trace st1) = sqes (trace st)"
    and c: "accepted (trace st1) = add_mset (get_fd socket) (accepted (trace st))"
    and p: "\<not> is_accept p" and k: "is_stream socket"
  shows "serving listener st'"
proof -
  note D = servingD[OF s]
  from new obtain j b e where ok: "api_ok st1 st'" and
    n: "lookup (m_pool st) j = None" "lookup (m_pool st') = (lookup (m_pool st))(j \<mapsto> b)"
      "m_work_type (deref (m_pool st') b) = RECV" "m_callback (deref (m_pool st') b) = Recv_cb (Some on_message)"
      "m_socket (deref (m_pool st') b) = socket" and
    q: "sqes (trace st') = sqes (trace st) @ [e]" "sqe_user_data e = j" "sqe_prep e = p"
    unfolding new_request_def st1 by blast
  have 0: "0 \<in> live (m_pool st)" using D(3) by (auto simp: request_of_def live_def split: option.splits)
  have "j \<notin> live (m_pool st)" using n(1) by (simp add: live_def)
  then have j: "j \<noteq> 0" "j \<notin> live (m_pool st)" using 0 by metis+
  have lv: "live (m_pool st') = insert j (live (m_pool st))" by (auto simp: live_def n(2))
  have qj: "request_of st' j = Some (RECV, Recv_cb (Some on_message))"
    using n(2-4) by (simp add: request_of_def)
  from one obtain i r where i: "request_of st' = (request_of st)(i \<mapsto> r)" "request_of st i = None"
    unfolding starts_one_def request_of_cong[OF st1(1)] by blast
  have "request_of st j = None" using n(1) by (simp add: request_of_def)
  with i qj have q': "request_of st' = (request_of st)(j \<mapsto> (RECV, Recv_cb (Some on_message)))"
    by (cases "i = j") auto
  have grows: "pool_grows (m_pool st) (m_pool st')" using ok st1(1) by (simp add: api_ok_def api_frame_def)
  have sk: "m_socket (deref (m_pool st') a) = m_socket (deref (m_pool st) a)" if "lookup (m_pool st) h = Some a" for h a
    using grows pool_invD(1)[OF D(1) that] by (simp add: pool_grows_def)
  have fd: "item_fd st' h = item_fd st h" if "h \<in> live (m_pool st)" for h
    using that sk j by (auto simp: item_fd_def live_def n(2))
  have fdj: "item_fd st' j = get_fd socket" using n(2,5) by (simp add: item_fd_def)
  have "live (m_pool st') - {0} = insert j (live (m_pool st) - {0})" using lv j by blast
  then have "connections st' = add_mset (get_fd socket) (image_mset (item_fd st') (mset_set (live (m_pool st) - {0})))"
    using j fdj by (simp add: connections_def)
  moreover have "image_mset (item_fd st') (mset_set (live (m_pool st) - {0})) = connections st"
    unfolding connections_def by (rule image_mset_cong) (simp add: fd)
  moreover have "accepted (trace st') = accepted (trace st1)"
    by (rule accepted_cong) (use ok in \<open>simp add: api_ok_def\<close>)
  ultimately have co: "connections st' = accepted (trace st')" using c D(7) by simp
  have pr: "is_accept (request_prep (trace st') h) \<longleftrightarrow> h = 0" if "h \<in> live (m_pool st')" for h
  proof (cases "h = j")
    case True
    then show ?thesis using q j p by (simp add: request_prep_def)
  next
    case False
    then have "request_prep (trace st') h = request_prep (trace st) h" using q by (simp add: request_prep_def)
    then show ?thesis using D(6) that lv False by auto
  qed
  have re: "\<forall>h a. lookup (m_pool st') h = Some a \<and> h \<noteq> 0 \<longrightarrow>
      request_of st' h = Some (RECV, Recv_cb (Some on_message)) \<and> is_stream (m_socket (deref (m_pool st') a))"
    using D(5) sk n(2,5) k by (auto simp: q')
  have ac: "request_of st' 0 = Some (ACCEPT, Accept_cb (Some on_accept))" "item_fd st' 0 = get_fd listener"
    using D(3,4) fd[OF 0] q' j by simp_all
  have pi: "pool_inv (m_pool st')" and "m_initialized st'"
    using ok st1(2) by (cases st1, cases st', auto simp: api_ok_def api_frame_def)+
  then show ?thesis
    unfolding serving_def by (intro conjI ballI ac re pr co)
qed

section \<open>One poll\<close>

lemma serving_accept_written:
  assumes s: "serving listener st" and l: "lookup (m_pool st) i = Some a"
  shows "serving listener (accept_written env a st)"
proof -
  note D = servingD[OF s]
  have pre: "pre_step a st (accept_written env a st)"
    by (auto simp: pre_step_def accept_written_def split_beta)
  note P = pre_step_ok[OF D(1) pool_invD(1)[OF D(1) l] pre]
  let ?f = "\<lambda>wi. wi\<lparr>m_buffer_for_uring := memcpy_at 0 (take sizeof_sockaddr_storage (fst (e_accept_memory env (trace st))))
      (m_buffer_for_uring wi), m_accept_sock_len := snd (e_accept_memory env (trace st))\<rparr>"
  have w: "accept_written env a st = update_item a ?f st"
    by (simp add: accept_written_def split_beta)
  have d: "same_request (deref (m_pool st) b) (deref (m_pool (accept_written env a st)) b)" for b
    using pool_invD(1)[OF D(1) l] by (cases "b = a") (simp_all add: w update_item_def same_request_def)
  show ?thesis
  proof (rule serving_frame[OF s, where es = "[]"])
    show "lookup (m_pool (accept_written env a st)) = lookup (m_pool st)" by (simp add: w update_item_def)
    then show "request_of (accept_written env a st) = request_of st"
      using d by (simp add: request_of_def same_request_def fun_eq_iff split: option.split)
    show "m_socket (deref (m_pool (accept_written env a st)) b) = m_socket (deref (m_pool st) b)" for b
      using d by (simp add: same_request_def)
  qed (use P D(2) in \<open>simp_all add: w update_item_def\<close>)
qed

lemma server_accepts:
  assumes s: "serving listener st" and env: "env_ok env" "queue_has_room env"
    and l: "lookup (m_pool st) 0 = Some a" and r: "cqe_res c \<noteq> 0"
    and len: "m_accept_sock_len (deref (m_pool st) a) \<in> {sizeof_sockaddr_in, sizeof_sockaddr_in6}"
  shows "\<exists>st'. call_accept_callback (server_function env) a c st = Inr st' \<and> serving listener st' \<and>
     lookup (m_pool st') 0 = Some a"
proof (cases "cqe_res c < 0")
  case True
  then show ?thesis using s l by (simp add: call_accept_callback_def)
next
  case False
  note D = servingD[OF s]
  let ?wi = "deref (m_pool st) a" and ?fd = "cqe_res c"
  from len obtain ad where ad: "IPAddress_of_storage (m_buffer_for_uring ?wi) (m_accept_sock_len ?wi) = Inr ad"
    by (auto simp: IPAddress_of_storage_def assertE_def)
  then have ty: "accept_get_type ad = IPV4_TCP \<or> accept_get_type ad = IPV6_TCP"
    using accepted_family_is_swapped[of "m_accept_sock_len ?wi" "m_buffer_for_uring ?wi"] by auto
  let ?x = "AcceptResult ?fd ad"
  let ?st1 = "log_ev (Ev_callback on_accept ?x) st"
  let ?sk = "ISocket_new (accept_get_type ad) (accept_get_port ad) SERVER_STREAM_SOCKET ?fd"
  have cr: "create_impl_of_accept ?fd ad = Inr \<lparr>s_base = ?sk, m_mreq = ip_mreq_zero, s_calls = []\<rparr>"
    using False r by (simp add: factory_defs SocketImpl_of_accept_def sock_fd_def ISocket_new_def get_fd_def)
  have k: "is_stream ?sk" using ty by (auto simp: is_stream_def ISocket_new_def)
  have fd: "get_fd ?sk = ?fd" by (simp add: ISocket_new_def get_fd_def)
  have inv1: "pool_inv (m_pool ?st1)" "m_initialized ?st1" using D(1,2) by simp_all
  from recv_runs[OF env inv1 k, of "Some on_message"] obtain b st' where
    rv: "submit_recv env ?sk (Some on_message) ?st1 = Inr (b, st')" and
    new: "new_request ?sk RECV (Recv_cb (Some on_message)) (Prep_recv (get_fd ?sk) (buffer_size ?st1) 0) ?st1 st'"
    by blast
  have one: "starts_one ?st1 st'" using submit_new_ok(3)[OF env(1) inv1(1) rv] by blast
  have "serving listener st'"
    by (rule serving_new_connection[OF s new one _ _ _ _ _ k]) (use inv1 in \<open>simp_all add: fd\<close>)
  moreover have "item_call_accept_callback (server_function env) ?wi ?fd ad st = Inr (st', NONE)"
    using request_of_live[OF l D(3)] cr rv r
    by (simp add: item_call_accept_callback_def call_func_def server_function_def server_accepted_def
        server_new_connection_def)
  moreover have "lookup (m_pool st') 0 = Some a"
    using new l unfolding new_request_def api_ok_def api_frame_def pool_grows_def by simp
  ultimately show ?thesis using False ad by (simp add: call_accept_callback_def)
qed

lemma server_receives:
  assumes s: "serving listener st" and l: "lookup (m_pool st) i = Some a" "i \<noteq> 0"
    and r: "0 \<le> cqe_res c \<or> cqe_res c = - ECONNRESET"
  shows "\<exists>st'. call_recv_callback env (server_function env) a c st = Inr (st', RE_SUBMIT) \<and> serving listener st' \<and>
     lookup (m_pool st') i = Some a"
proof (cases "0 \<le> cqe_res c")
  case False
  then show ?thesis using s l r by (auto simp: call_recv_callback_def errno_defs)
next
  case True
  note D = servingD[OF s]
  let ?idx = "unat (drop_bit 16 (cqe_flags c))"
  let ?m = "\<lparr>rm_data = get_buffer st ?idx, rm_size = nat (cqe_res c), rm_source_address = IPAddress_default\<rparr>"
  let ?st1 = "log_ev (Ev_callback on_message (Received ?m)) st"
  have q: "m_work_type (deref (m_pool st) a) = RECV" "m_callback (deref (m_pool st) a) = Recv_cb (Some on_message)"
    "is_stream (m_socket (deref (m_pool st) a))"
    using D(5)[OF l] request_of_live[OF l(1)] by auto
  have "call_recv_callback env (server_function env) a c st = Inr (recycle_buffer ?idx ?st1, RE_SUBMIT)"
    using True q
    by (simp add: call_recv_callback_def call_recv_handler_stream_def item_is_stream_def item_call_recv_callback_def
        call_func_def server_function_def server_received_def Let_def)
  moreover have 1: "serving listener ?st1" by (rule serving_log[OF s]) simp_all
  moreover have "serving listener (recycle_buffer ?idx ?st1)"
  proof (rule serving_frame[OF 1, where es = "[]"])
    show "request_of (recycle_buffer ?idx ?st1) = request_of ?st1" by (rule request_of_cong) simp
    show "accepted (trace (recycle_buffer ?idx ?st1)) = accepted (trace ?st1)" by (rule accepted_cong) simp
    show "m_initialized (recycle_buffer ?idx ?st1)"
      using servingD(2)[OF s] by (simp add: recycle_buffer_def add_buffer_def log_ev_def)
  qed (use servingD(1)[OF s] in simp_all)
  ultimately show ?thesis using l by simp
qed

text \<open>
  A kernel that serves the program: the queue has room, the listening socket is of IPv4 or
  IPv6, and a receive ends with data, with the end of the stream or because the peer has reset
  the connection.  An accept may fail with any error but \<^verbatim>\<open>-ENOBUFS\<close>, after which the code
  accepts no more, and does not give the descriptor 0, on which the constructor of the socket stops.
\<close>

definition web_kernel :: "env \<Rightarrow> bool" where
  "web_kernel env \<longleftrightarrow> kernel_ok env \<and> single_shot env \<and> queue_has_room env \<and>
     (\<forall>tr. fst (e_peek_cqe env tr) \<in> {0, - EAGAIN} \<and> cqe_res (snd (e_peek_cqe env tr)) \<noteq> - ENOBUFS \<and>
        snd (e_accept_memory env tr) \<in> {sizeof_sockaddr_in, sizeof_sockaddr_in6}) \<and>
     (\<forall>tr c. e_peek_cqe env tr = (0, c) \<longrightarrow>
        (if is_accept (request_prep tr (cqe_user_data c)) then cqe_res c \<noteq> 0
         else 0 \<le> cqe_res c \<or> cqe_res c = - ECONNRESET))"

lemma server_completion:
  assumes k: "web_kernel env" and env: "env_ok env" and s: "serving listener st"
    and l: "lookup (m_pool st) (cqe_user_data c) = Some a" and nb: "cqe_res c \<noteq> - ENOBUFS"
    and r: "if cqe_user_data c = 0 then cqe_res c \<noteq> 0 else 0 \<le> cqe_res c \<or> cqe_res c = - ECONNRESET"
  shows "\<exists>st'. call_callback_and_free_work_item_id env (server_function env) c st = Inr st' \<and> serving listener st'"
proof -
  let ?i = "cqe_user_data c" and ?cbs = "server_function env"
  note D = servingD[OF s]
  have room: "queue_has_room env" using k by (simp add: web_kernel_def)
  have again: "\<exists>st2. submit_item_at (submit env (buffer_size st1)) a st1 = Inr st2 \<and> serving listener st2"
    if "serving listener st1" "lookup (m_pool st1) ?i = Some a" for st1
    using serving_resubmit[OF that(1) room that(2)] .
  show ?thesis
  proof (cases "?i = 0")
    case True
    let ?w = "accept_written env a st"
    have w: "serving listener ?w" by (rule serving_accept_written[OF s l])
    have lw: "lookup (m_pool ?w) 0 = Some a" using l True by (simp add: accept_written_def update_item_def split_beta)
    have "m_accept_sock_len (deref (m_pool ?w) a) = snd (e_accept_memory env (trace st))"
      using pool_invD(1)[OF D(1) l] by (simp add: accept_written_def update_item_def split_beta)
    then have len: "m_accept_sock_len (deref (m_pool ?w) a) \<in> {sizeof_sockaddr_in, sizeof_sockaddr_in6}"
      using k by (simp add: web_kernel_def)
    have t: "m_work_type (deref (m_pool st) a) = ACCEPT"
      using request_of_live[of st 0 a] l D(3) True by simp
    have "cqe_res c \<noteq> 0" using r True by simp
    from server_accepts[OF w env room lw this len] obtain st1 where
      1: "call_accept_callback ?cbs a c ?w = Inr st1" "serving listener st1" "lookup (m_pool st1) 0 = Some a" by blast
    with again[of st1] True obtain st2 where
      "submit_item_at (submit env (buffer_size st1)) a st1 = Inr st2" "serving listener st2" by auto
    then show ?thesis
      using 1 t nb completion_of_live[OF D(1) l] by (simp add: call_callback_and_free_work_item_id_def)
  next
    case False
    with r have "0 \<le> cqe_res c \<or> cqe_res c = - ECONNRESET" by simp
    from server_receives[OF s l False this] obtain st1 where
      1: "call_recv_callback env ?cbs a c st = Inr (st1, RE_SUBMIT)" "serving listener st1"
        "lookup (m_pool st1) ?i = Some a" by blast
    from again[OF 1(2,3)] obtain st2 where
      "submit_item_at (submit env (buffer_size st1)) a st1 = Inr st2" "serving listener st2" by blast
    moreover have "m_work_type (deref (m_pool st) a) = RECV"
      using D(5)[OF l False] request_of_live[OF l] by blast
    ultimately show ?thesis
      using 1(1) recv_completion_eq[OF D(1) l nb] by (simp add: after_receive_def)
  qed
qed

lemma server_polls:
  assumes k: "web_kernel env" and env: "env_ok env"
    and s: "serving listener st" and f: "flight_inv {} st" "exact {} st"
  shows "\<exists>st'. poll_completion_queues env (server_function env) st = Inr (st', OK) \<and>
     serving listener st' \<and> flight_inv {} st' \<and> exact {} st'"
proof -
  let ?c = "snd (e_peek_cqe env (trace st))" and ?cbs = "server_function env"
  let ?i = "cqe_user_data ?c" and ?st = "log_ev (Ev_cqe ?c) st"
  have kk: "kernel_ok env" "single_shot env" using k by (simp_all add: web_kernel_def)
  have nb: "cqe_res ?c \<noteq> - ENOBUFS" using k by (simp add: web_kernel_def)
  have "\<exists>st'. poll_completion_queues env ?cbs st = Inr (st', OK) \<and> serving listener st'"
  proof (cases "fst (e_peek_cqe env (trace st)) = 0")
    case False
    with k have "fst (e_peek_cqe env (trace st)) = - EAGAIN" by (auto simp: web_kernel_def)
    then have "poll_completion_queues env ?cbs st = Inr (log_ev Ev_no_cqe st, OK)"
      by (simp add: poll_completion_queues_def split_beta errno_defs)
    moreover have "serving listener (log_ev Ev_no_cqe st)"
      by (rule serving_log[OF s]) (simp_all add: accepted_def List.map_filter_def)
    ultimately show ?thesis using False by simp
  next
    case True
    then have peek: "e_peek_cqe env (trace st) = (0, ?c)" by (simp add: prod_eq_iff)
    then have i: "?i \<in># in_flight (trace st)" using kk(1) unfolding kernel_ok_def by blast
    then have "request_of st ?i \<noteq> None"
      using take_completion[OF f(1) i kk(2)[unfolded single_shot_def, rule_format]] by blast
    then obtain a where l: "lookup (m_pool st) ?i = Some a" by (auto simp: request_of_def split: option.splits)
    then have "is_accept (request_prep (trace st) ?i) \<longleftrightarrow> ?i = 0"
      by (intro servingD(6)[OF s]) (simp add: live_def)
    moreover have "if is_accept (request_prep (trace st) ?i) then cqe_res ?c \<noteq> 0
         else 0 \<le> cqe_res ?c \<or> cqe_res ?c = - ECONNRESET"
      using k peek unfolding web_kernel_def by blast
    ultimately have r: "if ?i = 0 then cqe_res ?c \<noteq> 0 else 0 \<le> cqe_res ?c \<or> cqe_res ?c = - ECONNRESET"
      by simp
    have "serving listener ?st" by (rule serving_log[OF s]) (simp_all add: accepted_def List.map_filter_def)
    from server_completion[OF k env this _ nb r] l obtain st1 where
      "call_callback_and_free_work_item_id env ?cbs ?c ?st = Inr st1" "serving listener st1" by auto
    moreover from this(2) have "serving listener (log_ev (Ev_cq_advance 1) st1)"
      by (rule serving_log) (simp_all add: accepted_def List.map_filter_def)
    ultimately show ?thesis using poll_completion[OF peek, of ?cbs] by auto
  qed
  then obtain st' where p: "poll_completion_queues env ?cbs st = Inr (st', OK)" "serving listener st'" by blast
  have "flight_inv {} st' \<and> exact {} st'"
    using server.poll_flight[OF env kk f(1) p(1)] nb f(2) by blast
  with p show ?thesis by blast
qed

section \<open>The loop\<close>

definition server_steady :: "env \<Rightarrow> isocket \<Rightarrow> uring \<Rightarrow> bool" where
  "server_steady env listener st \<longleftrightarrow> web_kernel env \<and> env_ok env \<and>
     serving listener st \<and> flight_inv {} st \<and> exact {} st"

interpretation steady_server: steady_polling env "server_function env" "server_steady env listener"
  for env listener
  by unfold_locales (auto simp: server_steady_def dest!: server_polls)

lemma serve_loop_never_returns:
  assumes "server_steady env listener st"
  shows "serve_loop env st = None"
proof -
  have "\<not> server_steady env listener st" if "serve_loop env st = Some y" for y
  proof (rule serve_loop.raw_induct[OF _ that])
    fix f :: "env \<Rightarrow> uring \<Rightarrow> uring res option" and env st y
    assume IH: "\<And>env st y. f env st = Some y \<Longrightarrow> \<not> server_steady env listener st"
      and step: "(if should_quit then Some (Inr st)
        else case poll_completion_queues env (server_function env) st of
               Inl e \<Rightarrow> Some (Inl e) | Inr (st, _) \<Rightarrow> f env st) = Some y"
    show "\<not> server_steady env listener st"
    proof
      assume "server_steady env listener st"
      from steady_server.steady_poll[OF this] obtain st' where
        "poll_completion_queues env (server_function env) st = Inr (st', OK)" "server_steady env listener st'" by blast
      with IH step show False by (simp add: should_quit_def)
    qed
  qed
  with assms show ?thesis by (cases "serve_loop env st") auto
qed

text \<open>Up to the loop.\<close>

lemma server_starts:
  assumes env: "env_ok env" and k: "web_kernel env"
    and init: "IOUring_init env (IOUringInterface_create_impl junk) = Inr (st0, r)"
    and s: "create_impl senv IPV4_TCP LOCAL_WEB_PORT SERVER_STREAM_SOCKET = Inr s"
  shows "\<exists>st. start_server env senv junk = Inr st \<and> server_steady env (s_base s) st"
proof -
  have room: "queue_has_room env" and kk: "kernel_ok env" "single_shot env" using k by (simp_all add: web_kernel_def)
  have kind: "get_kind (s_base s) = SERVER_STREAM_SOCKET"
    using s[unfolded socket_creation_aux Let_def] by (simp add: get_kind_def ISocket_new_def)
  from init_silent[OF init] have 0: "m_pool st0 = WorkPool_new" "m_initialized st0"
    "sqes (trace st0) = []" "cqes (trace st0) = []" "callbacks (trace st0) = []"
    by (simp_all add: IOUringInterface_create_impl_def IOUring_create_def IOUring_new_def)
  then have p0: "pool_inv (m_pool st0)" by (simp add: pool_inv_new)
  from accept_runs[OF env room p0 0(2) kind, of "Some on_accept"] obtain a st where
    c: "submit_accept env (s_base s) (Some on_accept) st0 = Inr (a, st)" and
    n: "new_request (s_base s) ACCEPT (Accept_cb (Some on_accept)) (Prep_accept (get_fd (s_base s)) 0 0) st0 st"
    by blast
  have f0: "flight_inv {} st0 \<and> exact {} st0"
    using init unfolding IOUringInterface_create_impl_def IOUring_create_def by (rule init_flight)
  have "api_step env st0 (Api_submit_accept (s_base s) (Some on_accept)) = Inr st" using c by simp
  from api_step_flight[OF env _ _ this] f0 have f: "flight_inv {} st" "exact {} st"
    by (simp_all add: Interface.call_ok_def)
  have l0: "lookup (m_pool st0) = Map.empty" by (simp add: 0(1) lookup_def WorkPool_new_def fun_eq_iff)
  have "start_server env senv junk = Inr st" using s init c by (simp add: start_server_def)
  moreover have "serving (s_base s) st"
  proof -
    from n obtain j b e where ok: "api_ok st0 st" and l: "lookup (m_pool st) = [j \<mapsto> b]" and
      b: "m_work_type (deref (m_pool st) b) = ACCEPT" "m_callback (deref (m_pool st) b) = Accept_cb (Some on_accept)"
        "m_socket (deref (m_pool st) b) = s_base s" and
      q: "sqes (trace st) = [e]" "sqe_user_data e = j" "is_accept (sqe_prep e)"
      unfolding new_request_def l0 0(3) by auto
    have run: "with_pool (\<lambda>(p, n). bindE (internal_alloc_work_item (e_junk env (trace st0)) (s_base s) ''accept-job'' p)
        (\<lambda>(wi, p1). bindE (submit_at (submit_accept_item (submit env (buffer_size st0)) (Some on_accept)) wi (p1, n))
          (\<lambda>pn. Inr (wi, pn)))) st0 = Inr (a, st)"
      using c kind 0(2) by (simp add: submit_accept_def alloc_accept_work_item_def)
    have "lookup (m_pool st) = [0 \<mapsto> a]"
      using alloc_submit_frame[OF env p0 ring.overloads_keep(3) overloads_hand_over(3) run] l0
      by (simp add: 0(1)) (simp add: next_id_def WorkPool_new_def)
    with l have j: "j = 0" "lookup (m_pool st) = [0 \<mapsto> b]" by (metis fun_upd_apply option.simps(3), metis fun_upd_apply option.simps(3))
    have lv: "live (m_pool st) = {0}" by (auto simp: live_def j(2))
    have "request_of st 0 = Some (ACCEPT, Accept_cb (Some on_accept))" "item_fd st 0 = get_fd (s_base s)"
      using b by (simp_all add: request_of_def item_fd_def j(2))
    moreover have "is_accept (request_prep (trace st) 0)" using q j(1) by (simp add: request_prep_def)
    moreover have "connections st = {#}" by (simp add: connections_def lv)
    moreover have "accepted (trace st) = {#}" using ok 0(5) by (simp add: api_ok_def accepted_def)
    moreover have "pool_inv (m_pool st)" "m_initialized st"
      using ok 0(2) by (cases st0, cases st, auto simp: api_ok_def api_frame_def)+
    ultimately show ?thesis by (simp add: serving_def lv j(2))
  qed
  ultimately show ?thesis using k env f by (simp add: server_steady_def)
qed

section \<open>The property\<close>

text \<open>
  C7: The server serves for ever.  When it is not called for help, the listening socket and
  the ring can be made and the kernel serves the program, \<^verbatim>\<open>main\<close> never returns, not even with
  a failure: after any number of polls one request accepts on the listening socket, every other live item receives, the
  connections on which it receives are exactly those that were accepted, each once, and
  every live item has one request in flight.  In particular a connection that the peer has
  closed is never given up: the program receives on it again for ever.
\<close>

theorem echo_server_serves:
  assumes env: "env_ok env" and k: "web_kernel env"
    and init: "IOUring_init env (IOUringInterface_create_impl junk) = Inr (st0, r)"
    and s: "create_impl senv IPV4_TCP LOCAL_WEB_PORT SERVER_STREAM_SOCKET = Inr s"
    and argv: "''--help'' \<notin> set argv"
  shows "server_main env senv junk argv = None \<and>
     (\<exists>io. start_server env senv junk = Inr io \<and>
       (\<forall>n. \<exists>st. poll_times env (server_function env) n io = Inr st \<and>
         request_of st 0 = Some (ACCEPT, Accept_cb (Some on_accept)) \<and> item_fd st 0 = sock_fd s \<and>
         (\<forall>i \<in> live (m_pool st) - {0}. request_of st i = Some (RECV, Recv_cb (Some on_message))) \<and>
         connections st = accepted (trace st) \<and> in_flight (trace st) = mset_set (live (m_pool st))))"
proof -
  from server_starts[OF env k init s] obtain io where
    io: "start_server env senv junk = Inr io" "server_steady env (s_base s) io" by blast
  have "do_echo_server env senv junk = None"
    using io serve_loop_never_returns by (simp add: do_echo_server_def)
  then have "server_main env senv junk argv = None"
    using argv by (simp add: server_main_def server_arguments_eq)
  moreover have "\<exists>st. poll_times env (server_function env) n io = Inr st \<and>
      request_of st 0 = Some (ACCEPT, Accept_cb (Some on_accept)) \<and> item_fd st 0 = sock_fd s \<and>
      (\<forall>i \<in> live (m_pool st) - {0}. request_of st i = Some (RECV, Recv_cb (Some on_message))) \<and>
      connections st = accepted (trace st) \<and> in_flight (trace st) = mset_set (live (m_pool st))" for n
  proof -
    from steady_server.steady_times[OF io(2)] obtain st where
      p: "poll_times env (server_function env) n io = Inr st" and st: "server_steady env (s_base s) st" by blast
    then have sv: "serving (s_base s) st" and fl: "flight_inv {} st" "exact {} st"
      by (simp_all add: server_steady_def)
    note D = servingD[OF sv]
    have live: "request_of st i \<noteq> None \<longleftrightarrow> i \<in> live (m_pool st)" for i
      using D(3) D(5)[of i] by (cases "i = 0") (auto simp: live_def request_of_def split: option.splits)
    have "in_flight (trace st) = mset_set (live (m_pool st))"
      unfolding exact_in_flight(1)[OF fl(2,1)] live by simp
    moreover have "\<forall>i \<in> live (m_pool st) - {0}. request_of st i = Some (RECV, Recv_cb (Some on_message))"
      using D(5) by (auto simp: live_def)
    ultimately show ?thesis using p D(3,4,7) by (intro exI[of _ st]) (simp add: sock_fd_def)
  qed
  ultimately show ?thesis using io(1) by blast
qed

text \<open>A kernel that answers in order, every request with the result 7.\<close>

definition web_env :: env where
  "web_env = fifo_env\<lparr>e_peek_cqe := (\<lambda>tr. map_prod id (\<lambda>c. c\<lparr>cqe_res := 7\<rparr>) (e_peek_cqe fifo_env tr)),
     e_accept_memory := (\<lambda>_. ([], sizeof_sockaddr_in))\<rparr>"

lemma web_env_simps [simp]:
  "e_queue_init web_env = e_queue_init quiet_env" "e_probe web_env = e_probe quiet_env"
  "e_get_sqe web_env = e_get_sqe quiet_env" "e_junk web_env = e_junk quiet_env"
  "e_peek_cqe web_env tr = map_prod id (\<lambda>c. c\<lparr>cqe_res := 7\<rparr>) (e_peek_cqe fifo_env tr)"
  "e_accept_memory web_env tr = ([], sizeof_sockaddr_in)"
  by (simp_all add: web_env_def)

lemma web_env_serves: "web_kernel web_env" "env_ok web_env"
proof -
  have "kernel_ok web_env"
    using fifo_kernel_ok by (auto simp: kernel_ok_def map_prod_def split: prod.splits)
  moreover have "single_shot web_env"
    using fifo_single_shot by (simp add: single_shot_def ends_request_def)
  moreover have "fst (e_peek_cqe web_env tr) \<in> {0, - EAGAIN}" for tr
    by (simp add: fifo_env_def split: list.split)
  moreover have "cqe_res (snd (e_peek_cqe web_env tr)) = 7" for tr by simp
  ultimately show "web_kernel web_env"
    by (auto simp: web_kernel_def queue_has_room_def errno_defs simp del: web_env_simps(5))
      (metis snd_conv rel_simps(9) zero_neq_numeral zero_le_numeral)+
  show "env_ok web_env" by (simp add: env_ok_def)
qed

theorem echo_server_serves_witness:
  "server_main web_env sock_env_ex \<lparr>ring_addr = 0, ring_entries = 0, bgid = 0, reg_flags = 0\<rparr>
     [''server'', ''--no-tune''] = None \<and>
   (\<exists>io st. start_server web_env sock_env_ex \<lparr>ring_addr = 0, ring_entries = 0, bgid = 0, reg_flags = 0\<rparr> = Inr io \<and>
     poll_times web_env (server_function web_env) 10 io = Inr st \<and> connections st = accepted (trace st))"
proof -
  let ?junk = "\<lparr>ring_addr = 0, ring_entries = 0, bgid = 0, reg_flags = 0\<rparr>"
  have "\<exists>st0 r. IOUring_init web_env (IOUringInterface_create_impl ?junk) = Inr (st0, r)"
    by (simp add: IOUring_init_def init_ring_def probe_features_quiet split: prod.split)
  then obtain st0 r where i: "IOUring_init web_env (IOUringInterface_create_impl ?junk) = Inr (st0, r)" by blast
  obtain s where s: "create_impl sock_env_ex IPV4_TCP LOCAL_WEB_PORT SERVER_STREAM_SOCKET = Inr s"
    by (auto simp: socket_creation_aux Let_def creatable_def creation_calls_def sock_env_ex_def)
  have "''--help'' \<notin> set [''server'', ''--no-tune'']" by simp
  from echo_server_serves[OF web_env_serves(2,1) i s this] show ?thesis by blast
qed

end
