(* ===== verification/Resolver.thy ===== *)
theory Resolver
  imports AddressText
begin

text \<open>
  The resolution of host names in \<^verbatim>\<open>src/IOUring.cpp\<close> and \<^verbatim>\<open>src/IOUring.hpp\<close>: the list
  \<^verbatim>\<open>m_hostname_DNS_requests\<close>, the request blocks of \<^verbatim>\<open>getaddrinfo_a\<close> on the heap, and the
  notification in the thread of the C library.  The steps of the library (it writes the
  result into a block and then runs the notifier, once per lookup) and the address that
  \<^verbatim>\<open>new\<close> returns are labels of the runs.  The notifier is one step here; it takes no lock,
  and \<open>ResolverThreads\<close> has it go through the requests one iteration at a time.
\<close>

section \<open>State\<close>

record addrinfo =
  ai_family :: int
  ai_addr :: "byte list"

record gaicb =
  ar_name :: string
  ar_result :: "addrinfo list option"  \<comment> \<open>\<open>None\<close> is the null pointer\<close>

record RequestInfo =
  ri_hostname :: string
  ri_request :: "nat option"
  ri_handlers :: "nat list"

type_synonym resolve_result = "error_code + IPAddress list"

datatype resolver_event =
    Rv_handler nat resolve_result
  | Rv_getaddrinfo string nat
  | Rv_freeaddrinfo "addrinfo list"
  | Rv_free nat

record resolver =
  m_requests :: "RequestInfo list"
  r_heap :: "nat \<Rightarrow> gaicb option"
  r_self :: bool  \<comment> \<open>\<^verbatim>\<open>s_self\<close> is set\<close>
  r_trace :: "resolver_event list"

definition resolver_new :: resolver where
  "resolver_new = \<lparr>m_requests = [], r_heap = (\<lambda>_. None), r_self = False, r_trace = []\<rparr>"

section \<open>Operations\<close>

definition convert_address :: "IPAddress list \<Rightarrow> addrinfo \<Rightarrow> IPAddress list" where
  "convert_address addresses rp =
     (if ai_family rp = uint AF_INET then
        addresses @ [IPAddress_of_sockaddr_in (sockaddr_in_of_bytes (ai_addr rp))]
      else if ai_family rp = uint AF_INET6 then
        addresses @ [IPAddress_of_sockaddr_in6 (sockaddr_in6_of_bytes (ai_addr rp))]
      else addresses)"

definition convert_addresses :: "addrinfo list \<Rightarrow> IPAddress list" where
  "convert_addresses res = foldl convert_address [] res"

text \<open>\<^verbatim>\<open>RequestInfo(hostname)\<close>; \<open>p\<close> is what \<^verbatim>\<open>new gaicb{}\<close> returns.\<close>

definition RequestInfo_new :: "string \<Rightarrow> nat \<Rightarrow> RequestInfo" where
  "RequestInfo_new hostname p = \<lparr>ri_hostname = hostname, ri_request = Some p, ri_handlers = []\<rparr>"

definition gaicb_zero :: gaicb where "gaicb_zero = \<lparr>ar_name = [], ar_result = None\<rparr>"

text \<open>
  The move constructor.  The initialiser of \<^verbatim>\<open>request\<close> runs first, so the new object has a
  block of its own, \<open>p\<close>, before it takes that of the argument.  Name and handlers of the
  argument are unspecified afterwards; it is destroyed at once.
\<close>

definition RequestInfo_move :: "string \<Rightarrow> nat \<Rightarrow> RequestInfo \<Rightarrow> RequestInfo \<times> RequestInfo" where
  "RequestInfo_move rest p arg =
     (let it = \<lparr>ri_hostname = [], ri_request = Some p, ri_handlers = []\<rparr>;
          it = it\<lparr>ri_hostname := ri_hostname arg\<rparr>;
          it = it\<lparr>ri_handlers := ri_handlers arg\<rparr>;
          it = it\<lparr>ri_request := ri_request arg\<rparr>;
          arg = arg\<lparr>ri_hostname := rest, ri_handlers := [], ri_request := None\<rparr>
      in (it, arg))"

text \<open>The vector of requests has no room for one more: its elements move to new memory.\<close>

fun move_requests ::
    "(nat \<Rightarrow> gaicb option) \<Rightarrow> nat list \<Rightarrow> RequestInfo list \<Rightarrow> RequestInfo list \<times> (nat \<Rightarrow> gaicb option)" where
  "move_requests heap (p # ps) (arg # args) =
     (let (it, arg) = RequestInfo_move [] p arg;
          (its, heap) = move_requests (heap(p \<mapsto> gaicb_zero)) ps args
      in (it # its, heap))"
| "move_requests heap ps args = (args, heap)"

definition requests_grow :: "nat list \<Rightarrow> resolver \<Rightarrow> resolver" where
  "requests_grow ps st =
     (let (reqs, heap) = move_requests (r_heap st) ps (m_requests st)
      in st\<lparr>m_requests := reqs, r_heap := heap\<rparr>)"

text \<open>The loop over the known requests: the first with this name gets the handler.\<close>

fun push_duplicate :: "string \<Rightarrow> nat \<Rightarrow> RequestInfo list \<Rightarrow> RequestInfo list option" where
  "push_duplicate hostname handler [] = None"
| "push_duplicate hostname handler (req # reqs) =
     (if ri_hostname req = hostname
      then Some (req\<lparr>ri_handlers := ri_handlers req @ [handler]\<rparr> # reqs)
      else map_option ((#) req) (push_duplicate hostname handler reqs))"

text \<open>
  The name in the block is a value here.  The source stores the pointer to the characters of
  the string of the caller, which may be gone when the lookup thread reads them; what the thread
  reads matters to nothing below, as the result of a lookup is any.
\<close>

definition resolve_hostname ::
    "text_env \<Rightarrow> sockaddr_in \<Rightarrow> sockaddr_in6 \<Rightarrow> nat \<Rightarrow> string \<Rightarrow> nat \<Rightarrow> resolver \<Rightarrow> resolver" where
  "resolve_hostname env j4 j6 p hostname handler st =
     (case IPAddress_parse env j4 j6 hostname of
        Inr addr \<Rightarrow> st\<lparr>r_trace := r_trace st @ [Rv_handler handler (Inr [addr])]\<rparr>
      | Inl _ \<Rightarrow>
          (let st = st\<lparr>r_self := True\<rparr>
           in case push_duplicate hostname handler (m_requests st) of
                Some reqs \<Rightarrow> st\<lparr>m_requests := reqs\<rparr>
              | None \<Rightarrow>
                  st\<lparr>m_requests := m_requests st @ [RequestInfo_new hostname p],
                     r_heap := (r_heap st)(p \<mapsto> gaicb_zero\<lparr>ar_name := hostname, ar_result := None\<rparr>),
                     r_trace := r_trace st @ [Rv_getaddrinfo hostname p]\<rparr>))"

text \<open>
  The body of the loop of \<^verbatim>\<open>trigger_hostname_resolve_callbacks\<close>; using a block that is
  not allocated is undefined.  The source gives the block to \<^verbatim>\<open>free\<close>, although it comes from
  \<^verbatim>\<open>new\<close>: by the rules of C++ that is undefined too, so no run with an answered lookup would
  have a meaning.  Here it is a release, as it is where both operators use one allocator
  (the C++ library of Linux systems); that is an assumption of every statement about answered lookups.
\<close>

definition trigger_request ::
    "nat \<Rightarrow> (nat \<Rightarrow> gaicb option) \<times> resolver_event list \<Rightarrow> RequestInfo
      \<Rightarrow> (RequestInfo \<times> (nat \<Rightarrow> gaicb option) \<times> resolver_event list) res" where
  "trigger_request ptr s it =
     (let (heap, tr) = s in
      case ri_request it of
        None \<Rightarrow> Inr (it, heap, tr)
      | Some p \<Rightarrow>
          if p \<noteq> ptr then Inr (it, heap, tr)
          else (case heap p of
              None \<Rightarrow> Inl Undefined_behaviour
            | Some g \<Rightarrow>
                (let (it, heap, tr, result) =
                  (case ar_result g of
                     None \<Rightarrow> (it, heap, tr, Inl HOSTNAME_RESOLVE_FAILED)
                   | Some res \<Rightarrow>
                       (it\<lparr>ri_request := None\<rparr>, heap(p := None), tr @ [Rv_freeaddrinfo res, Rv_free p],
                        Inr (convert_addresses res)))
                 in Inr (it, heap, tr @ map (\<lambda>h. Rv_handler h result) (ri_handlers it)))))"

fun trigger_requests ::
    "nat \<Rightarrow> (nat \<Rightarrow> gaicb option) \<times> resolver_event list \<Rightarrow> RequestInfo list
      \<Rightarrow> (RequestInfo list \<times> (nat \<Rightarrow> gaicb option) \<times> resolver_event list) res" where
  "trigger_requests ptr s [] = Inr ([], s)"
| "trigger_requests ptr s (it # its) =
     bindE (trigger_request ptr s it) (\<lambda>(it, s).
     bindE (trigger_requests ptr s its) (\<lambda>(its, s). Inr (it # its, s)))"

definition trigger_hostname_resolve_callbacks :: "nat \<Rightarrow> resolver \<Rightarrow> resolver res" where
  "trigger_hostname_resolve_callbacks ptr st =
     bindE (trigger_requests ptr (r_heap st, r_trace st) (m_requests st)) (\<lambda>(reqs, heap, tr).
       Inr (st\<lparr>m_requests := reqs, r_heap := heap, r_trace := tr\<rparr>))"

definition sig_notifier_hostname_resolve :: "nat \<Rightarrow> resolver \<Rightarrow> resolver res" where
  "sig_notifier_hostname_resolve ptr st =
     bindE (assertE (r_self st)) (\<lambda>_. trigger_hostname_resolve_callbacks ptr st)"

section \<open>Runs\<close>

text \<open>
  A client asks for a name, or the library finishes the lookup of a block: it stores the
  result there (\<open>None\<close> if the lookup failed) and runs the notifier.  The vector of requests may
  grow before a request is added; when it does is up to the C++ library.
\<close>

datatype label =
    Resolve string nat nat  \<comment> \<open>name, handler, the address of a new block\<close>
  | Answer nat "addrinfo list option"
  | Grow "nat list"  \<comment> \<open>the addresses of the new blocks\<close>

definition store_result :: "nat \<Rightarrow> addrinfo list option \<Rightarrow> resolver \<Rightarrow> resolver" where
  "store_result p r st = st\<lparr>r_heap := (r_heap st)(p := map_option (ar_result_update (\<lambda>_. r)) (r_heap st p))\<rparr>"

fun label_step :: "text_env \<Rightarrow> sockaddr_in \<Rightarrow> sockaddr_in6 \<Rightarrow> label \<Rightarrow> resolver \<Rightarrow> resolver res" where
  "label_step env j4 j6 (Resolve name h p) st = Inr (resolve_hostname env j4 j6 p name h st)"
| "label_step env j4 j6 (Answer p r) st = sig_notifier_hostname_resolve p (store_result p r st)"
| "label_step env j4 j6 (Grow ps) st = Inr (requests_grow ps st)"

text \<open>
  A run from a state.  \<open>P\<close> holds the lookups under way, by the address of their block:
  a step of the library is possible once for each of them; \<^verbatim>\<open>new\<close> returns an address that
  is not allocated.
\<close>

type_synonym pending = "nat \<Rightarrow> string option"

inductive rsteps :: "text_env \<Rightarrow> resolver \<times> pending \<Rightarrow> label list \<Rightarrow> resolver \<times> pending \<Rightarrow> bool"
  for env and start where
  stay: "rsteps env start [] start"
| resolve: "rsteps env start ls (st, P) \<Longrightarrow> r_heap st p = None \<Longrightarrow>
    label_step env j4 j6 (Resolve name h p) st = Inr st' \<Longrightarrow>
    P' = (if r_trace st' = r_trace st @ [Rv_getaddrinfo name p] then P(p \<mapsto> name) else P) \<Longrightarrow>
    rsteps env start (ls @ [Resolve name h p]) (st', P')"
| answer: "rsteps env start ls (st, P) \<Longrightarrow> P p \<noteq> None \<Longrightarrow>
    label_step env j4 j6 (Answer p r) st = Inr st' \<Longrightarrow>
    rsteps env start (ls @ [Answer p r]) (st', P(p := None))"
| grow: "rsteps env start ls (st, P) \<Longrightarrow> length ps = length (m_requests st) \<Longrightarrow> distinct ps \<Longrightarrow>
    \<forall>p \<in> set ps. r_heap st p = None \<Longrightarrow> label_step env j4 j6 (Grow ps) st = Inr st' \<Longrightarrow>
    rsteps env start (ls @ [Grow ps]) (st', P)"

abbreviation resolver_run :: "text_env \<Rightarrow> label list \<Rightarrow> resolver \<Rightarrow> pending \<Rightarrow> bool" where
  "resolver_run env ls st P \<equiv> rsteps env (resolver_new, Map.empty) ls (st, P)"

section \<open>The operations in closed form\<close>

definition literal :: "text_env \<Rightarrow> string \<Rightarrow> bool" where
  "literal env name \<longleftrightarrow> inet_pton4 env (c_str name) \<noteq> None \<or> inet_pton6 env (c_str name) \<noteq> None"

lemma parse_literal:
  "literal env name \<Longrightarrow> \<exists>a. IPAddress_parse env j4 j6 name = Inr a \<and> valid a"
  "\<not> literal env name \<Longrightarrow> IPAddress_parse env j4 j6 name = Inl HOSTNAME_RESOLVE_FAILED"
  by (auto simp: literal_def IPAddress_parse_def valid_def address_constructors split: option.split)

lemma push_duplicate_None [simp]:
  "push_duplicate name h reqs = None \<longleftrightarrow> name \<notin> ri_hostname ` set reqs"
  by (induction reqs) auto

text \<open>The request of a name gets one more handler.\<close>

definition push_handler :: "string \<Rightarrow> nat \<Rightarrow> RequestInfo \<Rightarrow> RequestInfo" where
  "push_handler name h it =
     (if ri_hostname it = name then it\<lparr>ri_handlers := ri_handlers it @ [h]\<rparr> else it)"

lemma push_handler_simps [simp]:
  "ri_request (push_handler name h it) = ri_request it"
  "ri_hostname (push_handler name h it) = ri_hostname it"
  "ri_handlers (push_handler name h it)
     = (if ri_hostname it = name then ri_handlers it @ [h] else ri_handlers it)"
  by (simp_all add: push_handler_def)

lemma map_push_handler [simp]:
  "List.map_filter ri_request (map (push_handler name h) its) = List.map_filter ri_request its"
  "ri_hostname \<circ> push_handler name h = ri_hostname"
  "ri_hostname ` push_handler name h ` S = ri_hostname ` S"
  by (simp_all add: List.map_filter_def comp_def filter_map image_image)

lemma push_duplicate_Some:
  "distinct (map ri_hostname reqs) \<Longrightarrow> name \<in> ri_hostname ` set reqs \<Longrightarrow>
   push_duplicate name h reqs = Some (map (push_handler name h) reqs)"
proof (induction reqs)
  case (Cons it reqs)
  show ?case
  proof (cases "ri_hostname it = name")
    case True
    with Cons.prems(1) have "map (push_handler name h) reqs = reqs"
      by (intro map_idI) (auto simp: image_iff push_handler_def)
    then have "map (push_handler name h) (it # reqs)
        = it\<lparr>ri_handlers := ri_handlers it @ [h]\<rparr> # reqs"
      using True by (simp only: list.map push_handler_def[of name h it] if_True simp_thms)
    with True show ?thesis by simp
  qed (use Cons in \<open>auto simp: push_handler_def\<close>)
qed simp

lemma trigger_others:
  "\<forall>it \<in> set its. ri_request it \<noteq> Some ptr \<Longrightarrow> trigger_requests ptr s its = Inr (its, s)"
  by (induction its arbitrary: s) (auto simp: trigger_request_def split: option.split)

lemma trigger_append:
  "trigger_requests ptr s (xs @ ys) = bindE (trigger_requests ptr s xs) (\<lambda>(xs, s).
     bindE (trigger_requests ptr s ys) (\<lambda>(ys, s). Inr (xs @ ys, s)))"
proof (induction xs arbitrary: s)
  case (Cons x xs)
  show ?case
    by (cases "trigger_request ptr s x") (auto simp: Cons.IH bindE_def split: sum.split prod.split)
qed (auto simp: bindE_def split: sum.split)

text \<open>A move leaves the requests as they are, and one more block per request on the heap.\<close>

lemma RequestInfo_move_eq: "fst (RequestInfo_move rest p arg) = arg"
  by (simp add: RequestInfo_move_def)

lemma move_requests_eq:
  "length ps = length args \<Longrightarrow> move_requests heap ps args = (args, fold (\<lambda>p h. h(p \<mapsto> gaicb_zero)) ps heap)"
proof (induction args arbitrary: heap ps)
  case (Cons arg args)
  then show ?case by (cases ps) (simp_all add: split_beta RequestInfo_move_eq Let_def)
qed simp

lemma fold_blocks: "fold (\<lambda>p h. h(p \<mapsto> gaicb_zero)) ps heap q = (if q \<in> set ps then Some gaicb_zero else heap q)"
  by (induction ps arbitrary: heap) auto

lemma grow_step:
  assumes "length ps = length (m_requests st)" and "label_step env j4 j6 (Grow ps) st = Inr st'"
  shows "st' = st\<lparr>r_heap := (\<lambda>q. if q \<in> set ps then Some gaicb_zero else r_heap st q)\<rparr>"
  using assms by (simp add: requests_grow_def move_requests_eq fold_blocks fun_eq_iff)
    (simp flip: fold_blocks)

definition resolved :: "addrinfo list option \<Rightarrow> resolve_result" where
  "resolved r = (case r of None \<Rightarrow> Inl HOSTNAME_RESOLVE_FAILED | Some res \<Rightarrow> Inr (convert_addresses res))"

definition answer_events :: "nat \<Rightarrow> addrinfo list option \<Rightarrow> nat list \<Rightarrow> resolver_event list" where
  "answer_events p r hs =
     (case r of None \<Rightarrow> [] | Some res \<Rightarrow> [Rv_freeaddrinfo res, Rv_free p])
     @ map (\<lambda>h. Rv_handler h (resolved r)) hs"

lemma trigger_match:
  assumes "m_requests st = xs @ it # ys" and "ri_request it = Some p"
    and "\<forall>x \<in> set xs \<union> set ys. ri_request x \<noteq> Some p" and "r_heap st p = Some g" and "r_self st"
  shows "label_step env j4 j6 (Answer p r) st = Inr (st\<lparr>
    m_requests := xs @ it\<lparr>ri_request := if r = None then Some p else None\<rparr> # ys,
    r_heap := (r_heap st)(p := if r = None then Some (g\<lparr>ar_result := None\<rparr>) else None),
    r_trace := r_trace st @ answer_events p r (ri_handlers it)\<rparr>)"
proof -
  let ?st = "store_result p r st"
  have st: "m_requests ?st = m_requests st" "r_trace ?st = r_trace st" "r_self ?st = r_self st"
    "r_heap ?st = (r_heap st)(p \<mapsto> g\<lparr>ar_result := r\<rparr>)"
    using assms(4) by (simp_all add: store_result_def)
  have it: "it\<lparr>ri_request := Some p\<rparr> = it" using assms(2) by simp
  have upd: "store_result p r' st\<lparr>m_requests := a, r_heap := b, r_trace := c\<rparr>
      = st\<lparr>m_requests := a, r_heap := b, r_trace := c\<rparr>" for a b c r'
    by (simp add: store_result_def)
  show ?thesis
    unfolding label_step.simps sig_notifier_hostname_resolve_def trigger_hostname_resolve_callbacks_def
      st assms(1) trigger_append
    using assms(2,3,5) trigger_others[of xs p] trigger_others[of ys p]
    by (cases r) (simp_all add: trigger_request_def answer_events_def resolved_def it upd)
qed

section \<open>The invariant\<close>

text \<open>
  At most one request per name; the blocks of the requests are distinct and allocated;
  every lookup under way belongs to the request of its name.
\<close>

definition resolver_inv :: "resolver \<times> pending \<Rightarrow> bool" where
  "resolver_inv c \<longleftrightarrow> (let (st, P) = c in
     distinct (map ri_hostname (m_requests st))
     \<and> distinct (List.map_filter ri_request (m_requests st))
     \<and> (\<forall>it \<in> set (m_requests st). \<forall>p. ri_request it = Some p \<longrightarrow> r_heap st p \<noteq> None)
     \<and> (\<forall>p n. P p = Some n \<longrightarrow>
          (\<exists>it \<in> set (m_requests st). ri_request it = Some p \<and> ri_hostname it = n))
     \<and> (m_requests st \<noteq> [] \<longrightarrow> r_self st))"

lemma resolver_inv_new: "resolver_inv (resolver_new, Map.empty)"
  by (simp add: resolver_inv_def resolver_new_def List.map_filter_def)

text \<open>The three ways in which a request for a name is handled.\<close>

lemma resolve_cases:
  assumes "distinct (map ri_hostname (m_requests st))"
    and "label_step env j4 j6 (Resolve name h p) st = Inr st'"
  obtains (literal) a where "literal env name"
      "st' = st\<lparr>r_trace := r_trace st @ [Rv_handler h (Inr [a])]\<rparr>"
    | (duplicate) "\<not> literal env name" "name \<in> ri_hostname ` set (m_requests st)"
      "st' = st\<lparr>r_self := True, m_requests := map (push_handler name h) (m_requests st)\<rparr>"
    | (first) "\<not> literal env name" "name \<notin> ri_hostname ` set (m_requests st)"
      "st' = st\<lparr>r_self := True, m_requests := m_requests st @ [RequestInfo_new name p],
         r_heap := (r_heap st)(p \<mapsto> gaicb_zero\<lparr>ar_name := name\<rparr>),
         r_trace := r_trace st @ [Rv_getaddrinfo name p]\<rparr>"
proof (cases "literal env name")
  case True
  with parse_literal(1)[OF True, of j4 j6] assms(2) literal show ?thesis
    by (auto simp: resolve_hostname_def)
next
  case False
  note parse = parse_literal(2)[OF False, of j4 j6]
  show ?thesis
  proof (cases "name \<in> ri_hostname ` set (m_requests st)")
    case True
    with False parse assms duplicate push_duplicate_Some[OF assms(1) True, of h] show ?thesis
      by (simp add: resolve_hostname_def Let_def)
  next
    case new: False
    then have "push_duplicate name h (m_requests st) = None" by simp
    with False new parse assms first show ?thesis
      by (simp add: resolve_hostname_def gaicb_zero_def Let_def)
  qed
qed

lemma set_map_filter: "p \<in> set (List.map_filter f xs) \<longleftrightarrow> (\<exists>x \<in> set xs. f x = Some p)"
  by (force simp: List.map_filter_def)

lemma resolver_inv_resolve:
  assumes "resolver_inv (st, P)" and "r_heap st p = None"
    and "label_step env j4 j6 (Resolve name h p) st = Inr st'"
  shows "resolver_inv (st', if r_trace st' = r_trace st @ [Rv_getaddrinfo name p] then P(p \<mapsto> name) else P)"
proof -
  have d: "distinct (map ri_hostname (m_requests st))" using assms(1) by (simp add: resolver_inv_def)
  from d assms(3) show ?thesis
  proof (cases rule: resolve_cases)
    case (literal a)
    with assms(1) show ?thesis by (simp add: resolver_inv_def)
  next
    case duplicate
    from duplicate assms(1) show ?thesis by (simp add: resolver_inv_def)
  next
    case first
    have "p \<notin> set (List.map_filter ri_request (m_requests st))"
      using assms(1,2) by (auto simp: resolver_inv_def set_map_filter)
    with first assms(1) show ?thesis
      by (auto simp: resolver_inv_def RequestInfo_new_def List.map_filter_def)
  qed
qed

text \<open>A lookup that is answered: which request it belongs to, and the state after it.\<close>

lemma answer_step:
  assumes "resolver_inv (st, P)" and "P p = Some n"
  obtains xs it ys g where "m_requests st = xs @ it # ys" "ri_hostname it = n" "ri_request it = Some p"
    "\<forall>x \<in> set xs \<union> set ys. ri_request x \<noteq> Some p \<and> ri_hostname x \<noteq> n"
    "\<And>env j4 j6 r. label_step env j4 j6 (Answer p r) st = Inr (st\<lparr>
      m_requests := xs @ it\<lparr>ri_request := if r = None then Some p else None\<rparr> # ys,
      r_heap := (r_heap st)(p := if r = None then Some (g\<lparr>ar_result := None\<rparr>) else None),
      r_trace := r_trace st @ answer_events p r (ri_handlers it)\<rparr>)"
proof -
  from assms obtain it where it: "it \<in> set (m_requests st)" "ri_request it = Some p" "ri_hostname it = n"
    by (fastforce simp: resolver_inv_def)
  then obtain xs ys where s: "m_requests st = xs @ it # ys" by (meson split_list)
  obtain g where g: "r_heap st p = Some g" using assms(1) it by (force simp: resolver_inv_def)
  have "p \<notin> set (List.map_filter ri_request xs) \<union> set (List.map_filter ri_request ys)"
    using assms(1) s it(2) by (auto simp: resolver_inv_def List.map_filter_def)
  moreover have "n \<notin> ri_hostname ` (set xs \<union> set ys)"
    using assms(1) s it(3) by (auto simp: resolver_inv_def)
  ultimately have o: "\<forall>x \<in> set xs \<union> set ys. ri_request x \<noteq> Some p \<and> ri_hostname x \<noteq> n"
    by (auto simp: set_map_filter)
  have "r_self st" using assms(1) s by (simp add: resolver_inv_def)
  with that[OF s it(3,2) o] trigger_match[OF s it(2) _ g] o show ?thesis by blast
qed

lemma resolver_inv_answer:
  assumes "resolver_inv (st, P)" and "P p = Some n"
    and "label_step env j4 j6 (Answer p r) st = Inr st'"
  shows "resolver_inv (st', P(p := None))"
proof -
  from assms(1,2) obtain xs it ys g where s: "m_requests st = xs @ it # ys" "ri_hostname it = n"
      "ri_request it = Some p" "\<forall>x \<in> set xs \<union> set ys. ri_request x \<noteq> Some p \<and> ri_hostname x \<noteq> n"
    and st': "label_step env j4 j6 (Answer p r) st = Inr (st\<lparr>
      m_requests := xs @ it\<lparr>ri_request := if r = None then Some p else None\<rparr> # ys,
      r_heap := (r_heap st)(p := if r = None then Some (g\<lparr>ar_result := None\<rparr>) else None),
      r_trace := r_trace st @ answer_events p r (ri_handlers it)\<rparr>)"
    by (rule answer_step) (rule that)
  have "\<exists>it' \<in> set xs \<union> set ys. ri_request it' = Some q \<and> ri_hostname it' = m"
    if "P q = Some m" "q \<noteq> p" for q m
    using assms(1) that s by (fastforce simp: resolver_inv_def)
  then show ?thesis
    using assms(1,3) s st' by (auto simp: resolver_inv_def List.map_filter_def)
qed

lemma resolver_inv_run [inv_pres]:
  "rsteps env start ls c \<Longrightarrow> resolver_inv start \<Longrightarrow> resolver_inv c"
proof (induction rule: rsteps.induct)
  case (resolve ls st P p j4 j6 name h st' P')
  from resolver_inv_resolve[OF resolve.IH[OF resolve.prems] resolve.hyps(2,3)]
  show ?case unfolding resolve.hyps(4) .
next
  case (answer ls st P p j4 j6 r st')
  then show ?case using resolver_inv_answer by blast
next
  case (grow ls st P ps j4 j6 st')
  from grow_step[OF grow.hyps(2,5)] grow.IH[OF grow.prems] show ?case
    by (auto simp: resolver_inv_def)
qed

section \<open>Properties\<close>

text \<open>The handlers that a run has passed for a name, in order.\<close>

definition asked :: "label list \<Rightarrow> string \<Rightarrow> nat list" where
  "asked ls name = List.map_filter (\<lambda>l. case l of
     Resolve n h p \<Rightarrow> if n = name then Some h else None | Answer p r \<Rightarrow> None | Grow ps \<Rightarrow> None) ls"

lemma asked_simps [simp]:
  "asked [] name = []"
  "asked (ls @ ls') name = asked ls name @ asked ls' name"
  "asked [Resolve n h p] name = (if n = name then [h] else [])"
  "asked [Answer p r] name = []" "asked [Grow ps] name = []"
  by (simp_all add: asked_def List.map_filter_def)

text \<open>
  What a request remembers: every handler for its name but the first, which is not stored.
  A name without a request has not been asked for, or is an address.
\<close>

definition remembers :: "text_env \<Rightarrow> label list \<Rightarrow> resolver \<Rightarrow> bool" where
  "remembers env ls st \<longleftrightarrow>
     (\<forall>it \<in> set (m_requests st). \<not> literal env (ri_hostname it)
        \<and> asked ls (ri_hostname it) \<noteq> [] \<and> ri_handlers it = tl (asked ls (ri_hostname it)))
   \<and> (\<forall>n. n \<notin> ri_hostname ` set (m_requests st) \<longrightarrow> asked ls n = [] \<or> literal env n)"

lemma run_remembers:
  assumes "resolver_run env ls st P"
  shows "remembers env ls st"
  using assms
proof (induction ls c\<equiv>"(st, P)" arbitrary: st P rule: rsteps.induct)
  case stay
  then show ?case by (simp add: remembers_def resolver_new_def)
next
  case (resolve ls st P p j4 j6 name h st')
  have "resolver_inv (st, P)" using resolve(1) resolver_inv_new by (rule resolver_inv_run)
  then have d: "distinct (map ri_hostname (m_requests st))" by (simp add: resolver_inv_def)
  from d resolve.hyps(4) show ?case
  proof (cases rule: resolve_cases)
    case (literal a)
    with resolve.hyps(2) show ?thesis by (auto simp: remembers_def)
  next
    case duplicate
    with resolve.hyps(2) show ?thesis by (auto simp: remembers_def)
  next
    case first
    with resolve.hyps(2) show ?thesis by (auto simp: remembers_def RequestInfo_new_def)
  qed
next
  case (answer ls st P p j4 j6 r st')
  have "resolver_inv (st, P)" using answer(1) resolver_inv_new by (rule resolver_inv_run)
  moreover obtain n where "P p = Some n" using answer.hyps(3) by blast
  ultimately obtain xs it ys g where "m_requests st = xs @ it # ys"
      "label_step env j4 j6 (Answer p r) st = Inr (st\<lparr>
        m_requests := xs @ it\<lparr>ri_request := if r = None then Some p else None\<rparr> # ys,
        r_heap := (r_heap st)(p := if r = None then Some (g\<lparr>ar_result := None\<rparr>) else None),
        r_trace := r_trace st @ answer_events p r (ri_handlers it)\<rparr>)"
    by (rule answer_step) (rule that)
  with answer.hyps(2,4) show ?case by (auto simp: remembers_def)
next
  case (grow ls st P ps j4 j6 st')
  from grow_step[OF grow.hyps(3,6)] grow.hyps(2) show ?case by (simp add: remembers_def)
qed

text \<open>
  C20: When the library answers a lookup, in any state that a run can reach, the notifier
  does not fail: it runs the handlers that were given for the name meanwhile, but not the
  first one, each once, in the order of the calls, all with the same result, which is
  the list of the IPv4 and IPv6 addresses found or the error; after a success the block is
  released and the request can not be answered again.
\<close>

theorem answered_lookup:
  assumes "resolver_run env ls st P" and "P p = Some name"
  shows "\<exists>st'. label_step env j4 j6 (Answer p r) st = Inr st'
    \<and> r_trace st' = r_trace st @ (case r of None \<Rightarrow> [] | Some res \<Rightarrow> [Rv_freeaddrinfo res, Rv_free p])
        @ map (\<lambda>h. Rv_handler h (case r of None \<Rightarrow> Inl HOSTNAME_RESOLVE_FAILED
             | Some res \<Rightarrow> Inr (convert_addresses res))) (tl (asked ls name))
    \<and> (r \<noteq> None \<longrightarrow> r_heap st' p = None \<and> (\<forall>it \<in> set (m_requests st'). ri_hostname it = name \<longrightarrow> ri_request it = None))"
proof -
  have inv: "resolver_inv (st, P)" using assms(1) resolver_inv_new by (rule resolver_inv_run)
  from inv assms(2) obtain xs it ys g where s: "m_requests st = xs @ it # ys" "ri_hostname it = name"
      "ri_request it = Some p" "\<forall>x \<in> set xs \<union> set ys. ri_request x \<noteq> Some p \<and> ri_hostname x \<noteq> name"
    and st': "label_step env j4 j6 (Answer p r) st = Inr (st\<lparr>
        m_requests := xs @ it\<lparr>ri_request := if r = None then Some p else None\<rparr> # ys,
        r_heap := (r_heap st)(p := if r = None then Some (g\<lparr>ar_result := None\<rparr>) else None),
        r_trace := r_trace st @ answer_events p r (ri_handlers it)\<rparr>)"
    by (rule answer_step) (rule that)
  have "ri_handlers it = tl (asked ls name)"
    using run_remembers[OF assms(1)] s by (simp add: remembers_def)
  then show ?thesis
    using s st' by (auto simp: answer_events_def resolved_def split: option.split)
qed

text \<open>A handler that waits for no lookup, and has not been run.\<close>

definition left_out :: "nat \<Rightarrow> string \<Rightarrow> resolver \<times> pending \<Rightarrow> bool" where
  "left_out h name c \<longleftrightarrow> (let (st, P) = c in
     (\<forall>it \<in> set (m_requests st). h \<in> set (ri_handlers it) \<longrightarrow> ri_hostname it = name \<and> name \<notin> ran P)
     \<and> (\<forall>r. Rv_handler h r \<notin> set (r_trace st)))"

definition passes :: "nat \<Rightarrow> label list \<Rightarrow> bool" where
  "passes h ls \<longleftrightarrow> (\<exists>n p. Resolve n h p \<in> set ls)"

lemma answer_events_handlers:
  "Rv_handler h x \<in> set (answer_events p r hs) \<Longrightarrow> h \<in> set hs"
  by (auto simp: answer_events_def split: option.splits)

lemma left_out_steps:
  assumes "rsteps env start ls c"
  shows "resolver_inv start \<Longrightarrow> left_out h name start \<Longrightarrow> \<not> passes h ls \<Longrightarrow> left_out h name c"
  using assms
proof (induction rule: rsteps.induct)
  case stay
  then show ?case by simp
next
  case (resolve ls st P p j4 j6 n h' st' P')
  then have lo: "left_out h name (st, P)" and h': "h' \<noteq> h" by (auto simp: passes_def)
  have inv: "resolver_inv (st, P)" using resolve.hyps(1) resolve.prems(1) by (rule resolver_inv_run)
  then have d: "distinct (map ri_hostname (m_requests st))" by (simp add: resolver_inv_def)
  from d resolve.hyps(3) show ?case
  proof (cases rule: resolve_cases)
    case (literal a)
    with lo h' resolve.hyps(4) show ?thesis by (auto simp: left_out_def)
  next
    case duplicate
    with lo h' resolve.hyps(4) show ?thesis by (auto simp: left_out_def split: if_splits)
  next
    case first
    have "ran P' \<subseteq> insert n (ran P)" using resolve.hyps(4) by (auto simp: ran_def)
    with lo first(2) have "\<forall>it \<in> set (m_requests st). h \<in> set (ri_handlers it) \<longrightarrow>
        ri_hostname it = name \<and> name \<notin> ran P'"
      by (fastforce simp: left_out_def)
    with first lo h' show ?thesis by (auto simp: left_out_def RequestInfo_new_def)
  qed
next
  case (answer ls st P p j4 j6 r st')
  then have lo: "left_out h name (st, P)" by (auto simp: passes_def)
  obtain n where n: "P p = Some n" using answer.hyps(2) by blast
  have inv: "resolver_inv (st, P)" using answer.hyps(1) answer.prems(1) by (rule resolver_inv_run)
  then obtain xs it ys g where s: "m_requests st = xs @ it # ys" "ri_hostname it = n"
    and st': "label_step env j4 j6 (Answer p r) st = Inr (st\<lparr>
        m_requests := xs @ it\<lparr>ri_request := if r = None then Some p else None\<rparr> # ys,
        r_heap := (r_heap st)(p := if r = None then Some (g\<lparr>ar_result := None\<rparr>) else None),
        r_trace := r_trace st @ answer_events p r (ri_handlers it)\<rparr>)"
    using n by (rule answer_step) (rule that)
  have "h \<notin> set (ri_handlers it)" using lo s n by (auto simp: left_out_def ranI)
  then have "Rv_handler h x \<notin> set (answer_events p r (ri_handlers it))" for x
    using answer_events_handlers by blast
  moreover have "ran (P(p := None)) \<subseteq> ran P" by (auto simp: ran_def)
  ultimately show ?case
    using answer.hyps(3) st' s lo by (auto simp: left_out_def)
next
  case (grow ls st P ps j4 j6 st')
  then have "left_out h name (st, P)" by (auto simp: passes_def)
  with grow_step[OF grow.hyps(2,5)] show ?case by (auto simp: left_out_def)
qed

lemma not_passed_not_known:
  assumes "resolver_run env ls st P" and "\<not> passes h ls"
  shows "\<forall>it \<in> set (m_requests st). h \<notin> set (ri_handlers it)" and "Rv_handler h r \<notin> set (r_trace st)"
proof -
  have "left_out h n (resolver_new, Map.empty)" for n by (simp add: left_out_def resolver_new_def)
  then have "left_out h n (st, P)" for n
    using left_out_steps[OF assms(1) resolver_inv_new] assms(2) by blast
  from this[of "''a''"] this[of "''b''"]
  show "\<forall>it \<in> set (m_requests st). h \<notin> set (ri_handlers it)" "Rv_handler h r \<notin> set (r_trace st)"
    by (auto simp: left_out_def)
qed

lemma rsteps_Cons:
  "rsteps env c ls c' \<Longrightarrow> ls = l # ls' \<Longrightarrow> \<exists>c1. rsteps env c [l] c1 \<and> rsteps env c1 ls' c'"
proof (induction arbitrary: ls' rule: rsteps.induct)
  case (resolve ls st P p j4 j6 name h st' P')
  show ?case
  proof (cases ls)
    case Nil
    with resolve.prems rsteps.resolve[OF resolve.hyps] show ?thesis by (auto intro: rsteps.stay)
  next
    case (Cons x xs)
    with resolve.prems resolve.IH[of xs] obtain c1
      where c1: "rsteps env c [l] c1" "rsteps env c1 xs (st, P)" by auto
    show ?thesis
      using c1(1) rsteps.resolve[OF c1(2) resolve.hyps(2-4)] Cons resolve.prems by (intro exI[of _ c1]) auto
  qed
next
  case (answer ls st P p j4 j6 r st')
  show ?case
  proof (cases ls)
    case Nil
    with answer.prems rsteps.answer[OF answer.hyps] show ?thesis by (auto intro: rsteps.stay)
  next
    case (Cons x xs)
    with answer.prems answer.IH[of xs] obtain c1
      where c1: "rsteps env c [l] c1" "rsteps env c1 xs (st, P)" by auto
    show ?thesis
      using c1(1) rsteps.answer[OF c1(2) answer.hyps(2,3)] Cons answer.prems by (intro exI[of _ c1]) auto
  qed
next
  case (grow ls st P ps j4 j6 st')
  show ?case
  proof (cases ls)
    case Nil
    with grow.prems rsteps.grow[OF grow.hyps] show ?thesis by (auto intro: rsteps.stay)
  next
    case (Cons x xs)
    with grow.prems grow.IH[of xs] obtain c1
      where c1: "rsteps env c [l] c1" "rsteps env c1 xs (st, P)" by auto
    show ?thesis
      using c1(1) rsteps.grow[OF c1(2) grow.hyps(2-5)] Cons grow.prems by (intro exI[of _ c1]) auto
  qed
qed simp

inductive_cases rsteps_NilE: "rsteps env c [] c'"
inductive_cases rsteps_snocE: "rsteps env c (ls @ [l]) c'"

lemma rsteps_one_resolve:
  assumes "rsteps env (st, P) [Resolve name h p] (st', P')"
  obtains j4 j6 where "label_step env j4 j6 (Resolve name h p) st = Inr st'" "r_heap st p = None"
    "P' = (if r_trace st' = r_trace st @ [Rv_getaddrinfo name p] then P(p \<mapsto> name) else P)"
  using assms by (auto elim!: rsteps_snocE[where ls = "[]", simplified] elim: rsteps_NilE)

text \<open>
  C22: A handler that is given for a name while no lookup of that name is under way is never
  run, whatever happens later: neither the handler of the first call, which starts the
  lookup, nor that of a call after the lookup was answered.
\<close>

theorem handler_never_run:
  assumes "resolver_run env ls st P" and "name \<notin> ran P" and "\<not> literal env name"
    and "rsteps env (st, P) (Resolve name h p # ls') (st', P')"
    and "\<not> passes h (ls @ ls')"
  shows "Rv_handler h r \<notin> set (r_trace st')"
proof -
  have "\<not> passes h ls" using assms(5) by (auto simp: passes_def)
  note unknown = not_passed_not_known[OF assms(1) this]
  from rsteps_Cons[OF assms(4) refl] obtain st1 P1
    where first_step: "rsteps env (st, P) [Resolve name h p] (st1, P1)"
      and rest: "rsteps env (st1, P1) ls' (st', P')" by auto
  have inv: "resolver_inv (st, P)" using assms(1) resolver_inv_new by (rule resolver_inv_run)
  then have d: "distinct (map ri_hostname (m_requests st))" by (simp add: resolver_inv_def)
  from first_step obtain j4 j6 where one: "label_step env j4 j6 (Resolve name h p) st = Inr st1"
    "P1 = (if r_trace st1 = r_trace st @ [Rv_getaddrinfo name p] then P(p \<mapsto> name) else P)"
    by (rule rsteps_one_resolve)
  from d one(1) have "left_out h name (st1, P1)"
  proof (cases rule: resolve_cases)
    case (literal a)
    with assms(3) show ?thesis by simp
  next
    case duplicate
    with unknown assms(2) one(2) show ?thesis by (auto simp: left_out_def)
  next
    case first
    with unknown show ?thesis by (auto simp: left_out_def RequestInfo_new_def)
  qed
  moreover have "resolver_inv (st1, P1)" using first_step inv by (rule resolver_inv_run)
  moreover have "\<not> passes h ls'" using assms(5) by (auto simp: passes_def)
  ultimately have "left_out h name (st', P')" using left_out_steps[OF rest] by blast
  then show ?thesis by (simp add: left_out_def)
qed

text \<open>Blocks that the program has lost.\<close>

definition unused_blocks :: "nat set \<Rightarrow> resolver \<times> pending \<Rightarrow> bool" where
  "unused_blocks B c \<longleftrightarrow> (\<forall>p \<in> B. r_heap (fst c) p = Some gaicb_zero \<and> snd c p = None \<and>
     (\<forall>it \<in> set (m_requests (fst c)). ri_request it \<noteq> Some p))"

lemma unused_stay:
  assumes "rsteps env start ls c"
  shows "resolver_inv start \<Longrightarrow> unused_blocks B start \<Longrightarrow> unused_blocks B c"
  using assms
proof (induction rule: rsteps.induct)
  case stay
  then show ?case by simp
next
  case (resolve ls st P p j4 j6 n h st' P')
  then have u: "unused_blocks B (st, P)" by blast
  have "resolver_inv (st, P)" using resolve.hyps(1) resolve.prems(1) by (rule resolver_inv_run)
  then have d: "distinct (map ri_hostname (m_requests st))" by (simp add: resolver_inv_def)
  have p: "p \<notin> B" using u resolve.hyps(2) by (auto simp: unused_blocks_def)
  from d resolve.hyps(3) show ?case
    by (cases rule: resolve_cases) (use u p resolve.hyps(4) in \<open>auto simp: unused_blocks_def RequestInfo_new_def\<close>)
next
  case (answer ls st P p j4 j6 r st')
  then have u: "unused_blocks B (st, P)" by blast
  obtain n where n: "P p = Some n" using answer.hyps(2) by blast
  have "resolver_inv (st, P)" using answer.hyps(1) answer.prems(1) by (rule resolver_inv_run)
  then obtain xs it ys g where "m_requests st = xs @ it # ys"
    and "label_step env j4 j6 (Answer p r) st = Inr (st\<lparr>
        m_requests := xs @ it\<lparr>ri_request := if r = None then Some p else None\<rparr> # ys,
        r_heap := (r_heap st)(p := if r = None then Some (g\<lparr>ar_result := None\<rparr>) else None),
        r_trace := r_trace st @ answer_events p r (ri_handlers it)\<rparr>)"
    using n by (rule answer_step) (rule that)
  moreover have "p \<notin> B" using u n by (auto simp: unused_blocks_def)
  ultimately show ?case using u answer.hyps(3) by (auto simp: unused_blocks_def split: if_splits)
next
  case (grow ls st P ps j4 j6 st')
  then have "unused_blocks B (st, P)" by blast
  with grow_step[OF grow.hyps(2,5)] show ?case by (auto simp: unused_blocks_def)
qed

text \<open>
  C23: When the list of requests grows while it is moved to new memory, each of its elements
  gets a block for the resolver that no request refers to: whatever is asked and answered
  later, none of these blocks is ever released, handed to the resolver or looked at, and
  neither the requests nor the lookups under way have changed.
\<close>

theorem moved_blocks_leak:
  assumes "resolver_run env ls st P" and "rsteps env (st, P) (Grow ps # ls') (st', P')"
  shows "length ps = length (m_requests st) \<and>
     (\<forall>p \<in> set ps. r_heap st' p = Some gaicb_zero \<and> P' p = None \<and>
        (\<forall>it \<in> set (m_requests st'). ri_request it \<noteq> Some p)) \<and>
     (ls' = [] \<longrightarrow> m_requests st' = m_requests st \<and> P' = P)"
proof -
  have inv: "resolver_inv (st, P)" using assms(1) resolver_inv_new by (rule resolver_inv_run)
  from rsteps_Cons[OF assms(2) refl] obtain st1 P1
    where 1: "rsteps env (st, P) [Grow ps] (st1, P1)" and rest: "rsteps env (st1, P1) ls' (st', P')" by auto
  from 1 obtain j4 j6 where g: "length ps = length (m_requests st)" "\<forall>p \<in> set ps. r_heap st p = None"
    "label_step env j4 j6 (Grow ps) st = Inr st1" "P1 = P"
    by (auto elim!: rsteps_snocE[where ls = "[]", simplified] elim: rsteps_NilE)
  have "P p = None \<and> (\<forall>it \<in> set (m_requests st). ri_request it \<noteq> Some p)" if "p \<in> set ps" for p
    using inv g(2) that by (cases "P p") (fastforce simp: resolver_inv_def)+
  then have "unused_blocks (set ps) (st1, P1)"
    using grow_step[OF g(1,3)] g(4) by (auto simp: unused_blocks_def)
  moreover have "resolver_inv (st1, P1)" using 1 inv by (rule resolver_inv_run)
  ultimately have "unused_blocks (set ps) (st', P')" using unused_stay[OF rest] by blast
  moreover have "m_requests st' = m_requests st \<and> P' = P" if "ls' = []"
    using rest grow_step[OF g(1,3)] g(4) that by (auto elim: rsteps_NilE)
  ultimately show ?thesis using g(1) by (auto simp: unused_blocks_def)
qed

section \<open>An example\<close>

text \<open>Two calls for one name, one answer, and a third call.\<close>

definition server_reply :: "addrinfo list" where
  "server_reply = [\<lparr>ai_family = 2, ai_addr = sockaddr_in_bytes
     \<lparr>sin_family = AF_INET, sin_port = 0, sin_addr = 0x0700000a, sin_zero = 0\<rparr>\<rparr>]"

definition two_calls :: resolver where
  "two_calls = \<lparr>m_requests = [\<lparr>ri_hostname = ''server'', ri_request = Some 100, ri_handlers = [2]\<rparr>],
     r_heap = [100 \<mapsto> \<lparr>ar_name = ''server'', ar_result = None\<rparr>], r_self = True,
     r_trace = [Rv_getaddrinfo ''server'' 100]\<rparr>"

lemma server_not_literal: "\<not> literal text_env_ex ''server''"
proof -
  have "c_str ''server'' = ''server''" "scan_hhx2 ''server'' = None" by code_simp+
  then show ?thesis
    by (simp add: literal_def text_env_ex_def parse_quad_def parse_hex6_def eval_nat_numeral)
qed

lemma two_calls_run:
  "resolver_run text_env_ex [Resolve ''server'' 1 100, Resolve ''server'' 2 101] two_calls [100 \<mapsto> ''server'']"
proof -
  note parse = parse_literal(2)[OF server_not_literal]
  let ?st = "two_calls\<lparr>m_requests := [\<lparr>ri_hostname = ''server'', ri_request = Some 100, ri_handlers = []\<rparr>]\<rparr>"
  have "rsteps text_env_ex (resolver_new, Map.empty) ([] @ [Resolve ''server'' 1 100]) (?st, [100 \<mapsto> ''server''])"
    by (rule rsteps.resolve[OF rsteps.stay, where ?j4.0 = undefined and ?j6.0 = undefined])
      (simp_all add: resolve_hostname_def parse resolver_new_def two_calls_def RequestInfo_new_def gaicb_zero_def)
  then have "rsteps text_env_ex (resolver_new, Map.empty) (([] @ [Resolve ''server'' 1 100]) @ [Resolve ''server'' 2 101])
      (two_calls, [100 \<mapsto> ''server''])"
    by (rule rsteps.resolve[where ?j4.0 = undefined and ?j6.0 = undefined])
      (simp_all add: resolve_hostname_def parse two_calls_def)
  then show ?thesis by simp
qed

theorem answered_lookup_witness:
  "\<exists>st'. label_step text_env_ex undefined undefined (Answer 100 (Some server_reply)) two_calls = Inr st'
    \<and> drop 3 (r_trace st') = [Rv_handler 2 (Inr (convert_addresses server_reply))]
    \<and> length (convert_addresses server_reply) = 1"
proof -
  have "length (convert_addresses server_reply) = 1"
    by (simp add: convert_addresses_def server_reply_def convert_address_def AF_INET_def)
  then show ?thesis
    using answered_lookup[OF two_calls_run, of 100 "''server''" undefined undefined "Some server_reply"]
    by (auto simp: two_calls_def asked_def List.map_filter_def)
qed

theorem handler_never_run_witness:
  "\<exists>st' P'. rsteps text_env_ex (resolver_new, Map.empty)
      (Resolve ''server'' 1 100 # [Resolve ''server'' 2 101]) (st', P')
    \<and> (\<forall>r. Rv_handler 1 r \<notin> set (r_trace st')) \<and> P' 100 = Some ''server''"
  using handler_never_run[OF rsteps.stay[of text_env_ex "(resolver_new, Map.empty)"] _ server_not_literal
      two_calls_run] two_calls_run
  by (fastforce simp: passes_def)

theorem moved_blocks_leak_witness:
  "\<exists>st'. rsteps text_env_ex (two_calls, [100 \<mapsto> ''server'']) [Grow [101]] (st', [100 \<mapsto> ''server'']) \<and>
     r_heap st' 101 = Some gaicb_zero \<and> m_requests st' = m_requests two_calls"
proof -
  let ?st = "requests_grow [101] two_calls"
  have "rsteps text_env_ex (two_calls, [100 \<mapsto> ''server'']) ([] @ [Grow [101]]) (?st, [100 \<mapsto> ''server''])"
    by (rule rsteps.grow[OF rsteps.stay, where ?j4.0 = undefined and ?j6.0 = undefined]) (simp_all add: two_calls_def)
  then have r: "rsteps text_env_ex (two_calls, [100 \<mapsto> ''server'']) [Grow [101]] (?st, [100 \<mapsto> ''server''])" by simp
  from moved_blocks_leak[OF two_calls_run this] r show ?thesis by auto
qed

end
