(* ===== verification/ResolverThreads.thy ===== *)
theory ResolverThreads
  imports Resolver
begin

text \<open>
  The notifier of the resolver runs in threads of the C library and takes no lock.  Here a
  notifier is not one step, as in \<open>Resolver\<close>: it goes through the list of requests one
  element at a time, between any steps of the client and of other notifiers.  A step is one
  iteration of the loop of \<^verbatim>\<open>trigger_hostname_resolve_callbacks\<close>; what two threads do to one
  and the same request at the same time is not looked at, nor handlers that ask for a name
  themselves, in the midst of the iteration that runs them.  The iterators of
  the loop are taken when it starts; they are invalid once the vector has moved to new
  memory, so each notifier remembers in which memory (\<open>nt_gen\<close>) it goes.
\<close>

section \<open>Notifiers under way\<close>

record notifier =
  nt_ptr :: nat
  nt_pos :: nat
  nt_end :: nat
  nt_gen :: nat

record threaded =
  t_res :: resolver
  t_gen :: nat  \<comment> \<open>how often the vector has moved\<close>
  t_notifiers :: "notifier list"

definition threaded_new :: threaded where
  "threaded_new = \<lparr>t_res = resolver_new, t_gen = 0, t_notifiers = []\<rparr>"

text \<open>\<^verbatim>\<open>sig_notifier_hostname_resolve\<close> up to the first iteration.\<close>

definition start_notifier :: "nat \<Rightarrow> threaded \<Rightarrow> threaded res" where
  "start_notifier ptr t =
     bindE (assertE (r_self (t_res t))) (\<lambda>_.
       Inr (t\<lparr>t_notifiers := t_notifiers t @
         [\<lparr>nt_ptr = ptr, nt_pos = 0, nt_end = length (m_requests (t_res t)), nt_gen = t_gen t\<rparr>]\<rparr>))"

definition set_requests :: "RequestInfo list \<Rightarrow> (nat \<Rightarrow> gaicb option) \<Rightarrow> resolver_event list \<Rightarrow> resolver \<Rightarrow> resolver" where
  "set_requests reqs heap tr st = st\<lparr>m_requests := reqs, r_heap := heap, r_trace := tr\<rparr>"

text \<open>One iteration of notifier number \<open>k\<close>, and the step of its iterator.\<close>

definition visit :: "nat \<Rightarrow> threaded \<Rightarrow> threaded res" where
  "visit k t =
     (let nt = t_notifiers t ! k; st = t_res t
      in if nt_gen nt \<noteq> t_gen t then Inl Undefined_behaviour
         else bindE (trigger_request (nt_ptr nt) (r_heap st, r_trace st) (m_requests st ! nt_pos nt)) (\<lambda>(it, heap, tr).
           Inr (t\<lparr>t_res := set_requests ((m_requests st)[nt_pos nt := it]) heap tr st,
                  t_notifiers := (t_notifiers t)[k := nt\<lparr>nt_pos := nt_pos nt + 1\<rparr>]\<rparr>)))"

definition unfinished :: "notifier \<Rightarrow> bool" where
  "unfinished nt \<longleftrightarrow> nt_pos nt \<noteq> nt_end nt"

text \<open>The runs; \<open>P\<close> holds the lookups that the library has not answered yet, as in \<open>Resolver\<close>.\<close>

inductive threaded_run :: "text_env \<Rightarrow> threaded \<Rightarrow> pending \<Rightarrow> bool" for env where
  start: "threaded_run env threaded_new Map.empty"
| resolve: "threaded_run env t P \<Longrightarrow> r_heap (t_res t) p = None \<Longrightarrow>
    st' = resolve_hostname env j4 j6 p name h (t_res t) \<Longrightarrow>
    P' = (if r_trace st' = r_trace (t_res t) @ [Rv_getaddrinfo name p] then P(p \<mapsto> name) else P) \<Longrightarrow>
    threaded_run env (t\<lparr>t_res := st'\<rparr>) P'"
| grow: "threaded_run env t P \<Longrightarrow> length ps = length (m_requests (t_res t)) \<Longrightarrow> distinct ps \<Longrightarrow>
    \<forall>p \<in> set ps. r_heap (t_res t) p = None \<Longrightarrow>
    threaded_run env (t\<lparr>t_res := requests_grow ps (t_res t), t_gen := t_gen t + 1\<rparr>) P"
| answer: "threaded_run env t P \<Longrightarrow> P p \<noteq> None \<Longrightarrow>
    start_notifier p (t\<lparr>t_res := store_result p r (t_res t)\<rparr>) = Inr t' \<Longrightarrow> threaded_run env t' (P(p := None))"
| iterate: "threaded_run env t P \<Longrightarrow> k < length (t_notifiers t) \<Longrightarrow> unfinished (t_notifiers t ! k) \<Longrightarrow>
    visit k t = Inr t' \<Longrightarrow> threaded_run env t' P"

section \<open>A notifier takes effect in one of its iterations\<close>

text \<open>A notifier still has the request of its block before it.\<close>

definition waits :: "RequestInfo list \<Rightarrow> notifier \<Rightarrow> bool" where
  "waits reqs nt \<longleftrightarrow> (\<exists>m. nt_pos nt \<le> m \<and> m < nt_end nt \<and> ri_request (reqs ! m) = Some (nt_ptr nt))"

definition waited :: "threaded \<Rightarrow> nat set" where
  "waited t = {nt_ptr nt | nt. nt \<in> set (t_notifiers t) \<and> waits (m_requests (t_res t)) nt}"

definition notifiers_ok :: "threaded \<Rightarrow> bool" where
  "notifiers_ok t \<longleftrightarrow> (let reqs = m_requests (t_res t); nts = t_notifiers t in
     (\<forall>nt \<in> set nts. nt_pos nt \<le> nt_end nt \<and> nt_end nt \<le> length reqs) \<and>
     (\<forall>j k. j < length nts \<longrightarrow> k < length nts \<longrightarrow> j \<noteq> k \<longrightarrow> waits reqs (nts ! j) \<longrightarrow> waits reqs (nts ! k) \<longrightarrow>
        nt_ptr (nts ! j) \<noteq> nt_ptr (nts ! k)))"

lemma notifiers_okD:
  assumes "notifiers_ok t"
  shows "nt \<in> set (t_notifiers t) \<Longrightarrow> nt_pos nt \<le> nt_end nt \<and> nt_end nt \<le> length (m_requests (t_res t))"
    "j < length (t_notifiers t) \<Longrightarrow> k < length (t_notifiers t) \<Longrightarrow> j \<noteq> k \<Longrightarrow>
      waits (m_requests (t_res t)) (t_notifiers t ! j) \<Longrightarrow> waits (m_requests (t_res t)) (t_notifiers t ! k) \<Longrightarrow>
      nt_ptr (t_notifiers t ! j) \<noteq> nt_ptr (t_notifiers t ! k)"
  using assms by (simp_all add: notifiers_ok_def Let_def)

text \<open>
  \<open>s\<close> is a state of the model with atomic notifiers: those that still wait have not run yet
  there, so their blocks do not have the result and their lookups are still open.
\<close>

definition behind :: "threaded \<Rightarrow> pending \<Rightarrow> resolver \<Rightarrow> pending \<Rightarrow> bool" where
  "behind t P s Q \<longleftrightarrow>
     m_requests (t_res t) = m_requests s \<and> r_self (t_res t) = r_self s \<and> r_trace (t_res t) = r_trace s \<and>
     (\<forall>q \<in> waited t. (\<exists>g r. r_heap (t_res t) q = Some (g\<lparr>ar_result := r\<rparr>) \<and> r_heap s q = Some g) \<and>
        P q = None \<and> Q q \<noteq> None) \<and>
     (\<forall>q. q \<notin> waited t \<longrightarrow> r_heap (t_res t) q = r_heap s q \<and> P q = Q q)"

lemma behindD:
  assumes "behind t P s Q"
  shows "m_requests (t_res t) = m_requests s" "r_self (t_res t) = r_self s" "r_trace (t_res t) = r_trace s"
    "q \<in> waited t \<Longrightarrow> \<exists>g r. r_heap (t_res t) q = Some (g\<lparr>ar_result := r\<rparr>) \<and> r_heap s q = Some g"
    "q \<in> waited t \<Longrightarrow> P q = None" "q \<in> waited t \<Longrightarrow> Q q \<noteq> None"
    "q \<notin> waited t \<Longrightarrow> r_heap (t_res t) q = r_heap s q" "q \<notin> waited t \<Longrightarrow> P q = Q q"
    "r_heap (t_res t) q = None \<longleftrightarrow> r_heap s q = None"
proof -
  show q: "q \<in> waited t \<Longrightarrow> \<exists>g r. r_heap (t_res t) q = Some (g\<lparr>ar_result := r\<rparr>) \<and> r_heap s q = Some g"
    "q \<notin> waited t \<Longrightarrow> r_heap (t_res t) q = r_heap s q"
    using assms by (auto simp: behind_def)
  show "r_heap (t_res t) q = None \<longleftrightarrow> r_heap s q = None" using q by (cases "q \<in> waited t") auto
qed (use assms in \<open>auto simp: behind_def\<close>)

text \<open>Handlers that are added and requests that are appended do not matter to who waits.\<close>

lemma waits_cong:
  assumes "nt_end nt \<le> length reqs" and "\<And>m. m < length reqs \<Longrightarrow> ri_request (reqs' ! m) = ri_request (reqs ! m)"
  shows "waits reqs' nt = waits reqs nt"
proof -
  have "ri_request (reqs' ! m) = ri_request (reqs ! m)" if "m < nt_end nt" for m using assms that by simp
  then show ?thesis unfolding waits_def by metis
qed

lemma requests_kept:
  assumes ok: "notifiers_ok t" and n: "t_notifiers t' = t_notifiers t"
    and l: "length (m_requests (t_res t)) \<le> length (m_requests (t_res t'))"
    and r: "\<And>m. m < length (m_requests (t_res t)) \<Longrightarrow>
      ri_request (m_requests (t_res t') ! m) = ri_request (m_requests (t_res t) ! m)"
  shows "notifiers_ok t'" "waited t' = waited t"
proof -
  have w: "waits (m_requests (t_res t')) nt = waits (m_requests (t_res t)) nt" if "nt \<in> set (t_notifiers t)" for nt
    using waits_cong[OF _ r] notifiers_okD(1)[OF ok that] by blast
  then show "waited t' = waited t" unfolding waited_def n by blast
  have "nt_pos nt \<le> nt_end nt \<and> nt_end nt \<le> length (m_requests (t_res t'))" if "nt \<in> set (t_notifiers t)" for nt
    using notifiers_okD(1)[OF ok that] l by simp
  moreover have "nt_ptr (t_notifiers t ! j) \<noteq> nt_ptr (t_notifiers t ! k)"
    if "j < length (t_notifiers t)" "k < length (t_notifiers t)" "j \<noteq> k"
      "waits (m_requests (t_res t')) (t_notifiers t ! j)" "waits (m_requests (t_res t')) (t_notifiers t ! k)" for j k
    using that w nth_mem notifiers_okD(2)[OF ok that(1-3)] by blast
  ultimately show "notifiers_ok t'" unfolding notifiers_ok_def n Let_def by blast
qed

section \<open>The steps\<close>

lemma resolve_behind:
  assumes ok: "notifiers_ok t" and b: "behind t P s Q" and d: "distinct (map ri_hostname (m_requests s))"
    and fresh: "r_heap s p = None"
    and st': "st' = resolve_hostname env j4 j6 p name h (t_res t)"
    and s': "s' = resolve_hostname env j4 j6 p name h s"
  shows "notifiers_ok (t\<lparr>t_res := st'\<rparr>) \<and>
    behind (t\<lparr>t_res := st'\<rparr>)
      (if r_trace st' = r_trace (t_res t) @ [Rv_getaddrinfo name p] then P(p \<mapsto> name) else P) s'
      (if r_trace s' = r_trace s @ [Rv_getaddrinfo name p] then Q(p \<mapsto> name) else Q)"
proof -
  let ?t = "t\<lparr>t_res := st'\<rparr>"
  note B = behindD[OF b]
  have ls: "label_step env j4 j6 (Resolve name h p) s = Inr s'"
    and lt: "label_step env j4 j6 (Resolve name h p) (t_res t) = Inr st'" by (simp_all add: s' st')
  have dt: "distinct (map ri_hostname (m_requests (t_res t)))" using d B(1) by simp
  have p: "p \<notin> waited t" using fresh B(4) by fastforce
  from dt lt show ?thesis
  proof (cases rule: resolve_cases)
    case (literal a)
    have k: "notifiers_ok ?t" "waited ?t = waited t" by (rule requests_kept[OF ok]; simp add: literal)+
    from d ls literal(1) have "\<exists>a'. s' = s\<lparr>r_trace := r_trace s @ [Rv_handler h (Inr [a'])]\<rparr> \<and>
        st' = t_res t\<lparr>r_trace := r_trace (t_res t) @ [Rv_handler h (Inr [a'])]\<rparr>"
      using parse_literal(1)[OF literal(1), of j4 j6] by (auto simp: s' st' resolve_hostname_def)
    then show ?thesis using k b by (auto simp: behind_def)
  next
    case duplicate
    have k: "notifiers_ok ?t" "waited ?t = waited t" by (rule requests_kept[OF ok]; simp add: duplicate)+
    from d ls have "s' = s\<lparr>r_self := True, m_requests := map (push_handler name h) (m_requests s)\<rparr>"
      by (cases rule: resolve_cases) (use duplicate B(1) in auto)
    then show ?thesis using k b by (auto simp: behind_def duplicate(3))
  next
    case first
    have k: "notifiers_ok ?t" "waited ?t = waited t"
      by (rule requests_kept[OF ok]; simp add: first nth_append)+
    from d ls have "s' = s\<lparr>r_self := True, m_requests := m_requests s @ [RequestInfo_new name p],
         r_heap := (r_heap s)(p \<mapsto> gaicb_zero\<lparr>ar_name := name\<rparr>),
         r_trace := r_trace s @ [Rv_getaddrinfo name p]\<rparr>"
      by (cases rule: resolve_cases) (use first B(1) in auto)
    then show ?thesis using k b p by (auto simp: behind_def first(3))
  qed
qed

lemma grow_behind:
  assumes ok: "notifiers_ok t" and b: "behind t P s Q"
    and ps: "length ps = length (m_requests (t_res t))" "\<forall>p \<in> set ps. r_heap (t_res t) p = None"
  shows "notifiers_ok (t\<lparr>t_res := requests_grow ps (t_res t), t_gen := t_gen t + 1\<rparr>) \<and>
    behind (t\<lparr>t_res := requests_grow ps (t_res t), t_gen := t_gen t + 1\<rparr>) P (requests_grow ps s) Q"
proof -
  let ?t = "t\<lparr>t_res := requests_grow ps (t_res t), t_gen := t_gen t + 1\<rparr>"
  note B = behindD[OF b]
  have g: "requests_grow ps (t_res t) = t_res t\<lparr>r_heap := (\<lambda>q. if q \<in> set ps then Some gaicb_zero else r_heap (t_res t) q)\<rparr>"
    "requests_grow ps s = s\<lparr>r_heap := (\<lambda>q. if q \<in> set ps then Some gaicb_zero else r_heap s q)\<rparr>"
    using grow_step[of ps "t_res t"] grow_step[of ps s] ps(1) B(1) by simp_all
  have k: "notifiers_ok ?t" "waited ?t = waited t" by (rule requests_kept[OF ok]; simp add: g)+
  have "q \<notin> set ps" if "q \<in> waited t" for q using that ps(2) B(4) by fastforce
  then show ?thesis using k b by (auto simp: behind_def g)
qed

lemma waitedI: "nt \<in> set (t_notifiers t) \<Longrightarrow> waits (m_requests (t_res t)) nt \<Longrightarrow> nt_ptr nt \<in> waited t"
  by (auto simp: waited_def)

lemma waitedE:
  assumes "q \<in> waited t"
  obtains j where "j < length (t_notifiers t)" "waits (m_requests (t_res t)) (t_notifiers t ! j)"
    "nt_ptr (t_notifiers t ! j) = q"
  using assms by (auto simp: waited_def in_set_conv_nth)

lemma start_behind:
  assumes ok: "notifiers_ok t" and b: "behind t P s Q" and inv: "resolver_inv (s, Q)" and p: "P p \<noteq> None"
    and run: "start_notifier p (t\<lparr>t_res := store_result p r (t_res t)\<rparr>) = Inr t'"
  shows "notifiers_ok t' \<and> behind t' (P(p := None)) s Q"
proof -
  let ?nt = "\<lparr>nt_ptr = p, nt_pos = 0, nt_end = length (m_requests s), nt_gen = t_gen t\<rparr>"
  note B = behindD[OF b]
  have np: "p \<notin> waited t" using p B(5)[of p] by auto
  then have Q: "Q p = P p" "r_heap (t_res t) p = r_heap s p" using B(7,8) by simp_all
  with p inv obtain it where it: "it \<in> set (m_requests s)" "ri_request it = Some p"
    by (fastforce simp: resolver_inv_def)
  then obtain g where g: "r_heap s p = Some g" using inv by (force simp: resolver_inv_def)
  have t': "t_res t' = store_result p r (t_res t)" "t_notifiers t' = t_notifiers t @ [?nt]"
    using run B(1) by (auto simp: start_notifier_def store_result_def)
  have rq: "m_requests (t_res t') = m_requests s" using B(1) by (simp add: t' store_result_def)
  have w: "waits (m_requests s) ?nt" using it by (auto simp: waits_def in_set_conv_nth)
  have "waited t' = nt_ptr ` {nt \<in> insert ?nt (set (t_notifiers t)). waits (m_requests s) nt}"
    unfolding waited_def rq by (auto simp: t')
  also have "\<dots> = insert p (nt_ptr ` {nt \<in> set (t_notifiers t). waits (m_requests s) nt})"
    using w by force
  finally have wt: "waited t' = insert p (waited t)" by (auto simp: waited_def B(1))
  have "nt_ptr (t_notifiers t' ! j) \<noteq> nt_ptr (t_notifiers t' ! k)"
    if j: "j < length (t_notifiers t')" "k < length (t_notifiers t')" "j \<noteq> k"
      "waits (m_requests s) (t_notifiers t' ! j)" "waits (m_requests s) (t_notifiers t' ! k)" for j k
  proof -
    have old: "nt_ptr (t_notifiers t ! i) \<noteq> p" if "i < length (t_notifiers t)" "waits (m_requests s) (t_notifiers t ! i)" for i
      using waitedI[of "t_notifiers t ! i" t] that np B(1) by auto
    show ?thesis
      using j notifiers_okD(2)[OF ok, of j k] B(1) old[of j] old[of k]
      by (auto simp: t' nth_append less_Suc_eq split: if_splits)
  qed
  moreover have "nt_pos nt \<le> nt_end nt \<and> nt_end nt \<le> length (m_requests s)" if "nt \<in> set (t_notifiers t')" for nt
    using that notifiers_okD(1)[OF ok] B(1) by (auto simp: t')
  ultimately have "notifiers_ok t'" by (simp add: notifiers_ok_def Let_def rq)
  moreover have "behind t' (P(p := None)) s Q"
    using b np Q g p by (auto simp: behind_def wt) (auto simp: t' store_result_def)
  ultimately show ?thesis ..
qed

lemma trigger_request_match:
  assumes "ri_request it = Some p" and "heap p = Some (g\<lparr>ar_result := r\<rparr>)"
  shows "trigger_request p (heap, tr) it = Inr (it\<lparr>ri_request := if r = None then Some p else None\<rparr>,
     heap(p := if r = None then Some (g\<lparr>ar_result := None\<rparr>) else None), tr @ answer_events p r (ri_handlers it))"
proof -
  have "it\<lparr>ri_request := Some p\<rparr> = it" using assms(1) by simp
  moreover have "heap(p \<mapsto> g\<lparr>ar_result := r\<rparr>) = heap" using assms(2) by auto
  ultimately show ?thesis
    using assms by (cases r) (simp_all add: trigger_request_def answer_events_def resolved_def Let_def)
qed

lemma trigger_request_other:
  "ri_request it \<noteq> Some p \<Longrightarrow> trigger_request p (heap, tr) it = Inr (it, heap, tr)"
  by (auto simp: trigger_request_def split: option.split)

text \<open>An iteration does nothing, or what the whole notifier does.\<close>

lemma pass_behind:
  assumes ok: "notifiers_ok t" and b: "behind t P s Q" and k: "k < length (t_notifiers t)"
    and u: "unfinished (t_notifiers t ! k)" and run: "visit k t = Inr t'"
    and other: "ri_request (m_requests s ! nt_pos (t_notifiers t ! k)) \<noteq> Some (nt_ptr (t_notifiers t ! k))"
  shows "notifiers_ok t' \<and> behind t' P s Q"
proof -
  let ?nt = "t_notifiers t ! k" and ?reqs = "m_requests s"
  let ?nt' = "?nt\<lparr>nt_pos := nt_pos ?nt + 1\<rparr>"
  note B = behindD[OF b]
  have t': "t_res t' = t_res t" "t_notifiers t' = (t_notifiers t)[k := ?nt']"
    using run trigger_request_other[OF other, of "r_heap (t_res t)" "r_trace (t_res t)"] B(1)
    by (auto simp: visit_def Let_def set_requests_def split: if_splits)
  have end': "nt_pos ?nt < nt_end ?nt" "nt_end ?nt \<le> length ?reqs"
    using notifiers_okD(1)[OF ok, of ?nt] k u B(1) by (auto simp: unfinished_def)
  have "waits ?reqs ?nt' = waits ?reqs ?nt"
  proof
    assume "waits ?reqs ?nt"
    then obtain m where m: "nt_pos ?nt \<le> m" "m < nt_end ?nt" "ri_request (?reqs ! m) = Some (nt_ptr ?nt)"
      by (auto simp: waits_def)
    then have "nt_pos ?nt \<noteq> m" using other by blast
    with m show "waits ?reqs ?nt'" by (auto simp: waits_def intro!: exI[of _ m])
  qed (auto simp: waits_def intro: Suc_leD)
  then have same: "waits ?reqs (t_notifiers t' ! j) = waits ?reqs (t_notifiers t ! j) \<and>
      nt_ptr (t_notifiers t' ! j) = nt_ptr (t_notifiers t ! j)" for j
    using k by (cases "j = k") (simp_all add: t')
  have "length (t_notifiers t') = length (t_notifiers t)" by (simp add: t')
  then have "waited t' = waited t"
    using same by (auto simp: waited_def in_set_conv_nth t'(1) B(1)) metis+
  moreover have "notifiers_ok t'"
    using ok same end' by (auto simp: notifiers_ok_def Let_def t'(1) B(1))
      (auto simp: t' dest!: subsetD[OF set_update_subset_insert])
  ultimately show ?thesis using b by (simp add: behind_def t')
qed

lemma other_requests:
  assumes "resolver_inv (s, Q)" and "i < length (m_requests s)" and "ri_request (m_requests s ! i) = Some p"
  shows "\<forall>x \<in> set (take i (m_requests s)) \<union> set (drop (Suc i) (m_requests s)). ri_request x \<noteq> Some p"
    "j < length (m_requests s) \<Longrightarrow> ri_request (m_requests s ! j) = Some p \<Longrightarrow> j = i"
proof -
  have "distinct (List.map_filter ri_request (take i (m_requests s) @ m_requests s ! i # drop (Suc i) (m_requests s)))"
    using assms(1,2) by (simp add: resolver_inv_def flip: id_take_nth_drop)
  then have "p \<notin> set (List.map_filter ri_request (take i (m_requests s))) \<union>
      set (List.map_filter ri_request (drop (Suc i) (m_requests s)))"
    using assms(3) by (auto simp: List.map_filter_def)
  then show o: "\<forall>x \<in> set (take i (m_requests s)) \<union> set (drop (Suc i) (m_requests s)). ri_request x \<noteq> Some p"
    by (auto simp: set_map_filter)
  assume j: "j < length (m_requests s)" "ri_request (m_requests s ! j) = Some p"
  have "m_requests s ! j \<in> set (take i (m_requests s))" if "j < i"
    using that j(1) by (auto simp: in_set_conv_nth intro!: exI[of _ j])
  moreover have "m_requests s ! j \<in> set (drop (Suc i) (m_requests s))" if "i < j"
    using that j(1) by (auto simp: in_set_conv_nth intro!: exI[of _ "j - Suc i"])
  ultimately show "j = i" using o j(2) by (meson UnI1 UnI2 linorder_neqE_nat)
qed

text \<open>The iteration that meets the request of the block is the step of the whole notifier.\<close>

lemma match_step:
  assumes ok: "notifiers_ok t" and b: "behind t P s Q" and inv: "resolver_inv (s, Q)"
    and k: "k < length (t_notifiers t)" and u: "unfinished (t_notifiers t ! k)" and run: "visit k t = Inr t'"
    and m: "ri_request (m_requests s ! nt_pos (t_notifiers t ! k)) = Some (nt_ptr (t_notifiers t ! k))"
  obtains r s' where "label_step env j4 j6 (Answer (nt_ptr (t_notifiers t ! k)) r) s = Inr s'"
    "\<exists>o'. m_requests s' = (m_requests s)[nt_pos (t_notifiers t ! k) := (m_requests s ! nt_pos (t_notifiers t ! k))\<lparr>ri_request := o'\<rparr>]
      \<and> o' \<in> {None, Some (nt_ptr (t_notifiers t ! k))}"
    "m_requests (t_res t') = m_requests s'" "r_trace (t_res t') = r_trace s'" "r_self (t_res t') = r_self s'"
    "r_heap (t_res t') = (r_heap (t_res t))(nt_ptr (t_notifiers t ! k) := r_heap s' (nt_ptr (t_notifiers t ! k)))"
    "r_heap s' = (r_heap s)(nt_ptr (t_notifiers t ! k) := r_heap s' (nt_ptr (t_notifiers t ! k)))"
    "t_notifiers t' = (t_notifiers t)[k := (t_notifiers t ! k)\<lparr>nt_pos := nt_pos (t_notifiers t ! k) + 1\<rparr>]"
proof -
  define nt where "nt = t_notifiers t ! k"
  define p where "p = nt_ptr nt"
  define i where "i = nt_pos nt"
  define it where "it = m_requests s ! i"
  note B = behindD[OF b] and names = nt_def p_def i_def it_def
  have i: "i < nt_end nt" "nt_end nt \<le> length (m_requests s)"
    using notifiers_okD(1)[OF ok, of nt] k u B(1) by (auto simp: unfinished_def names)
  then have l: "i < length (m_requests s)" by simp
  have it: "ri_request it = Some p" using m by (simp add: names)
  have "waits (m_requests (t_res t)) nt" using i it B(1) by (auto simp: waits_def names)
  then have "p \<in> waited t" using waitedI[of nt t] k by (simp add: names)
  then obtain g r where h: "r_heap (t_res t) p = Some (g\<lparr>ar_result := r\<rparr>)" "r_heap s p = Some g"
    using B(4) by blast
  let ?it = "it\<lparr>ri_request := if r = None then Some p else None\<rparr>"
  let ?b = "if r = None then Some (g\<lparr>ar_result := None\<rparr>) else None"
  let ?s = "s\<lparr>m_requests := (m_requests s)[i := ?it], r_heap := (r_heap s)(p := ?b),
      r_trace := r_trace s @ answer_events p r (ri_handlers it)\<rparr>"
  have split: "m_requests s = take i (m_requests s) @ it # drop (Suc i) (m_requests s)"
    unfolding it_def using l by (rule id_take_nth_drop)
  have others: "\<forall>x \<in> set (take i (m_requests s)) \<union> set (drop (Suc i) (m_requests s)). ri_request x \<noteq> Some p"
    using other_requests(1)[OF inv l] it by (simp add: it_def)
  have self: "r_self s" using inv l by (auto simp: resolver_inv_def)
  have "label_step env j4 j6 (Answer p r) s = Inr ?s"
    using trigger_match[OF split it others h(2) self, of env j4 j6 r] l by (simp add: upd_conv_take_nth_drop)
  moreover have t': "t_res t' = set_requests ((m_requests s)[i := ?it]) ((r_heap (t_res t))(p := ?b))
        (r_trace s @ answer_events p r (ri_handlers it)) (t_res t)"
    "t_notifiers t' = (t_notifiers t)[k := nt\<lparr>nt_pos := nt_pos nt + 1\<rparr>]"
    using run trigger_request_match[where heap = "r_heap (t_res t)" and tr = "r_trace s", OF it h(1)] B(1,3)
    by (auto simp: visit_def Let_def names split: if_splits)
  ultimately show ?thesis
    using B(2) it unfolding names[symmetric]
    by (intro that[of r ?s, folded names]) (auto simp: set_requests_def names)
qed

text \<open>The other notifiers do not see that a request gives up a block that they do not look for.\<close>

lemma match_waits:
  assumes req: "\<And>j. j < n \<Longrightarrow> ri_request (reqs' ! j) = (if j = i then o' else ri_request (reqs ! j))"
    and "o' \<in> {None, Some p}" and "ri_request (reqs ! i) = Some p" and e: "nt_end nt \<le> n"
    and np: "waits reqs nt \<Longrightarrow> nt_ptr nt \<noteq> p"
  shows "waits reqs' nt = waits reqs nt"
proof -
  have "ri_request (reqs' ! l) = Some (nt_ptr nt) \<longleftrightarrow> ri_request (reqs ! l) = Some (nt_ptr nt)"
    if l: "nt_pos nt \<le> l" "l < nt_end nt" for l
  proof (cases "l = i")
    case True
    have "nt_ptr nt \<noteq> p" if "ri_request (reqs ! i) = Some (nt_ptr nt)"
      using that np True l by (auto simp: waits_def)
    then show ?thesis using True req[of l] l e assms(2,3) by auto
  qed (use req[of l] l e in simp)
  then show ?thesis unfolding waits_def by blast
qed

text \<open>The notifier has found the request of its block; nobody waits for this block any more.\<close>

lemma match_waited:
  assumes ok: "notifiers_ok t" and k: "k < length (t_notifiers t)" and nt: "nt = t_notifiers t ! k" "p = nt_ptr nt"
    and u: "unfinished nt" and reqs: "reqs = m_requests (t_res t)" "reqs' = m_requests (t_res t')" "length reqs' = length reqs"
    and mp: "ri_request (reqs ! nt_pos nt) = Some p" "\<And>j. j < length reqs \<Longrightarrow> ri_request (reqs ! j) = Some p \<Longrightarrow> j = nt_pos nt"
    and req: "\<And>j. j < length reqs \<Longrightarrow> ri_request (reqs' ! j) = (if j = nt_pos nt then o' else ri_request (reqs ! j))"
    and o': "o' \<in> {None, Some p}" and nts: "t_notifiers t' = (t_notifiers t)[k := nt\<lparr>nt_pos := nt_pos nt + 1\<rparr>]"
  shows "p \<in> waited t" "waited t' = waited t - {p}" "notifiers_ok t'"
proof -
  let ?nt' = "nt\<lparr>nt_pos := nt_pos nt + 1\<rparr>"
  note B = notifiers_okD(1)[OF ok, folded reqs(1)] notifiers_okD(2)[OF ok, folded reqs(1)]
  have i: "nt_pos nt < nt_end nt" "nt_end nt \<le> length reqs" using B(1)[of nt] k u nt by (auto simp: unfinished_def)
  have w: "waits reqs nt" using i mp(1) nt(2) by (auto simp: waits_def)
  then show pw: "p \<in> waited t" using waitedI[of nt t] k nt reqs(1) by simp
  have "ri_request (reqs' ! l) \<noteq> Some p" if "nt_pos nt < l" "l < nt_end nt" for l
    using mp(2)[of l] i req[of l] that by auto
  then have nw: "\<not> waits reqs' ?nt'" by (auto simp: waits_def nt(2) Suc_le_eq)
  have wait: "waits reqs' nj = waits reqs nj \<and> (waits reqs nj \<longrightarrow> nt_ptr nj \<noteq> p)"
    if j: "j < length (t_notifiers t)" "j \<noteq> k" "nj = t_notifiers t ! j" for j nj
  proof -
    have "nt_end nj \<le> length reqs" using B(1)[of nj] j by auto
    moreover have "waits reqs nj \<Longrightarrow> nt_ptr nj \<noteq> p" using B(2)[OF j(1) k j(2)] w j(3) nt by auto
    ultimately show ?thesis using match_waits[OF req o' mp(1)] by blast
  qed
  have q: "q \<in> waited t' \<longleftrightarrow> q \<in> waited t - {p}" for q
  proof
    assume "q \<in> waited t'"
    then obtain j where j: "j < length (t_notifiers t)" "waits reqs' (t_notifiers t' ! j)" "nt_ptr (t_notifiers t' ! j) = q"
      by (auto simp: reqs nts elim!: waitedE)
    then have "j \<noteq> k" using nw k by (auto simp: nts)
    then show "q \<in> waited t - {p}"
      using j wait[OF j(1)] waitedI[of "t_notifiers t ! j" t] reqs(1) by (auto simp: nts)
  next
    assume "q \<in> waited t - {p}"
    then obtain j where j: "j < length (t_notifiers t)" "waits reqs (t_notifiers t ! j)" "nt_ptr (t_notifiers t ! j) = q" "q \<noteq> p"
      by (auto simp: reqs(1) elim!: waitedE)
    then have jk: "j \<noteq> k" by (auto simp: nt)
    then have "t_notifiers t' ! j = t_notifiers t ! j" "t_notifiers t' ! j \<in> set (t_notifiers t')"
      using j(1) nth_mem[of j "t_notifiers t'"] by (simp_all add: nts)
    then show "q \<in> waited t'" using j jk wait[OF j(1)] waitedI[of "t_notifiers t' ! j" t'] reqs(2) by simp
  qed
  then show "waited t' = waited t - {p}" by blast
  have "nt_pos n \<le> nt_end n \<and> nt_end n \<le> length reqs" if "n \<in> set (t_notifiers t')" for n
    using that i B(1)[of n] by (auto simp: nts dest!: subsetD[OF set_update_subset_insert])
  moreover have "nt_ptr (t_notifiers t' ! x) \<noteq> nt_ptr (t_notifiers t' ! y)"
    if "x < length (t_notifiers t')" "y < length (t_notifiers t')" "x \<noteq> y"
      "waits reqs' (t_notifiers t' ! x)" "waits reqs' (t_notifiers t' ! y)" for x y
  proof -
    have "x \<noteq> k" "y \<noteq> k" using that nw k by (auto simp: nts)
    then show ?thesis using that wait[of x] wait[of y] B(2)[of x y] by (simp add: nts)
  qed
  ultimately show "notifiers_ok t'" by (simp add: notifiers_ok_def Let_def reqs(3) flip: reqs(2))
qed

lemma match_behind:
  assumes ok: "notifiers_ok t" and b: "behind t P s Q" and inv: "resolver_inv (s, Q)"
    and k: "k < length (t_notifiers t)" and u: "unfinished (t_notifiers t ! k)" and run: "visit k t = Inr t'"
    and m: "ri_request (m_requests s ! nt_pos (t_notifiers t ! k)) = Some (nt_ptr (t_notifiers t ! k))"
  obtains r s' where "label_step env j4 j6 (Answer (nt_ptr (t_notifiers t ! k)) r) s = Inr s'"
    "Q (nt_ptr (t_notifiers t ! k)) \<noteq> None" "notifiers_ok t'"
    "behind t' P s' (Q(nt_ptr (t_notifiers t ! k) := None))"
proof -
  define nt where "nt = t_notifiers t ! k"
  define p where "p = nt_ptr nt"
  note B = behindD[OF b] and names = nt_def p_def
  obtain r s' o' where step: "label_step env j4 j6 (Answer p r) s = Inr s'"
    and s': "m_requests s' = (m_requests s)[nt_pos nt := (m_requests s ! nt_pos nt)\<lparr>ri_request := o'\<rparr>]" "o' \<in> {None, Some p}"
    and same: "m_requests (t_res t') = m_requests s'" "r_trace (t_res t') = r_trace s'" "r_self (t_res t') = r_self s'"
    and heap: "r_heap (t_res t') = (r_heap (t_res t))(p := r_heap s' p)" "r_heap s' = (r_heap s)(p := r_heap s' p)"
    and nts: "t_notifiers t' = (t_notifiers t)[k := nt\<lparr>nt_pos := nt_pos nt + 1\<rparr>]"
    using match_step[OF ok b inv k u run m, of env j4 j6] unfolding names by blast
  have i: "nt_pos nt < length (m_requests s)"
    using notifiers_okD(1)[OF ok, of nt] k u B(1) by (auto simp: unfinished_def names)
  have mp: "ri_request (m_requests (t_res t) ! nt_pos nt) = Some p"
    "j < length (m_requests (t_res t)) \<Longrightarrow> ri_request (m_requests (t_res t) ! j) = Some p \<Longrightarrow> j = nt_pos nt" for j
    using m[folded names] other_requests(2)[OF inv i m[folded names]] B(1) by simp_all
  have req: "length (m_requests (t_res t')) = length (m_requests (t_res t))"
    "j < length (m_requests (t_res t)) \<Longrightarrow> ri_request (m_requests (t_res t') ! j)
      = (if j = nt_pos nt then o' else ri_request (m_requests (t_res t) ! j))" for j
    using i by (auto simp: same s'(1) B(1) nth_list_update)
  have W: "p \<in> waited t" "waited t' = waited t - {p}" "notifiers_ok t'"
    using match_waited[OF ok k nt_def p_def u[folded nt_def] refl refl req(1) mp(1) _ _ s'(2) nts] mp(2) req(2) by blast+
  have "behind t' P s' (Q(p := None))"
    using B W(1) by (simp add: behind_def W(2) same heap(1)) (subst (1 2) heap(2), auto)
  then show ?thesis using that[OF step[unfolded names] B(6)[OF W(1), unfolded names] W(3)] by (simp add: names)
qed

section \<open>Whole runs\<close>

lemma threaded_run_behind:
  "threaded_run env t P \<Longrightarrow> notifiers_ok t \<and> (\<exists>ls s Q. resolver_run env ls s Q \<and> behind t P s Q)"
proof (induction rule: threaded_run.induct)
  case start
  have "notifiers_ok threaded_new" "behind threaded_new Map.empty resolver_new Map.empty"
    by (simp_all add: notifiers_ok_def behind_def waited_def threaded_new_def Let_def)
  then show ?case using rsteps.stay by blast
next
  case (resolve t P p st' j4 j6 name h P')
  then obtain ls s Q where ok: "notifiers_ok t" and r: "resolver_run env ls s Q" and b: "behind t P s Q" by blast
  have inv: "resolver_inv (s, Q)" using r resolver_inv_new by (rule resolver_inv_run)
  have p: "r_heap s p = None" using resolve.hyps(2) behindD(9)[OF b] by simp
  have "label_step env j4 j6 (Resolve name h p) s = Inr (resolve_hostname env j4 j6 p name h s)" by simp
  from rsteps.resolve[OF r p this refl]
    resolve_behind[OF ok b _ p resolve.hyps(3) refl, of] inv
  show ?case unfolding resolve.hyps(4) by (fastforce simp: resolver_inv_def)
next
  case (grow t P ps)
  then obtain ls s Q where ok: "notifiers_ok t" and r: "resolver_run env ls s Q" and b: "behind t P s Q" by blast
  have ps: "length ps = length (m_requests s)" "\<forall>p \<in> set ps. r_heap s p = None"
    using grow.hyps(2,4) behindD(1,9)[OF b] by auto
  have "label_step env j4 j6 (Grow ps) s = Inr (requests_grow ps s)" for j4 j6 by simp
  from rsteps.grow[OF r ps(1) grow.hyps(3) ps(2) this]
    grow_behind[OF ok b grow.hyps(2,4)]
  show ?case by blast
next
  case (answer t P p r t')
  then obtain ls s Q where ok: "notifiers_ok t" and run: "resolver_run env ls s Q" and b: "behind t P s Q" by blast
  have inv: "resolver_inv (s, Q)" using run resolver_inv_new by (rule resolver_inv_run)
  from start_behind[OF ok b inv answer.hyps(2,3)] run show ?case by blast
next
  case (iterate t P k t')
  then obtain ls s Q where ok: "notifiers_ok t" and run: "resolver_run env ls s Q" and b: "behind t P s Q" by blast
  have inv: "resolver_inv (s, Q)" using run resolver_inv_new by (rule resolver_inv_run)
  show ?case
  proof (cases "ri_request (m_requests s ! nt_pos (t_notifiers t ! k)) = Some (nt_ptr (t_notifiers t ! k))")
    case True
    from match_behind[OF ok b inv iterate.hyps(2-4) True, of env undefined undefined]
    obtain r s' where "label_step env undefined undefined (Answer (nt_ptr (t_notifiers t ! k)) r) s = Inr s'"
      "Q (nt_ptr (t_notifiers t ! k)) \<noteq> None" "notifiers_ok t'"
      "behind t' P s' (Q(nt_ptr (t_notifiers t ! k) := None))" by blast
    then show ?thesis using rsteps.answer[OF run] by blast
  next
    case False
    from pass_behind[OF ok b iterate.hyps(2-4) False] run show ?thesis by blast
  qed
qed

lemma visit_defined:
  assumes ok: "notifiers_ok t" and b: "behind t P s Q" and inv: "resolver_inv (s, Q)"
    and k: "k < length (t_notifiers t)" and u: "unfinished (t_notifiers t ! k)"
    and gen: "nt_gen (t_notifiers t ! k) = t_gen t"
  shows "\<exists>t'. visit k t = Inr t'"
proof -
  let ?nt = "t_notifiers t ! k"
  note B = behindD[OF b]
  show ?thesis
  proof (cases "ri_request (m_requests s ! nt_pos ?nt) = Some (nt_ptr ?nt)")
    case True
    then have "waits (m_requests s) ?nt"
      using u notifiers_okD(1)[OF ok, of ?nt] k by (auto simp: waits_def unfinished_def intro!: exI[of _ "nt_pos ?nt"])
    then have "nt_ptr ?nt \<in> waited t" using waitedI[of ?nt t] k B(1) by simp
    then obtain g r where "r_heap (t_res t) (nt_ptr ?nt) = Some (g\<lparr>ar_result := r\<rparr>)" using B(4) by blast
    from trigger_request_match[where heap = "r_heap (t_res t)", OF True this] gen B(1)
    show ?thesis by (simp add: visit_def Let_def)
  next
    case False
    from trigger_request_other[OF this] gen B(1) show ?thesis by (simp add: visit_def Let_def)
  qed
qed

text \<open>
  C21: That the notifiers go through the requests one element at a time, in any number and
  between any calls of the client, makes no difference to what the program does: the
  requests, the handlers that have run and everything else the program has done are those of
  a run in which each notifier is one step, in some order of these steps; when all notifiers
  have finished the whole states are the same.  An iteration is defined if and only if the
  vector has not moved to new memory since its notifier has started; after a move the
  iterators of the loop are invalid.
\<close>

theorem notifiers_take_effect_at_once:
  assumes "threaded_run env t P"
  shows "(\<exists>ls s Q. resolver_run env ls s Q \<and> m_requests s = m_requests (t_res t) \<and> r_trace s = r_trace (t_res t) \<and>
       ((\<forall>nt \<in> set (t_notifiers t). \<not> unfinished nt) \<longrightarrow> s = t_res t \<and> Q = P)) \<and>
     (\<forall>k < length (t_notifiers t). unfinished (t_notifiers t ! k) \<longrightarrow>
       (if nt_gen (t_notifiers t ! k) = t_gen t then \<exists>t'. visit k t = Inr t'
        else visit k t = Inl Undefined_behaviour))"
proof -
  obtain ls s Q where ok: "notifiers_ok t" and run: "resolver_run env ls s Q" and b: "behind t P s Q"
    using threaded_run_behind[OF assms] by blast
  have inv: "resolver_inv (s, Q)" using run resolver_inv_new by (rule resolver_inv_run)
  note B = behindD[OF b]
  have "s = t_res t \<and> Q = P" if "\<forall>nt \<in> set (t_notifiers t). \<not> unfinished nt"
  proof -
    have "waited t = {}" using that by (auto simp: waited_def waits_def unfinished_def)
    then show ?thesis using B(1-3,7,8) by (auto intro!: resolver.equality)
  qed
  moreover have "visit k t = Inl Undefined_behaviour" if "nt_gen (t_notifiers t ! k) \<noteq> t_gen t" for k
    using that by (simp add: visit_def)
  ultimately show ?thesis using run B(1,3) visit_defined[OF ok b inv] by metis
qed

section \<open>An example\<close>

text \<open>The lookup of \<open>two_calls\<close> is answered; before the notifier meets its request, the vector moves.\<close>

definition answered_two_calls :: threaded where
  "answered_two_calls = \<lparr>t_res = store_result 100 (Some server_reply) two_calls, t_gen = 0,
     t_notifiers = [\<lparr>nt_ptr = 100, nt_pos = 0, nt_end = 1, nt_gen = 0\<rparr>]\<rparr>"

lemma answered_two_calls_run: "threaded_run text_env_ex answered_two_calls Map.empty"
proof -
  note parse = parse_literal(2)[OF server_not_literal]
  let ?st = "two_calls\<lparr>m_requests := [\<lparr>ri_hostname = ''server'', ri_request = Some 100, ri_handlers = []\<rparr>]\<rparr>"
  have "threaded_run text_env_ex (threaded_new\<lparr>t_res := ?st\<rparr>) [100 \<mapsto> ''server'']"
    by (rule threaded_run.resolve[OF threaded_run.start, where p = 100 and ?j4.0 = undefined and ?j6.0 = undefined and name = "''server''" and h = 1])
      (simp_all add: resolve_hostname_def parse resolver_new_def threaded_new_def two_calls_def RequestInfo_new_def gaicb_zero_def)
  then have "threaded_run text_env_ex (threaded_new\<lparr>t_res := ?st\<rparr>\<lparr>t_res := two_calls\<rparr>) [100 \<mapsto> ''server'']"
    by (rule threaded_run.resolve[where p = 101 and ?j4.0 = undefined and ?j6.0 = undefined and name = "''server''" and h = 2])
      (simp_all add: resolve_hostname_def parse two_calls_def)
  then have "threaded_run text_env_ex answered_two_calls ([100 \<mapsto> ''server''](100 := None))"
    by (rule threaded_run.answer[where r = "Some server_reply"])
      (simp_all add: start_notifier_def answered_two_calls_def store_result_def two_calls_def threaded_new_def)
  then show ?thesis by simp
qed

theorem notifiers_take_effect_at_once_witness:
  "\<exists>t t' ls. threaded_run text_env_ex answered_two_calls Map.empty \<and> visit 0 answered_two_calls = Inr t' \<and>
     resolver_run text_env_ex ls (t_res t') Map.empty \<and>
     t = answered_two_calls\<lparr>t_res := requests_grow [101] (t_res answered_two_calls), t_gen := 1\<rparr> \<and>
     threaded_run text_env_ex t Map.empty \<and> visit 0 t = Inl Undefined_behaviour"
proof -
  let ?t = "answered_two_calls"
  let ?m = "?t\<lparr>t_res := requests_grow [101] (t_res ?t), t_gen := 1\<rparr>"
  note run = answered_two_calls_run
  have nts: "t_notifiers ?t = [\<lparr>nt_ptr = 100, nt_pos = 0, nt_end = 1, nt_gen = 0\<rparr>]" "t_gen ?t = 0"
    by (simp_all add: answered_two_calls_def)
  obtain t' where v: "visit 0 ?t = Inr t'"
    using notifiers_take_effect_at_once[OF run] by (auto simp: nts unfinished_def)
  have "threaded_run text_env_ex t' Map.empty"
    by (rule threaded_run.iterate[OF run _ _ v]) (simp_all add: nts unfinished_def)
  moreover have "\<forall>nt \<in> set (t_notifiers t'). \<not> unfinished nt"
    using v by (auto simp: visit_def Let_def nts unfinished_def bindE_def split: sum.splits)
  ultimately obtain ls where "resolver_run text_env_ex ls (t_res t') Map.empty"
    using notifiers_take_effect_at_once[of text_env_ex t'] by blast
  moreover have m: "threaded_run text_env_ex ?m Map.empty"
    using threaded_run.grow[OF run, of "[101]"] by (simp add: answered_two_calls_def store_result_def two_calls_def)
  moreover have "visit 0 ?m = Inl Undefined_behaviour"
    using notifiers_take_effect_at_once[OF m] by (simp add: nts unfinished_def)
  ultimately show ?thesis using run v by blast
qed

end
