(* ===== verification/Buffers.thy ===== *)
theory Buffers
  imports Requests NewRequests
begin

text \<open>
  Who owns the receive buffers, over whole runs of the program: a buffer is the kernel's
  from the moment it is handed over through the ring until a completion names it, and the
  program's from then until it is recycled.
\<close>

section \<open>Ownership\<close>

definition buffer_named :: "cqe \<Rightarrow> bool" where
  "buffer_named c \<longleftrightarrow> cqe_flags c AND IORING_CQE_F_BUFFER \<noteq> 0"

definition owned :: "event list \<Rightarrow> nat multiset" where
  "owned tr = mset (given_ids tr) - mset (taken tr)"

text \<open>
  What \<^verbatim>\<open>io_uring_setup_buf_ring(3)\<close> promises of provided buffers: a completion names one if
  and only if its request asked for one and succeeded, and then one that the kernel owns.
  It leaves out the end of a stream, which succeeds with no buffer; \<open>poll_buffer_count\<close>
  shows what that does to the program.
\<close>

definition names_owned_buffers :: "env \<Rightarrow> bool" where
  "names_owned_buffers env \<longleftrightarrow> (\<forall>tr c. e_peek_cqe env tr = (0, c) \<longrightarrow>
     (buffer_named c \<longleftrightarrow> 0 \<le> cqe_res c \<and>
        (\<exists>e. last_entry tr (cqe_user_data c) = Some e \<and> selects_buffer e)) \<and>
     (buffer_named c \<longrightarrow> cqe_buffer c \<in># owned tr))"

definition ring_memory_granted :: "env \<Rightarrow> bool" where
  "ring_memory_granted env \<longleftrightarrow> (\<forall>tr. e_mmap env tr \<noteq> None \<and> e_register_buf_ring env tr = 0)"

text \<open>
  Every buffer of the lower half was given once more often than it was taken, no other
  buffer ever was, and always with its own memory.
\<close>

definition buffers_balance :: "uring \<Rightarrow> bool" where
  "buffers_balance st \<longleftrightarrow> mset (given_ids (trace st)) = mset [0..<BUFFERS div 2] + mset (taken (trace st)) \<and>
     (\<forall>(addr, len, b) \<in> set (given (trace st)).
        addr = get_buffer st b \<and> len = buffer_size st \<and> b < BUFFERS div 2)"

lemma buffers_balance_owned: "buffers_balance st \<Longrightarrow> owned (trace st) = mset [0..<BUFFERS div 2]"
  by (simp add: buffers_balance_def owned_def)

lemma buffers_balance_cong:
  assumes "buffers_balance st" and "given (trace st') = given (trace st)" and "cqes (trace st') = cqes (trace st)"
    and "get_buffer st' = get_buffer st" and "buffer_size st' = buffer_size st"
  shows "buffers_balance st'"
  using assms by (simp add: buffers_balance_def given_ids_def taken_def)

section \<open>The steps of the program\<close>

lemma init_balance:
  assumes "ring_memory_granted env" and "IOUring_init env (IOUring_new junk queue_size) = Inr (st, r)"
  shows "buffers_balance st"
proof -
  from assms(2) obtain st1 st2 st3 where 1: "init_ring env (IOUring_new junk queue_size) = Inr st1"
    and 2: "probe_features env st1 = Inr st2"
    and 3: "setup_buffer_pool env st2 = (st3, r)" and st: "st = st3\<lparr>m_initialized := True\<rparr>"
    by (auto simp: IOUring_init_def split_beta prod_eq_iff)
  have "st2 = log_ev Ev_probe st1" using 2 by (auto simp: probe_features_def)
  with 1 have s: "buf_shift st2 = BUF_SHIFT" "\<forall>e \<in> set (trace st2). \<not> is_buf_event e"
    by (auto simp: init_ring_def IOUring_new_def Let_def split: if_splits)
  from init_silent[OF assms(2)] have c: "cqes (trace st) = []" by (simp add: IOUring_new_def)
  from assms(1) obtain addr where "e_mmap env (trace st2) = Some addr" and "\<forall>tr. e_register_buf_ring env tr = 0"
    by (auto simp: ring_memory_granted_def)
  from setup_gives_lower_half[OF this s] 3 have
    "given (trace st) = map (\<lambda>i. (get_buffer st i, buffer_size st, i)) [0..<BUFFERS div 2]"
    by (auto simp: st get_buffer_def buffer_size_def ring_constants simp del: upt_rec_numeral)
  with c show ?thesis
    by (auto simp: buffers_balance_def given_ids_def taken_def comp_def simp del: upt_rec_numeral)
qed

lemma api_step_balance:
  assumes "env_ok env" and "pool_inv (m_pool st)" and "api_step env st c = Inr st'" and "buffers_balance st"
  shows "buffers_balance st'"
proof -
  have "api_frame st st'" using api_step_ok[OF assms(1-3)] by (simp add: api_ok_def)
  then show ?thesis
    using api_frame_given[of st st'] by (intro buffers_balance_cong[OF assms(4)]) (auto simp: api_frame_def trace_grows_def)
qed

text \<open>A completion gives back the very buffer that it took.\<close>

lemma gives_back_named:
  assumes names: "names_owned_buffers env" and peek: "e_peek_cqe env (trace st) = (0, c)"
    and fit: "entries_fit st" and q: "request_of st (cqe_user_data c) \<noteq> None"
  shows "gives_back st c \<longleftrightarrow> buffer_named c"
proof -
  from q obtain a where l: "lookup (m_pool st) (cqe_user_data c) = Some a"
    and r: "request_of st (cqe_user_data c) =
      Some (m_work_type (deref (m_pool st) a), m_callback (deref (m_pool st) a))"
    by (auto simp: request_of_def split: option.splits if_splits)
  from entries_fitD[OF fit r] obtain e where "last_entry (trace st) (cqe_user_data c) = Some e"
    "selects_buffer e \<longleftrightarrow> m_work_type (deref (m_pool st) a) = RECV"
    by (auto simp: entry_fits_def)
  with names peek l show ?thesis by (auto simp: names_owned_buffers_def gives_back_def)
qed

lemma poll_balance:
  assumes env: "env_ok env" and inv: "pool_inv (m_pool st)" and bal: "buffers_balance st"
    and names: "names_owned_buffers env" and gives: "\<And>c. e_peek_cqe env (trace st) = (0, c) \<Longrightarrow>
      gives_back st c \<longleftrightarrow> buffer_named c"
    and run: "poll_completion_queues env (invoke env client) st = Inr (st', err)"
  shows "buffers_balance st'"
proof (cases "fst (e_peek_cqe env (trace st)) = 0")
  case False
  with run have "st' = log_ev Ev_no_cqe st"
    by (auto simp: poll_completion_queues_def split_beta split: if_splits)
  with bal show ?thesis by (intro buffers_balance_cong[OF bal]) simp_all
next
  case True
  then obtain c where peek: "e_peek_cqe env (trace st) = (0, c)" by (metis prod.collapse)
  obtain p tr where "st' = st\<lparr>m_pool := p, trace := tr\<rparr>" using scripts.poll_inv[OF env inv run] by blast
  then have st': "get_buffer st' = get_buffer st" "buffer_size st' = buffer_size st"
    by (simp_all add: get_buffer_def buffer_size_def fun_eq_iff)
  note B = poll_buffer_ids[OF env inv peek run] and G = poll_gives_back_at_most_one_buffer[OF env inv peek run]
  have "cqe_buffer c < BUFFERS div 2" if "buffer_named c"
  proof -
    have "cqe_buffer c \<in># owned (trace st)" using names peek that by (simp add: names_owned_buffers_def)
    then show ?thesis unfolding buffers_balance_owned[OF bal] by simp
  qed
  with bal gives[OF peek] show ?thesis
    by (auto simp: buffers_balance_def B G st' buffer_named_def)
qed

lemma reachable_balance:
  assumes env: "env_ok env" and k: "kernel_ok env" "single_shot env" and careful: "careful_client env client"
    and mem: "ring_memory_granted env" and names: "names_owned_buffers env"
    and r: "reachable env (invoke env client) st"
  shows "buffers_balance st"
proof -
  have reach: "reachable env (checked env client) s" if "reachable env (invoke env client) s" for s
    using careful_reachable[OF careful that] .
  from r show ?thesis
  proof induction
    case (init junk queue_size st r)
    then show ?case using init_balance[OF mem] by blast
  next
    case (call st c st')
    then show ?case
      using api_step_balance[OF env] watched.reachable_entries[OF env reach] by blast
  next
    case (poll st st' r)
    note inv = watched.reachable_entries[OF env reach[OF poll(1)]]
    have "gives_back st c \<longleftrightarrow> buffer_named c" if peek: "e_peek_cqe env (trace st) = (0, c)" for c
    proof (rule gives_back_named[OF names peek conjunct2[OF inv]])
      have "cqe_user_data c \<in># in_flight (trace st)" using k(1) peek by (simp add: kernel_ok_def)
      moreover have "ends_request c" using k(2) peek unfolding single_shot_def by (metis snd_conv)
      ultimately show "request_of st (cqe_user_data c) \<noteq> None"
        using take_completion watched.reachable_flight[OF env k reach[OF poll(1)]] by blast
    qed
    then show ?case using poll_balance[OF env conjunct1[OF inv] poll(3) names _ poll(2)] by blast
  qed
qed

section \<open>Properties\<close>

text \<open>
  C4: No buffer is lost and none is given twice: in every reachable state, between two
  polls, the kernel owns exactly the 512 buffers of the lower half, each once; every entry
  of the ring ever handed over described the whole memory of its buffer; and while a
  completion is handled, the buffer that it names, which the client's function reads, is
  not the kernel's.  This holds if the memory for the buffers was granted; if the kernel
  reports completions of requests in flight only, ends each request with its first
  completion (so not for a multishot receive of datagrams that it keeps active), and names a
  buffer, one that it owns, exactly in the receives that succeed; and if no function of the
  client that is run hands over an item that is not in the table or has been handed over
  before.  The kernel may run out of buffers and report \<^verbatim>\<open>ENOBUFS\<close>.
\<close>

theorem buffers_are_conserved:
  assumes "env_ok env" and "kernel_ok env" "single_shot env" and "careful_client env client"
    and "ring_memory_granted env" and "names_owned_buffers env"
    and "reachable env (invoke env client) st"
  shows "owned (trace st) = mset [0..<512] \<and>
     (\<forall>(addr, len, b) \<in> set (given (trace st)). addr = get_buffer st b \<and> len = buffer_size st) \<and>
     (\<forall>c. e_peek_cqe env (trace st) = (0, c) \<longrightarrow> buffer_named c \<longrightarrow>
        cqe_buffer c \<in># owned (trace st) \<and> cqe_buffer c \<notin># owned (trace st @ [Ev_cqe c]))"
proof -
  have bal: "buffers_balance st" by (rule reachable_balance[OF assms])
  have own: "owned (trace st) = mset [0..<512]"
    using buffers_balance_owned[OF bal] by (simp add: ring_constants del: upt_rec_numeral)
  have "cqe_buffer c \<in># owned (trace st) \<and> cqe_buffer c \<notin># owned (trace st @ [Ev_cqe c])"
    if "e_peek_cqe env (trace st) = (0, c)" "buffer_named c" for c
  proof -
    have i: "cqe_buffer c \<in># owned (trace st)" using assms(6) that by (simp add: names_owned_buffers_def)
    have "taken (trace st @ [Ev_cqe c]) = taken (trace st) @ [cqe_buffer c]"
      using that(2) by (simp add: taken_def buffer_named_def)
    then have "owned (trace st @ [Ev_cqe c]) = owned (trace st) - {#cqe_buffer c#}"
      by (simp add: owned_def given_ids_def)
    moreover have "count (mset [0..<512]) (cqe_buffer c) \<le> 1"
      by (subst distinct_count_atmost_1[THEN iffD1]) (simp_all del: upt_rec_numeral)
    ultimately show ?thesis using i by (simp add: own not_in_iff del: upt_rec_numeral)
  qed
  then show ?thesis using own bal by (auto simp: buffers_balance_def)
qed

section \<open>A kernel that lends its buffers\<close>

text \<open>
  It completes the requests in their order, a receive with the first buffer that it owns,
  or with \<^verbatim>\<open>ENOBUFS\<close> when it has none.
\<close>

definition buffer_flags :: "nat \<Rightarrow> 32 word" where
  "buffer_flags b = push_bit 16 (word_of_nat b) OR IORING_CQE_F_BUFFER"

definition owned_list :: "event list \<Rightarrow> nat list" where
  "owned_list tr = fold remove1 (taken tr) (given_ids tr)"

definition lent :: "event list \<Rightarrow> nat \<Rightarrow> cqe" where
  "lent tr i =
     (if \<exists>e \<in> set_option (last_entry tr i). selects_buffer e
      then (case List.find (\<lambda>b. b < 65536) (owned_list tr) of
              None \<Rightarrow> \<lparr>cqe_user_data = i, cqe_res = - ENOBUFS, cqe_flags = 0\<rparr>
            | Some b \<Rightarrow> \<lparr>cqe_user_data = i, cqe_res = 5, cqe_flags = buffer_flags b\<rparr>)
      else \<lparr>cqe_user_data = i, cqe_res = 0, cqe_flags = 0\<rparr>)"

definition lending_env :: env where
  "lending_env = quiet_env\<lparr>e_peek_cqe := (\<lambda>tr. case fifo_pending tr of
     [] \<Rightarrow> (- EAGAIN, \<lparr>cqe_user_data = 0, cqe_res = 0, cqe_flags = 0\<rparr>)
   | i # _ \<Rightarrow> (0, lent tr i))\<rparr>"

lemma lending_env_simps [simp]:
  "e_queue_init lending_env = e_queue_init quiet_env" "e_probe lending_env = e_probe quiet_env"
  "e_get_sqe lending_env = e_get_sqe quiet_env" "e_mmap lending_env = e_mmap quiet_env"
  "e_register_buf_ring lending_env = e_register_buf_ring quiet_env" "e_junk lending_env = e_junk quiet_env"
  by (simp_all add: lending_env_def)

lemma buffer_flags_simps [simp]:
  "buffer_flags b AND IORING_CQE_F_BUFFER \<noteq> 0" "buffer_flags b AND IORING_CQE_F_MORE = 0"
  "b < 65536 \<Longrightarrow> unat (drop_bit 16 (buffer_flags b)) = b"
proof -
  have "bit (buffer_flags b AND IORING_CQE_F_BUFFER) 0"
    by (simp add: buffer_flags_def IORING_CQE_F_BUFFER_def bit_simps)
  then show "buffer_flags b AND IORING_CQE_F_BUFFER \<noteq> 0" by auto
  have "\<not> bit (buffer_flags b AND IORING_CQE_F_MORE) n" for n
    by (auto simp: buffer_flags_def IORING_CQE_F_BUFFER_def IORING_CQE_F_MORE_def bit_simps)
  then show "buffer_flags b AND IORING_CQE_F_MORE = 0" by (intro bit_word_eqI) simp
  assume "b < 65536"
  then have "take_bit 16 b = b" by (simp add: take_bit_nat_eq_self)
  then have "n < 16" if "bit b n" for n using that by (metis bit_take_bit_iff)
  then have "drop_bit 16 (buffer_flags b) = word_of_nat b"
    by (intro bit_word_eqI) (auto simp: buffer_flags_def IORING_CQE_F_BUFFER_def bit_simps)
  then show "unat (drop_bit 16 (buffer_flags b)) = b" using \<open>b < 65536\<close>
    by (simp add: unat_of_nat)
qed

lemma mset_owned_list: "mset (owned_list tr) = owned tr"
  by (simp add: owned_list_def owned_def mset_fold_remove1)

lemma lent_simps:
  "cqe_user_data (lent tr i) = i" "ends_request (lent tr i)"
  "buffer_named (lent tr i) \<longleftrightarrow> 0 \<le> cqe_res (lent tr i) \<and>
     (\<exists>e. last_entry tr i = Some e \<and> selects_buffer e)"
  "buffer_named (lent tr i) \<Longrightarrow> cqe_buffer (lent tr i) \<in># owned tr"
proof -
  have found: "b \<in> set bs \<and> b < 65536" if "List.find (\<lambda>b. b < 65536) bs = Some b" for b :: nat and bs
    using that by (auto simp: find_Some_iff)
  show "buffer_named (lent tr i) \<Longrightarrow> cqe_buffer (lent tr i) \<in># owned tr"
    unfolding mset_owned_list[symmetric]
    by (auto simp: lent_def buffer_named_def cqe_buffer_def dest: found split: option.splits if_splits)
qed (auto simp: lent_def ends_request_def buffer_named_def errno_defs split: option.splits)

lemma lending_peek: "e_peek_cqe lending_env tr = (0, c) \<longleftrightarrow> (\<exists>i js. fifo_pending tr = i # js \<and> c = lent tr i)"
  by (auto simp: lending_env_def errno_defs split: list.splits)

lemma lending_kernel:
  "env_ok lending_env" "kernel_ok lending_env" "ring_memory_granted lending_env" "names_owned_buffers lending_env"
proof -
  show "env_ok lending_env" by (simp add: env_ok_def)
  show "kernel_ok lending_env"
    by (auto simp: kernel_ok_def lending_peek lent_simps simp flip: mset_fifo_pending)
  show "ring_memory_granted lending_env" by (simp add: ring_memory_granted_def)
  show "names_owned_buffers lending_env"
    unfolding names_owned_buffers_def lending_peek using lent_simps by auto
qed

lemma lending_single_shot: "single_shot lending_env"
  using lent_simps(2) by (auto simp: single_shot_def lending_env_def ends_request_def split: list.split)

lemma lending_room: "queue_has_room lending_env"
  by (simp add: queue_has_room_def)

text \<open>Its ring after \<^verbatim>\<open>init\<close> and one receive, with the first buffer in the completion.\<close>

lemma lending_receive:
  "\<exists>st c. reachable lending_env (invoke lending_env client) st \<and> m_initialized st \<and>
     e_peek_cqe lending_env (trace st) = (0, c) \<and> 0 \<le> cqe_res c \<and> cqe_res c \<noteq> - ENOBUFS \<and>
     (\<exists>a. lookup (m_pool st) (cqe_user_data c) = Some a \<and> m_work_type (deref (m_pool st) a) = RECV \<and>
        m_socket (deref (m_pool st) a) = tcp_socket \<and> m_callback (deref (m_pool st) a) = Recv_cb (Some 7))"
proof -
  let ?env = lending_env and ?cbs = "invoke lending_env client"
  have "\<exists>st0 r. IOUring_init ?env (IOUring_new junk 64) = Inr (st0, r)" for junk
    by (simp add: IOUring_init_def init_ring_def probe_features_quiet split: prod.split)
  then obtain junk st0 r where i: "IOUring_init ?env (IOUring_new junk 64) = Inr (st0, r)" by blast
  from init_silent[OF i] have s: "m_initialized st0" "m_pool st0 = WorkPool_new"
    "sqes (trace st0) = []" "cqes (trace st0) = []"
    by (simp_all add: IOUring_new_def)
  from recv_runs[OF lending_kernel(1) lending_room _ s(1), of tcp_socket "Some 7"] s(2) obtain a st where
    c: "submit_recv ?env tcp_socket (Some 7) st0 = Inr (a, st)" and
    n: "new_request tcp_socket RECV (Recv_cb (Some 7)) (Prep_recv 5 (buffer_size st0) 0) st0 st"
    using pool_inv_new by auto
  have r: "reachable ?env cbs st" for cbs
    by (intro reachable.call[OF reachable.init[OF i], of "Api_submit_recv tcp_socket (Some 7)"])
      (simp_all add: call_ok_def c)
  from n obtain j b e where l: "lookup (m_pool st) j = Some b" and
    b: "m_work_type (deref (m_pool st) b) = RECV" "m_callback (deref (m_pool st) b) = Recv_cb (Some 7)"
      "m_socket (deref (m_pool st) b) = tcp_socket" and
    q: "sqes (trace st) = [e]" "sqe_user_data e = j" "sqe_prep e = Prep_recv 5 (buffer_size st0) 0" and
    ok: "api_ok st0 st"
    using s(3) unfolding new_request_def by auto
  have "cqes (trace st) = []" using ok s(4) by (auto simp: api_ok_def api_frame_def trace_grows_def)
  then have f: "fifo_pending (trace st) = [j]" using q by (simp add: fifo_pending_def)
  have e: "last_entry (trace st) j = Some e" using q by (simp add: last_entry_def)
  have "entries_fit st"
    using idle.reachable_entries[OF lending_kernel(1) r] by blast
  from entries_fitD[OF this, of j] l b e have "selects_buffer e" by (auto simp: request_of_def entry_fits_def)
  moreover have "buffers_balance st"
    by (rule reachable_balance[OF lending_kernel(1,2) lending_single_shot idle_careful_client lending_kernel(3,4) r])
  then have "mset (owned_list (trace st)) = mset [0..<BUFFERS div 2]"
    by (simp add: mset_owned_list buffers_balance_owned)
  then have "0 \<in> set (owned_list (trace st))"
    by (drule_tac mset_eq_setD) (simp add: ring_constants)
  then have "List.find (\<lambda>b. b < 65536) (owned_list (trace st)) \<noteq> None"
    unfolding find_None_iff by (auto intro!: bexI[of _ 0])
  ultimately have "cqe_res (lent (trace st) j) = 5" using e by (auto simp: lent_def)
  moreover have "e_peek_cqe ?env (trace st) = (0, lent (trace st) j)" using f by (simp add: lending_peek)
  moreover obtain p tr where "st = st0\<lparr>m_pool := p, trace := tr\<rparr>" using ok unfolding api_ok_def api_frame_def by blast
  then have "m_initialized st" using s(1) by simp
  ultimately show ?thesis using r l b by (intro exI[of _ st] exI[of _ "lent (trace st) j"]) (simp add: lent_simps errno_defs)
qed

text \<open>
  The poll that takes it, runs a function, and gives the buffer back.  The function acquires
  an item and hands it over: it sends an answer.
\<close>

lemma stream_receive_runs:
  assumes inv: "pool_inv (m_pool st)" and peek: "e_peek_cqe env (trace st) = (0, c)" and env: "env_ok env"
    and l: "lookup (m_pool st) (cqe_user_data c) = Some a" and t: "m_work_type (deref (m_pool st) a) = RECV"
    and s: "is_stream (m_socket (deref (m_pool st) a))" and r: "0 \<le> cqe_res c" "cqe_res c \<noteq> - ENOBUFS"
    and f: "m_callback (deref (m_pool st) a) = Recv_cb (Some f)"
    and run: "\<And>x. \<exists>st1. invoke env client f x (log_ev (Ev_cqe c) st) = Inr (st1, NONE)"
  shows "\<exists>st'. poll_completion_queues env (invoke env client) st = Inr (st', OK)"
proof -
  let ?st = "log_ev (Ev_cqe c) st"
  let ?m = "Received \<lparr>rm_data = get_buffer st (cqe_buffer c), rm_size = nat (cqe_res c),
    rm_source_address = IPAddress_default\<rparr>"
  have p: "pool_inv (m_pool ?st)" "lookup (m_pool ?st) (cqe_user_data c) = Some a"
    "m_work_type (deref (m_pool ?st) a) = RECV"
    using inv l t by simp_all
  obtain st1 where 1: "invoke env client f ?m ?st = Inr (st1, NONE)" using run by blast
  let ?st1 = "recycle_buffer (cqe_buffer c) st1"
  have "pool_inv (m_pool ?st1)" "lookup (m_pool ?st1) (cqe_user_data c) = Some a"
    using scripts.callback_ok[OF env p(1) 1] p(2) by (auto simp: api_frame_def pool_grows_def)
  from release_succeeds[OF this] obtain st2 where "release (cqe_user_data c) ?st1 = Inr st2" by blast
  moreover have "call_recv_callback env (invoke env client) a c ?st = Inr (?st1, NONE)"
    using r s f 1 by (simp add: call_recv_callback_def Let_def call_recv_handler_stream_def item_is_stream_def
        item_call_recv_callback_def call_func_def cqe_buffer_def)
  ultimately show ?thesis
    unfolding poll_completion[OF peek] recv_completion_eq[OF p(1,2) r(2) p(3)]
    by (simp add: after_receive_def)
qed

theorem buffers_are_conserved_witness:
  "\<exists>st c st'. reachable lending_env (invoke lending_env answering) st \<and>
     e_peek_cqe lending_env (trace st) = (0, c) \<and>
     cqe_buffer c \<in># owned (trace st) \<and> cqe_buffer c \<notin># owned (trace st @ [Ev_cqe c]) \<and>
     poll_completion_queues lending_env (invoke lending_env answering) st = Inr (st', OK) \<and>
     given_ids (trace st') = given_ids (trace st) @ [cqe_buffer c] \<and> owned (trace st') = mset [0..<512]"
proof -
  let ?env = lending_env and ?cbs = "invoke lending_env answering"
  obtain st c a where r: "reachable ?env ?cbs st" and i: "m_initialized st" and peek: "e_peek_cqe ?env (trace st) = (0, c)" and
    res: "0 \<le> cqe_res c" "cqe_res c \<noteq> - ENOBUFS" and l: "lookup (m_pool st) (cqe_user_data c) = Some a" and
    a: "m_work_type (deref (m_pool st) a) = RECV" "m_socket (deref (m_pool st) a) = tcp_socket"
      "m_callback (deref (m_pool st) a) = Recv_cb (Some 7)"
    using lending_receive[of answering] by blast
  have careful: "careful_client ?env answering" unfolding answering_def by (rule answering_careful[OF lending_kernel(1)])
  note inv = watched.reachable_entries[OF lending_kernel(1) careful_reachable[OF careful r]]
  have "pool_inv (m_pool (log_ev (Ev_cqe c) st))" "m_initialized (log_ev (Ev_cqe c) st)"
    using inv i by (simp_all add: log_ev_def)
  then have "\<exists>st1. ?cbs 7 x (log_ev (Ev_cqe c) st) = Inr (st1, NONE)" for x
    using answering_runs[OF lending_kernel(1) lending_room, of "log_ev (Ev_cqe c) st" tcp_socket "[1, 2, 3]" x]
    by (auto simp: answering_def BUF_SIZE_def)
  then obtain st' where p: "poll_completion_queues ?env ?cbs st = Inr (st', OK)"
    using stream_receive_runs[OF conjunct1[OF inv] peek lending_kernel(1) l a(1) _ res a(3), of answering] a(2) by auto
  have "gives_back st c" using res l a by (simp add: gives_back_def)
  then have "buffer_named c" "given_ids (trace st') = given_ids (trace st) @ [cqe_buffer c]"
    using gives_back_named[OF lending_kernel(4) peek conjunct2[OF inv]] l a
      poll_buffer_ids(1)[OF lending_kernel(1) conjunct1[OF inv] peek p] by (simp_all add: request_of_def)
  moreover note conserved = buffers_are_conserved[OF lending_kernel(1,2) lending_single_shot careful lending_kernel(3,4)]
  note conserved[OF r] conserved[OF reachable.poll[OF r p]]
  ultimately show ?thesis using r peek p by blast
qed

end
