(* ===== verification/UnitTests.thy ===== *)
theory UnitTests
  imports SocketImpl WorkPool
begin

text \<open>
  The unit tests of the repository (\<^verbatim>\<open>tests/test_sendpacket.cpp\<close>,
  \<^verbatim>\<open>tests/test_workpool.cpp\<close>) and the mock objects they use
  (\<^verbatim>\<open>tests/iuring_mocks.hpp\<close>).  A test is a value of \<open>bool res\<close>: \<open>Inr True\<close> if it
  passes, \<open>Inr False\<close> if one of its \<^verbatim>\<open>ASSERT_...\<close> fails, \<open>Inl\<close> if the code under test
  stops the program.  That the tests pass on the model, for all contents of uninitialised
  memory, is a check of the model against the authors' own expectations.
\<close>

section \<open>The mock socket factory\<close>

record mock_factory =
  created_sockets :: "isocket list"

definition mock_create_impl ::
  "SocketType \<Rightarrow> SocketPortID \<Rightarrow> SocketKind \<Rightarrow> mock_factory \<Rightarrow> isocket \<times> mock_factory" where
  "mock_create_impl type port kind f =
     (let s = ISocket_new type port kind (-1)
      in (s, f\<lparr>created_sockets := created_sockets f @ [s]\<rparr>))"

text \<open>From an \<^verbatim>\<open>AcceptResult\<close>: the port is \<^verbatim>\<open>IPAddress::get_port\<close>, the type is fixed.\<close>

definition mock_create_impl_of_accept ::
  "int \<Rightarrow> IPAddress \<Rightarrow> mock_factory \<Rightarrow> (isocket \<times> mock_factory) res" where
  "mock_create_impl_of_accept new_fd address f =
     bindE (get_port address) (\<lambda>port.
       let type = IPV4_TCP;
           s = ISocket_new type port SERVER_STREAM_SOCKET new_fd
       in Inr (s, f\<lparr>created_sockets := created_sockets f @ [s]\<rparr>))"

section \<open>The packet test\<close>

text \<open>\<^verbatim>\<open>test_sp\<close>; a string literal ends with a zero byte.\<close>

definition char_byte :: "char \<Rightarrow> byte" where
  "char_byte c = of_char c"

definition char_shift :: "char \<Rightarrow> nat \<Rightarrow> 'a::len word" where
  "char_shift c n = push_bit n (ucast (char_byte c))"

definition test_sp :: "byte list \<Rightarrow> bool res" where
  "test_sp junk =
     (let sp = new_send_packet junk in
      bindE (append_cstr sp (bytes_of_string ''hello'' @ [0])) (\<lambda>sp.
      if packet_size sp \<noteq> length ''hello'' then Inr False else
      bindE (append_cstr sp (bytes_of_string '''' @ [0])) (\<lambda>sp.
      if packet_size sp \<noteq> length ''hello'' then Inr False else
      bindE (append_byte sp (char_byte CHR ''a'')) (\<lambda>sp.
      if packet_size sp \<noteq> length ''hello'' + 1 then Inr False else
      if packet_to_string sp \<noteq> ''helloa'' then Inr False else
      let sp = reset sp in
      if packet_size sp \<noteq> 0 then Inr False else
      bindE (append_byte sp (char_byte CHR ''a'')) (\<lambda>sp.
      bindE (append_uint16 sp (char_shift CHR ''b'' 8 OR char_shift CHR ''c'' 0)) (\<lambda>sp.
      bindE (append_uint32 sp (char_shift CHR ''d'' 24 OR char_shift CHR ''e'' 16 OR char_shift CHR ''f'' 8
               OR char_shift CHR ''g'' 0)) (\<lambda>sp.
        Inr (packet_to_string sp = ''abcdefg''))))))))"

section \<open>The tests of the pool\<close>

text \<open>
  The members of the test class that the tests change, with the number of calls of
  \<^verbatim>\<open>IOUring::submit\<close> that the mock has seen and whether all assertions inside lambda
  expressions held; such an assertion ends the lambda expression only.
\<close>

record fixture =
  seen_submit :: bool
  seen_callback :: bool
  submits :: nat
  all_hold :: bool

definition fixture_new :: fixture where
  "fixture_new = \<lparr>seen_submit = False, seen_callback = False, submits = 0, all_hold = True\<rparr>"

definition test_socket :: isocket where
  "test_socket = ISocket_new IPV4_TCP LOCAL_WEB_PORT UNICAST_CLIENT_SOCKET 42"

text \<open>The three functions that the tests hand to the pool, by number.\<close>

definition accept_checked :: "int \<Rightarrow> fixture \<Rightarrow> fixture" where
  "accept_checked fd fx = (if fd \<noteq> 12345 then fx\<lparr>all_hold := False\<rparr> else fx\<lparr>seen_callback := True\<rparr>)"

definition close_checked :: "int \<Rightarrow> fixture \<Rightarrow> fixture" where
  "close_checked status fx = (if status \<noteq> 12321 then fx\<lparr>all_hold := False\<rparr> else fx)"

definition connect_checked :: "text_env \<Rightarrow> int \<Rightarrow> IPAddress \<Rightarrow> fixture \<Rightarrow> fixture" where
  "connect_checked tenv status addr fx =
     (if status \<noteq> 12321 then fx\<lparr>all_hold := False\<rparr>
      else if to_human_readable_ip_string tenv addr \<noteq> ''9.8.7.6'' then fx\<lparr>all_hold := False\<rparr>
      else fx)"

definition test_function :: "text_env \<Rightarrow> fixture invoker" where
  "test_function tenv f x fx =
     (case x of
        AcceptResult fd addr \<Rightarrow> if f = 0 then Inr (accept_checked fd fx, NONE) else Inl Undefined_behaviour
      | CloseResult status \<Rightarrow> if f = 1 then Inr (close_checked status fx, NONE) else Inl Undefined_behaviour
      | ConnectResult status addr \<Rightarrow>
          if f = 2 then Inr (connect_checked tenv status addr fx, NONE) else Inl Undefined_behaviour
      | _ \<Rightarrow> Inl Undefined_behaviour)"

text \<open>What the mock ring does when an item is submitted, in each of the tests.\<close>

definition accept_submitted :: "text_env \<Rightarrow> fixture submitter" where
  "accept_submitted tenv item fx =
     (let fx = fx\<lparr>submits := submits fx + 1\<rparr> in
      if m_work_type item \<noteq> ACCEPT then Inr (item, fx\<lparr>all_hold := False\<rparr>) else
      let fx = fx\<lparr>seen_submit := True\<rparr> in
      bindE (item_call_accept_callback (test_function tenv) item 12345 IPAddress_default fx) (\<lambda>(fx, _).
        Inr (item, fx)))"

definition close_submitted :: "text_env \<Rightarrow> fixture submitter" where
  "close_submitted tenv item fx =
     (let fx = fx\<lparr>submits := submits fx + 1\<rparr> in
      if m_work_type item \<noteq> CLOSE then Inr (item, fx\<lparr>all_hold := False\<rparr>) else
      let fx = fx\<lparr>seen_submit := True\<rparr> in
      bindE (item_call_close_callback (test_function tenv) item 12321 fx) (\<lambda>(fx, _). Inr (item, fx)))"

definition connect_submitted :: "text_env \<Rightarrow> byte list \<Rightarrow> fixture submitter" where
  "connect_submitted tenv stack item fx =
     (let fx = fx\<lparr>submits := submits fx + 1\<rparr> in
      if m_work_type item \<noteq> CONNECT then Inr (item, fx\<lparr>all_hold := False\<rparr>) else
      let fx = fx\<lparr>seen_submit := True\<rparr> in
      bindE (string_to_ipv4_address tenv ''9.8.7.6'') (\<lambda>a.
      bindE (item_call_connect_callback (test_function tenv) item 12321
               (IPAddress_of_in_addr stack a ENCRYPTED_WEB_PORT) fx) (\<lambda>(fx, _). Inr (item, fx))))"

text \<open>
  The tests.  \<^verbatim>\<open>EXPECT_CALL(...).WillOnce\<close> demands one call of \<^verbatim>\<open>submit\<close>;
  \<^verbatim>\<open>ASSERT_EXIT\<close> that a failed assertion stops the program.
\<close>

definition test_wp_accept :: "text_env \<Rightarrow> work_item \<Rightarrow> bool res" where
  "test_wp_accept tenv junk =
     (if get_fd test_socket \<noteq> 42 then Inr False else
      bindE (alloc_accept_work_item (accept_submitted tenv) junk test_socket (Some 0) ''test-accept''
               (WorkPool_new, fixture_new)) (\<lambda>(item, wp, fx).
      if \<not> seen_submit fx then Inr False else
      if \<not> seen_callback fx then Inr False else
      if m_work_type (deref wp item) \<noteq> ACCEPT then Inr False else
      if test_socket \<noteq> get_socket (deref wp item) then Inr False else
      if get_type_str (deref wp item) \<noteq> ''accept'' then Inr False else
      bindE (get_work_item wp (get_id (deref wp item))) (\<lambda>r.
      if r \<noteq> Some item then Inr False else
      bindE (free_work_item wp (get_id (deref wp item))) (\<lambda>wp.
      bindE (get_work_item wp (get_id (deref wp item))) (\<lambda>r.
      if r \<noteq> None then Inr False else
      if free_work_item wp (get_id (deref wp item)) \<noteq> Inl Assertion_failed then Inr False else
        Inr (submits fx = 1 \<and> all_hold fx))))))"

definition test_wp_close :: "text_env \<Rightarrow> work_item \<Rightarrow> bool res" where
  "test_wp_close tenv junk =
     bindE (alloc_close_work_item (close_submitted tenv) junk test_socket (Some 1) ''test-close''
               (WorkPool_new, fixture_new)) (\<lambda>(item, wp, fx).
     if \<not> seen_submit fx then Inr False else
     if test_socket \<noteq> get_socket (deref wp item) then Inr False else
     if get_type_str (deref wp item) \<noteq> ''close'' then Inr False else
       Inr (submits fx = 1 \<and> all_hold fx))"

definition test_wp_connect :: "text_env \<Rightarrow> byte list \<Rightarrow> work_item \<Rightarrow> bool res" where
  "test_wp_connect tenv stack junk =
     bindE (string_to_ipv4_address tenv ''1.2.3.4'') (\<lambda>a.
     bindE (alloc_connect_work_item (connect_submitted tenv stack) junk
              (IPAddress_of_in_addr stack a ENCRYPTED_WEB_PORT) test_socket (Some 2) ''test-conn''
              (WorkPool_new, fixture_new)) (\<lambda>(item, wp, fx).
     if \<not> seen_submit fx then Inr False else
     if test_socket \<noteq> get_socket (deref wp item) then Inr False else
     if get_type_str (deref wp item) \<noteq> ''connect'' then Inr False else
       Inr (submits fx = 1 \<and> all_hold fx)))"

section \<open>The tests pass\<close>

lemma test_sp_passes:
  assumes "length junk = BUF_SIZE"
  shows "test_sp junk = Inr True"
proof -
  have as_string: "packet_to_string sp = string_of_bytes (contents sp)" for sp
    by (simp add: packet_to_string_def contents_def packet_size_def packet_data_def)
  have add: "\<exists>sp'. append_bytes sp d = Inr sp' \<and> packet_inv sp' \<and> contents sp' = contents sp @ d \<and>
      packet_size sp' = length (contents sp) + length d"
    if "packet_inv sp" "length (contents sp) + length d < BUF_SIZE" for sp d
    using pkt.append_fits[OF that] length_contents by (metis length_append)
  let ?hello = "bytes_of_string ''hello''"
  have h: "0 \<notin> set ?hello" "takeWhile (\<lambda>b. b \<noteq> 0) (?hello @ [0]) = ?hello" by code_simp+
  obtain sp1 where 1: "append_bytes (new_send_packet junk) ?hello = Inr sp1" "packet_inv sp1"
    "contents sp1 = ?hello" "packet_size sp1 = 5"
    using add[of "new_send_packet junk" ?hello] packet_inv_new[OF assms] by (auto simp: BUF_SIZE_def)
  obtain sp2 where 2: "append_bytes sp1 [] = Inr sp2" "packet_inv sp2" "contents sp2 = ?hello" "packet_size sp2 = 5"
    using add[of sp1 "[]"] 1 by (auto simp: BUF_SIZE_def)
  obtain sp3 where 3: "append_bytes sp2 [char_byte CHR ''a''] = Inr sp3" "packet_inv sp3"
    "contents sp3 = ?hello @ [char_byte CHR ''a'']" "packet_size sp3 = 6"
    using add[of sp2 "[char_byte CHR ''a'']"] 2 by (auto simp: BUF_SIZE_def)
  have r: "packet_inv (reset sp3)" "contents (reset sp3) = []" "packet_size (reset sp3) = 0"
    using reset_inv[OF 3(2)] contents_reset[of sp3] by (simp, blast, simp add: packet_size_def reset_def)
  obtain sp4 where 4: "append_bytes (reset sp3) [char_byte CHR ''a''] = Inr sp4" "packet_inv sp4"
    "contents sp4 = [char_byte CHR ''a'']"
    using add[of "reset sp3" "[char_byte CHR ''a'']"] r by (auto simp: BUF_SIZE_def)
  let ?bc = "char_shift CHR ''b'' 8 OR char_shift CHR ''c'' 0 :: 16 word"
  let ?dg = "char_shift CHR ''d'' 24 OR char_shift CHR ''e'' 16 OR char_shift CHR ''f'' 8 OR char_shift CHR ''g'' 0 :: 32 word"
  have "length (contents sp4) + 6 < 4096" using 4(3) by simp
  from append_integers_big_endian[OF 4(2) this, of ?bc ?dg] obtain sp5 sp6 where
    5: "append_uint16 sp4 ?bc = Inr sp5" "append_uint32 sp5 ?dg = Inr sp6" and
    6: "contents sp6 = contents sp4 @ [ucast (drop_bit 8 ?bc), ucast ?bc, ucast (drop_bit 24 ?dg),
      ucast (drop_bit 16 ?dg), ucast (drop_bit 8 ?dg), ucast ?dg]" by blast
  have "string_of_bytes (?hello @ [char_byte CHR ''a'']) = ''helloa''"
    "string_of_bytes ([char_byte CHR ''a''] @ [ucast (drop_bit 8 ?bc), ucast ?bc, ucast (drop_bit 24 ?dg),
      ucast (drop_bit 16 ?dg), ucast (drop_bit 8 ?dg), ucast ?dg]) = ''abcdefg''" by code_simp+
  then have "packet_to_string sp3 = ''helloa''" "packet_to_string sp6 = ''abcdefg''"
    unfolding as_string 3(3) 6 4(3) .
  moreover have "append_cstr (new_send_packet junk) (?hello @ [0]) = Inr sp1"
    "append_cstr sp1 (bytes_of_string '''' @ [0]) = Inr sp2"
    using 1(1) 2(1) h by (simp_all add: append_cstr_def bytes_of_string_def)
  moreover have "append_byte sp2 (char_byte CHR ''a'') = Inr sp3" "append_byte (reset sp3) (char_byte CHR ''a'') = Inr sp4"
    using 3(1) 4(1) by (simp_all add: append_byte_def)
  ultimately show ?thesis using 1(4) 2(4) 3(4) r(3) 5 unfolding test_sp_def Let_def by (simp del: bindE_eq_Inr)
qed

lemmas test_defs = test_function_def accept_checked_def close_checked_def connect_checked_def
  fixture_new_def test_socket_def item_call_defs call_func_def

text \<open>One item in an empty pool, whatever is submitted with it.\<close>

lemma first_item:
  assumes "f (WorkItem_new junk 0 descr socket) n = Inr (wi, n')"
  shows "bindE (internal_alloc_work_item junk socket descr WorkPool_new) (\<lambda>(wi, p1).
       bindE (submit_at f wi (p1, n)) (\<lambda>pn. Inr (wi, pn))) =
     Inr (0, \<lparr>heap = [wi], m_work_items = [Some 0], m_free_ids = []\<rparr>, n')"
  using assms
  by (simp add: internal_alloc_work_item_def WorkPool_new_def submit_at_def deref_def store_def Let_def is_free_def)

lemma test_wp_accept_passes: "test_wp_accept tenv junk = Inr True"
proof -
  let ?wi = "(WorkItem_new junk 0 ''test-accept'' test_socket)\<lparr>m_callback := Accept_cb (Some 0), m_work_type := ACCEPT\<rparr>"
  let ?fx = "\<lparr>seen_submit = True, seen_callback = True, submits = 1, all_hold = True\<rparr>"
  have "submit_accept_item (accept_submitted tenv) (Some 0) (WorkItem_new junk 0 ''test-accept'' test_socket)
      fixture_new = Inr (?wi, ?fx)"
    by (simp add: submit_accept_item_def accept_submitted_def test_defs Let_def)
  note first_item[where f = "submit_accept_item (accept_submitted tenv) (Some 0)", OF this]
  then have r: "alloc_accept_work_item (accept_submitted tenv) junk test_socket (Some 0) ''test-accept''
      (WorkPool_new, fixture_new) = Inr (0, \<lparr>heap = [?wi], m_work_items = [Some 0], m_free_ids = []\<rparr>, ?fx)"
    unfolding alloc_accept_work_item_def prod.case .
  have "get_fd test_socket = 42" by (simp add: test_socket_def ISocket_new_def get_fd_def)
  then show ?thesis
    unfolding test_wp_accept_def r bindE_simps prod.case
    by (simp add: deref_def get_socket_def get_type_str_def get_id_def get_work_item_def free_work_item_def
        mark_is_free_def is_free_def store_def Let_def)
qed

lemma test_wp_close_passes: "test_wp_close tenv junk = Inr True"
proof -
  let ?wi = "(WorkItem_new junk 0 ''test-close'' test_socket)\<lparr>m_callback := Close_cb (Some 1), m_work_type := CLOSE\<rparr>"
  let ?fx = "\<lparr>seen_submit = True, seen_callback = False, submits = 1, all_hold = True\<rparr>"
  have "submit_close_item (close_submitted tenv) (Some 1) (WorkItem_new junk 0 ''test-close'' test_socket)
      fixture_new = Inr (?wi, ?fx)"
    by (simp add: submit_close_item_def close_submitted_def test_defs Let_def)
  note first_item[where f = "submit_close_item (close_submitted tenv) (Some 1)", OF this]
  then have r: "alloc_close_work_item (close_submitted tenv) junk test_socket (Some 1) ''test-close''
      (WorkPool_new, fixture_new) = Inr (0, \<lparr>heap = [?wi], m_work_items = [Some 0], m_free_ids = []\<rparr>, ?fx)"
    unfolding alloc_close_work_item_def prod.case .
  show ?thesis
    unfolding test_wp_close_def r bindE_simps prod.case
    by (simp add: deref_def get_socket_def get_type_str_def)
qed

lemma test_wp_connect_passes:
  assumes junk: "junk_ok junk" and t: "string_to_ipv4_address tenv ''1.2.3.4'' = Inr a"
    "string_to_ipv4_address tenv ''9.8.7.6'' = Inr b" "inet_ntop4 tenv b = Some ''9.8.7.6''"
  shows "test_wp_connect tenv stack junk = Inr True"
proof -
  let ?new = "WorkItem_new junk 0 ''test-conn'' test_socket" and ?target = "IPAddress_of_in_addr stack a ENCRYPTED_WEB_PORT"
  let ?fx = "\<lparr>seen_submit = True, seen_callback = False, submits = 1, all_hold = True\<rparr>"
  have "length (m_buffer_for_uring ?new) = 128"
    using item_inv_new[OF junk] by (simp add: item_inv_def sizeof_defs)
  moreover have "to_human_readable_ip_string tenv (IPAddress_of_in_addr stack b ENCRYPTED_WEB_PORT) = ''9.8.7.6''"
    by (simp add: to_human_readable_ip_string_def IPAddress_of_in_addr_def source_name_def t(3))
  ultimately obtain wi where "submit_connect_item (connect_submitted tenv stack) ?target (Some 2) ?new fixture_new =
      Inr (wi, ?fx)" "m_work_type wi = CONNECT" "m_socket wi = test_socket"
    by (simp add: submit_connect_item_def connect_submitted_def size_sockaddr_def data_sockaddr_def t(2)
        test_defs Let_def IPAddress_of_in_addr_def sizeof_defs)
  note first_item[where f = "submit_connect_item (connect_submitted tenv stack) ?target (Some 2)", OF this(1)]
  then have r: "alloc_connect_work_item (connect_submitted tenv stack) junk ?target test_socket (Some 2) ''test-conn''
      (WorkPool_new, fixture_new) = Inr (0, \<lparr>heap = [wi], m_work_items = [Some 0], m_free_ids = []\<rparr>, ?fx)"
    unfolding alloc_connect_work_item_def prod.case .
  show ?thesis
    unfolding test_wp_connect_def t(1) bindE_simps r prod.case
    using \<open>m_work_type wi = CONNECT\<close> \<open>m_socket wi = test_socket\<close>
    by (simp add: deref_def get_socket_def get_type_str_def)
qed

text \<open>With dotted decimal notation for the C library.\<close>

lemma test_wp_connect_passes_example:
  "test_wp_connect text_env_ex stack zero_item = Inr True"
proof (rule test_wp_connect_passes[of _ _ "0x04030201" "0x06070809"])
  show "string_to_ipv4_address text_env_ex ''1.2.3.4'' = Inr 0x04030201"
    "string_to_ipv4_address text_env_ex ''9.8.7.6'' = Inr 0x06070809"
    "inet_ntop4 text_env_ex 0x06070809 = Some ''9.8.7.6''" by code_simp+
qed simp

section \<open>The mock factory against the real one\<close>

text \<open>
  C30: The socket that the mock factory makes of an accepted connection is not the one that
  the library makes: the port has its bytes swapped (the library keeps the field of
  \<^verbatim>\<open>sockaddr_in\<close> as it is, in network byte order), the type is IPv4 also for an IPv6
  address, and without an address the mock stops the program where the library makes a
  socket of unknown type.  For a descriptor that is not positive it is the library that
  stops.  So the two agree exactly on IPv4 addresses with a port that reads the same in both
  byte orders, and tests with the mock can not show that the library's port is wrong.
\<close>

theorem mock_factory_differs:
  "case create_impl_of_accept fd addr of
     Inl e \<Rightarrow> e = Assertion_failed \<and> fd \<le> 0
   | Inr s \<Rightarrow> 0 < fd \<and>
       (case mock_create_impl_of_accept fd addr f of
          Inl e \<Rightarrow> e = Aborted \<and> m_in4 addr = None \<and> m_in6 addr = None \<and>
            get_socket_type (s_base s) = SocketType_UNKNOWN
        | Inr (m, f') \<Rightarrow> created_sockets f' = created_sockets f @ [m] \<and>
            get_fd m = get_fd (s_base s) \<and> get_kind m = get_kind (s_base s) \<and>
            get_socket_port m = htons (get_socket_port (s_base s)) \<and>
            (get_socket_type m = get_socket_type (s_base s) \<longleftrightarrow> m_in4 addr \<noteq> None) \<and>
            (m = s_base s \<longleftrightarrow> m_in4 addr \<noteq> None \<and> get_socket_port m = get_socket_port (s_base s)))"
  by (cases "m_in4 addr"; cases "m_in6 addr")
    (auto simp: factory_defs SocketImpl_of_accept_def sock_fd_def mock_create_impl_of_accept_def get_port_def
      accept_get_type_def accept_get_port_def ISocket_new_def socket_accessors assertE_def Let_def)

end
