(* ===== verification/Spec2Isabelle.thy ===== *)
theory Spec2Isabelle
  imports PingRefused EchoServer Adapter ResolverThreads SocketImpl Buffers UnitTests
begin

text \<open>
  A verification development of iuring, a C++ library for asynchronous network input and
  output over liburing.  It models the implementation under \<^verbatim>\<open>src/\<close> the headers under
  \<^verbatim>\<open>include/iuring/\<close>, the example programs
  \<^verbatim>\<open>tests/ping.cpp\<close> and \<^verbatim>\<open>tests/echo_server.cpp\<close>, and the unit tests of the containers.

  \<^bold>\<open>The program.\<close>  A client creates a ring (\<^verbatim>\<open>IOUring\<close>), initialises it, and makes requests:
  accept, connect, receive, send, close.  Every request is a \<^verbatim>\<open>WorkItem\<close> of the \<^verbatim>\<open>WorkPool\<close>,
  with the memory that the kernel reads and writes and the client's function for the
  completion.  \<^verbatim>\<open>IOUring::submit\<close> turns an item into an entry of the submission queue, whose user
  data is the identifier of the item.  \<^verbatim>\<open>poll_completion_queues\<close> takes one completion, finds the
  item by the identifier, runs the client's function, and releases the item or submits it
  again.  Data that arrive are in buffers which the ring shares with the kernel and gives
  back after the function has run.  Host names are resolved by \<^verbatim>\<open>getaddrinfo_a\<close>, whose notifier
  runs in a thread of the C library.  \<^verbatim>\<open>SocketImpl\<close> makes the sockets, \<^verbatim>\<open>NetworkAdapter\<close> finds the
  addresses of the network interface.

  \<^bold>\<open>The theories\<close>:

  \<^item> \<open>Prelude\<close>: results of code that may stop the program (\<open>res\<close>), raw memory, integers in
    memory, byte order, strings.  A failing \<^verbatim>\<open>assert\<close>, \<^verbatim>\<open>abort\<close>, \<^verbatim>\<open>exit\<close>, an access outside of an
    object and the call of an empty \<^verbatim>\<open>std::function\<close> are values of \<open>failure\<close>.
  \<^item> \<open>SendPacket\<close> (\<^verbatim>\<open>SendPacket.hpp\<close>): the buffer of outgoing data; locale \<open>byte_sink\<close>.
  \<^item> \<open>NetworkProtocols\<close>, \<open>IPAddress\<close>, \<open>Socket\<close>: the enumerations, \<^verbatim>\<open>IPAddress.hpp\<close> on the Linux
    layout of the socket addresses, and \<^verbatim>\<open>ISocket.hpp\<close>.
  \<^item> \<open>MacAddress\<close>, \<open>AddressText\<close> (\<^verbatim>\<open>MacAddress.hpp\<close>, \<^verbatim>\<open>IPAddress.cpp\<close>): reading and printing.
  \<^item> \<open>WorkItem\<close>, \<open>WorkPool\<close> (\<^verbatim>\<open>WorkItem.hpp/.cpp\<close>, \<^verbatim>\<open>WorkPool.hpp/.cpp\<close>, \<^verbatim>\<open>CompletionCallbacks.hpp\<close>,
    \<^verbatim>\<open>ReceivedMessage.hpp\<close>): items on a heap, the table of slots and the stack of free identifiers;
    locale \<open>item_table\<close>.
  \<^item> \<open>Kernel\<close>: the boundary to liburing.  The calls across it are events, the state of the ring
    keeps its trace, and the answers come from a parameter \<open>env\<close> that sees the trace.
  \<^item> \<open>BufferPool\<close>, \<open>Init\<close>, \<open>Submit\<close>, \<open>Completion\<close>, \<open>Dispatch\<close> (\<^verbatim>\<open>IOUring.cpp/.hpp\<close>,
    \<^verbatim>\<open>ProbeUringFeatures.hpp\<close>): set-up and recycling of buffers, initialisation, submission of
    every type of work, the handling of a completion, and what each type of completion does.
  \<^item> \<open>Interface\<close> (\<^verbatim>\<open>IOUringInterface.hpp\<close>): the calls of a client as one step function.  A client's
    function is a script of such calls, each of which may depend on the argument and on
    everything that happened before it, so it can hand over an item that it has just acquired.
    A call is legal if it hands over only an item that is in the table and has not been handed
    over before; \<open>checked\<close> runs a script if all its calls are legal, and fails otherwise.
    Locales \<open>io_ring\<close>, \<open>client_runner\<close> and \<open>careful_runner\<close> state what a step and a script keep.
  \<^item> \<open>Entries\<close>: the last entry that was handed over under an identifier fits the item that is
    live under it, whatever the client calls.
  \<^item> \<open>NewRequests\<close>: when the calls of the interface succeed, and the one new item of each;
    a client that answers a message by acquiring, filling and handing over an item.
  \<^item> \<open>Requests\<close>: the reachable states of the ring, with its client and the kernel, and the
    correspondence of requests in flight and live items, for careful clients.
  \<^item> \<open>Buffers\<close>: which of the receive buffers the kernel owns, over whole runs.
  \<^item> \<open>RequestMachine\<close>: an abstract machine of requests, completions and runs of functions, and the
    simulation that shows the ring to implement it.
  \<^item> \<open>Progress\<close>: kernels that answer after some time, and repeated polling until nothing is in
    flight, or for ever (locale \<open>steady_polling\<close>).
  \<^item> \<open>Resolver\<close>: \<^verbatim>\<open>resolve_hostname\<close>, the notifier and the runs of both; \<open>ResolverThreads\<close>: runs in
    which notifiers go through the requests one iteration at a time, in threads of their own.
  \<^item> \<open>SocketImpl\<close> (\<^verbatim>\<open>SocketImpl.cpp/.hpp\<close>, the factories): system calls with their memory.
  \<^item> \<open>Adapter\<close> (\<^verbatim>\<open>NetworkAdapter.hpp\<close>, \<^verbatim>\<open>IOUringInterface.cpp\<close>): interface addresses, MAC address.
  \<^item> \<open>Ping\<close>, \<open>PingRefused\<close>, \<open>EchoServer\<close> (\<^verbatim>\<open>tests/ping.cpp\<close>, \<^verbatim>\<open>tests/echo_server.cpp\<close>): two whole programs over the
    library, from \<^verbatim>\<open>main\<close> on; their lambda expressions are the functions that the ring runs.
  \<^item> \<open>UnitTests\<close> (\<^verbatim>\<open>tests/test_sendpacket.cpp\<close>, \<^verbatim>\<open>tests/test_workpool.cpp\<close>, and the objects of
    \<^verbatim>\<open>tests/iuring_mocks.hpp\<close> that they use): the tests as programs over the model.

  \<^bold>\<open>What the theorems show.\<close> \<open>Requests\<close>: in every reachable state
  a completion of a request in flight finds its live item, which has the type of the last entry
  under its identifier and the function of the right kind, so
  no lookup, release or variant access can fail; and unless the kernel runs out of buffers, live
  submitted items and requests in flight are the same. Both hold while the kernel ends each
  request with its first completion (\<open>single_shot\<close>); the receive of datagrams is
  multishot, and what the program does when the kernel keeps it active is a theorem of its own.
  The client has to be careful: no function that a poll runs in a reachable state makes a call
  that is not legal.  That is a property of runs (\<open>careful_client\<close>, in terms of
  \<open>checked\<close>), which the documented pattern of acquiring an item and
  submitting it has: the examples are about such a client.  Nothing in the library enforces it, and
  what happens otherwise is a theorem too.
  \<open>RequestMachine\<close>, without this hypothesis: the reachable states of the ring refine
  those of the abstract machine, whose functions run in the order of completions, each with the
  result of its own. \<open>Buffers\<close>: between two polls the kernel owns each of the 512
  buffers that the program has given it, if its completions name buffers that it owned. \<open>Progress\<close>: with a kernel that answers, as many completions as
  there are requests in flight run each waiting function once. \<open>Ping\<close>: with a kernel
  that serves it, the example program goes through its four functions in order, hands over exactly
  four requests and returns; when the connect is refused it is never told
  (\<open>PingRefused\<close>). \<open>EchoServer\<close>: the server never returns and never
  fails, and always receives on exactly the connections it has accepted. \<open>Dispatch\<close>:
  for each type of work and each branch, errors included, which function runs with which argument,
  which item is released or submitted again, in which order, and how many buffers go back to the
  kernel; a completion with \<^verbatim>\<open>-ENOBUFS\<close> is ignored and its item stays, whatever the request was. \<open>Submit\<close>: exactly which entry and memory the kernel is handed.
  \<open>WorkPool\<close>, \<open>BufferPool\<close>, \<open>SendPacket\<close>: the containers
  against their specification and their bounds. \<open>Init\<close>: when initialisation returns
  and with what. \<open>Resolver\<close>: which handlers are run, which never are, and which
  blocks are lost. \<open>ResolverThreads\<close>: notifiers under way may be taken to be single
  steps, unless the list of requests moves below them. \<open>SocketImpl\<close>: creation
  succeeds exactly if each call does, and the types that sockets have.
  \<open>Adapter\<close>: when the search for an address ends.
  \<open>IPAddress\<close>, \<open>AddressText\<close>, \<open>MacAddress\<close>: layout, order,
  round trips. \<open>UnitTests\<close>: the tests pass on the model; where the mock factory
  answers otherwise than the library.

  \<^bold>\<open>Loops.\<close> Loops over containers are folds and recursions.
  \<open>retrieve_interface_ip\<close> may run for ever: it is a partial function whose value
  \<open>None\<close> means so, and so are the loops of \<open>Ping\<close>, which is shown to
  return, and of \<open>EchoServer\<close>, which is shown not to. Ten attempts to read the MAC
  address are a recursion on their number. No fuel is used.

  \<^bold>\<open>Not modelled.\<close> Log messages; the logging library, a submodule that is not in the repository (its \<^verbatim>\<open>trim\<close>,
  \<^verbatim>\<open>ends_with\<close>, \<^verbatim>\<open>run_cmd\<close> and
  \<^verbatim>\<open>errno_to_error\<close> are parameters); the branches under
  \<^verbatim>\<open>if (false)\<close>; reference counts. Every operation of the pool holds its
  mutex, so runs of several threads are sequences of operations; the notifier of the resolver
  takes no lock, and what two threads do inside one of its iterations is outside the model, as
  are functions of the client that ask for a name from within it. Memory that C++ leaves
  uninitialised is an argument (\<open>junk\<close>) or part of the environment.
\<close>

end
